(* ===== verification/Prelude.thy ===== *)
theory Prelude
  imports Main "HOL-Library.Word" "HOL-Library.Sublist"
begin

text \<open>
  Shared vocabulary of the development: bytes and failures, 64-bit arithmetic on \<open>nat\<close>
  with the wrap-around written out, the two \<^verbatim>\<open>std::string\<close> searches the code uses on
  paths, and the generic list lemmas every component needs.
\<close>

section \<open>Types\<close>

type_synonym byte = "8 word"
type_synonym bytes = "byte list"

text \<open>
  The code reports a failure as a negative errno. \<open>NoReturn\<close> is the outcome of a call
  that never returns (a loop that makes no progress); it propagates like a failure and is
  never mistaken for an error code.
\<close>

datatype fail = Errno nat | NoReturn

type_synonym 'a res = "fail + 'a"

abbreviation EPERM :: fail where "EPERM \<equiv> Errno 1"
abbreviation ENOENT :: fail where "ENOENT \<equiv> Errno 2"
abbreviation EINTR :: fail where "EINTR \<equiv> Errno 4"
abbreviation EIO :: fail where "EIO \<equiv> Errno 5"
abbreviation EBADF :: fail where "EBADF \<equiv> Errno 9"
abbreviation EACCES :: fail where "EACCES \<equiv> Errno 13"
abbreviation EEXIST :: fail where "EEXIST \<equiv> Errno 17"
abbreviation ENOTDIR :: fail where "ENOTDIR \<equiv> Errno 20"
abbreviation EISDIR :: fail where "EISDIR \<equiv> Errno 21"
abbreviation EINVAL :: fail where "EINVAL \<equiv> Errno 22"
abbreviation EROFS :: fail where "EROFS \<equiv> Errno 30"
abbreviation ENAMETOOLONG :: fail where "ENAMETOOLONG \<equiv> Errno 36"
abbreviation ENOTEMPTY :: fail where "ENOTEMPTY \<equiv> Errno 39"
abbreviation ELOOP :: fail where "ELOOP \<equiv> Errno 40"

named_theorems io_simps "unfolding rules of the byte-level readers"

section \<open>Unsigned 64-bit arithmetic on nat\<close>

text \<open>
  \<^verbatim>\<open>uint64_t\<close> and \<^verbatim>\<open>size_t\<close> values are naturals below \<open>2 ^ 64\<close>; every sum and
  difference that the code computes in those types is written with \<open>u64\<close> or
  \<open>sub64\<close>, so a wrap-around is visible in the model.
\<close>

definition W64 :: nat where
  "W64 = 18446744073709551616"

definition u64 :: "nat \<Rightarrow> nat" where
  "u64 x = x mod W64"

definition sub64 :: "nat \<Rightarrow> nat \<Rightarrow> nat" where
  "sub64 a b = (a + W64 - b) mod W64"

lemma W64_pos [simp]: "0 < W64"
  by (simp add: W64_def)

lemma W64_power: "W64 = 2 ^ 64"
  by (simp add: W64_def)

lemma u64_id [simp]: "x < W64 \<Longrightarrow> u64 x = x"
  by (simp add: u64_def)

lemma u64_less [simp]: "u64 x < W64"
  by (simp add: u64_def)

lemma sub64_less [simp]: "sub64 a b < W64"
  by (simp add: sub64_def)

lemma sub64_eq [simp]:
  assumes "b \<le> a" and "a < W64"
  shows "sub64 a b = a - b"
proof -
  from assms(1) have "a + W64 - b = (a - b) + W64" by simp
  then have "sub64 a b = (a - b) mod W64" by (simp only: sub64_def mod_add_self2)
  also have "\<dots> = a - b" using assms(2) by (intro mod_less) linarith
  finally show ?thesis .
qed

section \<open>Sequencing fallible steps\<close>

definition bindE :: "'e + 'a \<Rightarrow> ('a \<Rightarrow> 'e + 'b) \<Rightarrow> 'e + 'b" where
  "bindE m f = (case m of Inl e \<Rightarrow> Inl e | Inr a \<Rightarrow> f a)"

lemma bindE_simps [simp]: "bindE (Inl e) f = Inl e" "bindE (Inr a) f = f a"
  by (simp_all add: bindE_def)

lemma bindE_Inr: "bindE m f = Inr b \<longleftrightarrow> (\<exists>a. m = Inr a \<and> f a = Inr b)"
  by (cases m) auto

lemma bindE_Inl: "bindE m f = Inl e \<longleftrightarrow> m = Inl e \<or> (\<exists>a. m = Inr a \<and> f a = Inl e)"
  by (cases m) auto

section \<open>Searching strings\<close>

text \<open>\<^verbatim>\<open>std::string::find\<close> and \<^verbatim>\<open>find_last_of\<close> for one character; \<open>None\<close> is \<^verbatim>\<open>npos\<close>.\<close>

fun find_first_of :: "'a \<Rightarrow> 'a list \<Rightarrow> nat option" where
  "find_first_of c [] = None"
| "find_first_of c (x # xs) = (if x = c then Some 0 else map_option Suc (find_first_of c xs))"

definition find_last_of :: "'a \<Rightarrow> 'a list \<Rightarrow> nat option" where
  "find_last_of c xs = map_option (\<lambda>i. length xs - 1 - i) (find_first_of c (rev xs))"

lemma find_first_of_None: "find_first_of c xs = None \<longleftrightarrow> c \<notin> set xs"
  by (induction xs) auto

lemma find_first_of_split: "c \<notin> set xs \<Longrightarrow> find_first_of c (xs @ c # ys) = Some (length xs)"
  by (induction xs) auto

lemma find_first_of_SomeD:
  "find_first_of c xs = Some i \<Longrightarrow> i < length xs \<and> xs ! i = c \<and> c \<notin> set (take i xs)"
  by (induction xs arbitrary: i) (auto split: if_splits)

lemma find_last_of_None: "find_last_of c xs = None \<longleftrightarrow> c \<notin> set xs"
  by (simp add: find_last_of_def find_first_of_None)

lemma find_last_of_split: "c \<notin> set ys \<Longrightarrow> find_last_of c (xs @ c # ys) = Some (length xs)"
  by (simp add: find_last_of_def find_first_of_split)

lemma find_last_of_cases:
  obtains (none) "find_last_of c xs = None" "c \<notin> set xs"
  | (found) ys zs where "xs = ys @ c # zs" "c \<notin> set zs" "find_last_of c xs = Some (length ys)"
proof (cases "c \<in> set xs")
  case True
  then obtain ys zs where "xs = ys @ c # zs" "c \<notin> set zs"
    by (auto dest: split_list_last)
  then show ?thesis by (intro found) (auto simp: find_last_of_split)
qed (simp add: none find_last_of_None)

lemma find_last_of_SomeD:
  "find_last_of c xs = Some i \<Longrightarrow> i < length xs \<and> xs ! i = c \<and> c \<notin> set (drop (Suc i) xs)"
  by (cases rule: find_last_of_cases [of c xs]) auto

section \<open>List lemmas\<close>

lemma take_drop_append_take:
  "take k (drop off c) @ take m (drop (off + k) c) = take (k + m) (drop off c)"
  by (metis add.commute drop_drop take_add)

lemma drop_take_sub: "take m (drop k (take n xs)) = take (min m (n - k)) (drop k xs)"
  by (simp add: drop_take min.commute)

lemma nth_drop_take_Cons: "i < length xs \<Longrightarrow> drop i xs = xs ! i # drop (Suc i) xs"
  by (rule Cons_nth_drop_Suc [symmetric])

lemma drop_concat_fixed:
  assumes "\<And>x. x \<in> set xs \<Longrightarrow> length (f x) = w"
  shows "drop (i * w) (concat (map f xs)) = concat (map f (drop i xs))"
  using assms
proof (induction xs arbitrary: i)
  case (Cons x xs)
  then show ?case by (cases i) simp_all
qed simp

lemma length_concat_fixed:
  "(\<And>x. x \<in> set xs \<Longrightarrow> length (f x) = w) \<Longrightarrow> length (concat (map f xs)) = length xs * w"
  by (induction xs) auto

lemma map_nth_list: "length xs = n \<Longrightarrow> (\<And>i. i < n \<Longrightarrow> f i = xs ! i) \<Longrightarrow> map f [0..<n] = xs"
  by (rule nth_equalityI) auto

lemma unat_of_nat64 [simp]: "n < W64 \<Longrightarrow> unat (of_nat n :: 64 word) = n"
  by (simp add: unat_of_nat W64_def)

lemma unat_of_nat32 [simp]: "n < 2 ^ 32 \<Longrightarrow> unat (of_nat n :: 32 word) = n"
  by (simp add: unat_of_nat)

lemma unat64_less [simp]: "unat (w :: 64 word) < W64"
  using unsigned_less [of w] by (simp add: W64_def)

lemma find_SomeD: "List.find P xs = Some x \<Longrightarrow> x \<in> set xs \<and> P x"
  by (induction xs) (auto split: if_splits)

section \<open>Decimal numbers\<close>

fun to_string :: "nat \<Rightarrow> string" where
  "to_string n = (if n < 10 then [char_of (48 + n)] else to_string (n div 10) @ [char_of (48 + n mod 10)])"

declare to_string.simps [simp del]

end
