(* ===== verification/Endian.thy ===== *)
theory Endian
  imports Prelude
begin

unbundle bit_operations_syntax

text \<open>
  The little-endian readers and writers of \<^verbatim>\<open>vgdelta.cpp\<close> and \<^verbatim>\<open>zipscan.cpp\<close> and the
  FNV-1a hash that identifies a delta's base. The two files each have their own readers,
  written differently; they are shown to agree, and the writers to be inverted by them.
\<close>

section \<open>Serialisation of the delta format (vgdelta.cpp)\<close>

definition put32 :: "bytes \<Rightarrow> 32 word \<Rightarrow> bytes" where
  "put32 v x = v @ map (\<lambda>i. ucast (drop_bit (8 * i) x AND 0xff)) [0..<4]"

definition put64 :: "bytes \<Rightarrow> 64 word \<Rightarrow> bytes" where
  "put64 v x = v @ map (\<lambda>i. ucast (drop_bit (8 * i) x AND 0xff)) [0..<8]"

definition rd32 :: "bytes \<Rightarrow> 32 word" where
  "rd32 p = fold (\<lambda>i x. x OR push_bit (8 * i) (ucast (p ! i))) [0..<4] 0"

definition rd64 :: "bytes \<Rightarrow> 64 word" where
  "rd64 p = fold (\<lambda>i x. x OR push_bit (8 * i) (ucast (p ! i))) [0..<8] 0"

section \<open>Readers of the zip scanner (zipscan.cpp)\<close>

text \<open>\<^verbatim>\<open>Rd16\<close> and \<^verbatim>\<open>Rd32\<close> are single expressions, \<^verbatim>\<open>Rd64\<close> a loop from the top byte down.\<close>

definition Rd16 :: "bytes \<Rightarrow> 16 word" where
  "Rd16 p = ucast (p ! 0) OR push_bit 8 (ucast (p ! 1))"

definition Rd32 :: "bytes \<Rightarrow> 32 word" where
  "Rd32 p = ucast (p ! 0) OR push_bit 8 (ucast (p ! 1)) OR push_bit 16 (ucast (p ! 2))
     OR push_bit 24 (ucast (p ! 3))"

definition Rd64 :: "bytes \<Rightarrow> 64 word" where
  "Rd64 p = fold (\<lambda>i v. push_bit 8 v OR ucast (p ! i)) (rev [0..<8]) 0"

section \<open>FNV-1a\<close>

definition fnv_step :: "byte \<Rightarrow> 64 word \<Rightarrow> 64 word" where
  "fnv_step b h = (h XOR ucast b) * 1099511628211"

definition Fnv1a64 :: "bytes \<Rightarrow> 64 word" where
  "Fnv1a64 p = fold fnv_step p 1469598103934665603"

section \<open>Round trips\<close>

text \<open>
  Both readers place byte \<open>i\<close> at bit \<open>8 * i\<close>: bit \<open>n\<close> of the result is bit
  \<open>n mod 8\<close> of byte \<open>n div 8\<close>, whatever the width and the order of the loop.
\<close>

lemma byte_split: "n = 8 * (n div 8) + n mod (8::nat)"
  by simp

lemma bit_byte_shift:
  fixes b :: byte
  shows "bit (push_bit (8 * i) (ucast b :: 'a::len word)) n \<longleftrightarrow>
    n < LENGTH('a) \<and> n div 8 = i \<and> bit b (n mod 8)"
proof -
  have "8 * i \<le> n \<and> n - 8 * i < 8 \<longleftrightarrow> n div 8 = i" by auto
  moreover have "n div 8 = i \<Longrightarrow> n - 8 * i = n mod 8" by (simp add: minus_div_mult_eq_mod [symmetric])
  moreover have "bit b (n - 8 * i) \<Longrightarrow> n - 8 * i < 8"
    using bit_imp_le_length [of b "n - 8 * i"] by simp
  ultimately show ?thesis
    by (auto simp: bit_simps)
qed

lemma bit_fold_bytes:
  "bit (fold (\<lambda>i x. x OR push_bit (8 * i) (ucast (f i :: byte))) [0..<m] (0::'a::len word)) n
    \<longleftrightarrow> n < LENGTH('a) \<and> n div 8 < m \<and> bit (f (n div 8)) (n mod 8)"
proof (induction m)
  case (Suc m)
  show ?case
    by (simp only: upt_Suc_append le0 fold_append comp_def fold.simps id_def bit_or_iff Suc.IH
        bit_byte_shift) (auto simp: less_Suc_eq)
qed simp

lemma bit_byte_of:
  "bit (ucast (drop_bit (8 * i) (x::'a::len word) AND 0xff) :: byte) k \<longleftrightarrow> k < 8 \<and> bit x (8 * i + k)"
proof -
  have m: "(0xff :: 'a word) = mask 8" by (simp add: mask_eq_exp_minus_1)
  show ?thesis
    unfolding m by (auto simp: bit_simps bit_mask_iff dest: bit_imp_le_length)
qed

lemma length_put32 [simp]: "length (put32 v x) = length v + 4"
  by (simp add: put32_def)

lemma length_put64 [simp]: "length (put64 v x) = length v + 8"
  by (simp add: put64_def)

lemma put32_append: "put32 v x = v @ put32 [] x"
  by (simp add: put32_def)

lemma put64_append: "put64 v x = v @ put64 [] x"
  by (simp add: put64_def)

lemma bit_rd32: "bit (rd32 p) n \<longleftrightarrow> n < 32 \<and> bit (p ! (n div 8)) (n mod 8)"
  by (auto simp: rd32_def bit_fold_bytes)

lemma bit_rd64: "bit (rd64 p) n \<longleftrightarrow> n < 64 \<and> bit (p ! (n div 8)) (n mod 8)"
  by (auto simp: rd64_def bit_fold_bytes)

lemma rd32_put32 [simp]: "rd32 (put32 [] x @ ys) = x"
proof (rule bit_word_eqI)
  fix n assume "n < LENGTH(32)"
  then have "n < 32" "n div 8 < 4" by (simp_all add: less_mult_imp_div_less)
  then show "bit (rd32 (put32 [] x @ ys)) n = bit x n"
    by (simp add: bit_rd32 put32_def nth_append bit_byte_of del: upt.simps)
qed

lemma rd64_put64 [simp]: "rd64 (put64 [] x @ ys) = x"
proof (rule bit_word_eqI)
  fix n assume "n < LENGTH(64)"
  then have "n < 64" "n div 8 < 8" by (simp_all add: less_mult_imp_div_less)
  then show "bit (rd64 (put64 [] x @ ys)) n = bit x n"
    by (simp add: bit_rd64 put64_def nth_append bit_byte_of del: upt.simps)
qed

lemmas rd32_put32_end [simp] = rd32_put32 [where ys = "[]", unfolded append_Nil2]
lemmas rd64_put64_end [simp] = rd64_put64 [where ys = "[]", unfolded append_Nil2]

text \<open>The zip scanner's readers are the delta format's readers, on the same bytes.\<close>

lemma Rd32_eq_rd32: "Rd32 p = rd32 p"
proof (rule bit_word_eqI)
  fix n assume n: "n < LENGTH(32)"
  have sh: "push_bit 8 (w::32 word) = push_bit (8 * 1) w" "push_bit 16 w = push_bit (8 * 2) w"
    "push_bit 24 w = push_bit (8 * 3) w" "w = push_bit (8 * 0) w" for w
    by simp_all
  have "bit (Rd32 p) n \<longleftrightarrow> (n div 8 = 0 \<and> bit (p ! 0) (n mod 8)) \<or> (n div 8 = 1 \<and> bit (p ! 1) (n mod 8))
      \<or> (n div 8 = 2 \<and> bit (p ! 2) (n mod 8)) \<or> (n div 8 = 3 \<and> bit (p ! 3) (n mod 8))"
    using n unfolding Rd32_def sh(1-3) by (subst sh(4)) (simp only: bit_or_iff bit_byte_shift, simp)
  moreover from n have "n div 8 = 0 \<or> n div 8 = 1 \<or> n div 8 = 2 \<or> n div 8 = 3"
    by (simp, arith)
  ultimately show "bit (Rd32 p) n = bit (rd32 p) n"
    using n by (auto simp: bit_rd32)
qed

lemma bit_fold_down:
  "bit (fold (\<lambda>i v. push_bit 8 v OR ucast (f i :: byte)) (rev [0..<m]) (0::'a::len word)) n
    \<longleftrightarrow> n < LENGTH('a) \<and> n div 8 < m \<and> bit (f (n div 8)) (n mod 8)"
proof (induction m arbitrary: f n)
  case (Suc m)
  have "rev [0..<Suc m] = map Suc (rev [0..<m]) @ [0]"
    by (simp add: map_Suc_upt rev_map [symmetric] upt_conv_Cons)
  then have eq: "fold (\<lambda>i v. push_bit 8 v OR ucast (f i)) (rev [0..<Suc m]) (0::'a word) =
    push_bit 8 (fold (\<lambda>i v. push_bit 8 v OR ucast (f (Suc i))) (rev [0..<m]) 0) OR ucast (f 0)"
    by (simp add: fold_map comp_def)
  have *: "n div 8 = Suc ((n - 8) div 8)" "(n - 8) mod 8 = n mod 8" if "8 \<le> n"
    using that by (simp_all add: le_div_geq le_mod_geq)
  have **: "bit (f 0) n \<Longrightarrow> n < 8" for n
    using bit_imp_le_length [of "f 0" n] by simp
  show ?case
    unfolding eq bit_or_iff bit_push_bit_iff Suc.IH
    by (cases "8 \<le> n") (use * ** in \<open>auto simp: bit_simps\<close>)
qed simp

lemma Rd64_eq_rd64: "Rd64 p = rd64 p"
  by (rule bit_word_eqI) (auto simp: Rd64_def bit_fold_down bit_rd64)

section \<open>The hash\<close>

text \<open>
  The FNV prime is odd, so multiplying by it is a bijection of \<open>64 word\<close>: one step is
  injective in the state and in the byte. Two buffers of the same length that differ in
  exactly one byte therefore never have the same hash.
\<close>

lemma fnv_prime_inverse: "(1099511628211 :: 64 word) * 14886173955864302971 = 1"
  by simp

lemma fnv_step_inj_state: "fnv_step b h = fnv_step b h' \<longleftrightarrow> h = h'"
proof
  assume "fnv_step b h = fnv_step b h'"
  then have "(h XOR ucast b) * 1099511628211 * 14886173955864302971 =
    (h' XOR ucast b) * 1099511628211 * 14886173955864302971"
    by (simp add: fnv_step_def)
  then have "h XOR ucast b = h' XOR ucast b"
    by (simp only: mult.assoc fnv_prime_inverse mult_1_right)
  then have "(h XOR ucast b) XOR ucast b = (h' XOR ucast b) XOR ucast b" by (rule arg_cong)
  then show "h = h'" by (simp add: xor.assoc)
qed simp

lemma fnv_step_inj_byte: "fnv_step b h = fnv_step b' h \<longleftrightarrow> b = b'"
proof
  assume "fnv_step b h = fnv_step b' h"
  then have "(h XOR ucast b) * 1099511628211 * 14886173955864302971 =
    (h XOR ucast b') * 1099511628211 * 14886173955864302971"
    by (simp add: fnv_step_def)
  then have "h XOR ucast b = h XOR ucast b'"
    by (simp only: mult.assoc fnv_prime_inverse mult_1_right)
  then have "h XOR (h XOR ucast b) = h XOR (h XOR ucast b')" by (rule arg_cong)
  then have "(ucast b :: 64 word) = ucast b'" by (simp add: xor.assoc [symmetric])
  then have "(ucast (ucast b :: 64 word) :: byte) = ucast (ucast b' :: 64 word)" by (rule arg_cong)
  moreover have "(ucast (ucast c :: 64 word) :: byte) = c" for c :: byte
    by (rule bit_word_eqI) (auto simp: bit_simps)
  ultimately show "b = b'" by simp
qed simp

lemma fold_fnv_inj: "fold fnv_step p h = fold fnv_step p h' \<longleftrightarrow> h = h'"
  by (induction p arbitrary: h h') (simp_all add: fnv_step_inj_state)

end
