(* ===== verification/ByteSource.thy ===== *)
theory ByteSource
  imports Endian
begin

text \<open>
  \<^verbatim>\<open>bytesource.h\<close>: the random-access byte streams everything is read through. A virtual
  \<^verbatim>\<open>pread\<close> is a \<open>reader\<close>; each class's method is a definition over the readers of the
  streams it holds. The contract the header states is the locale \<open>byte_source\<close>; the
  in-memory, mapped and concatenating sources are shown to keep it.
\<close>

type_synonym reader = "nat \<Rightarrow> nat \<Rightarrow> bytes res"

section \<open>preadAll\<close>

text \<open>
  \<open>Inr None\<close> is the code's \<open>false\<close> (an error or the end of the stream), \<open>Inr (Some b)\<close>
  its \<open>true\<close> with the buffer filled. The loop runs while fewer than \<open>n\<close> bytes are
  there; every turn adds at least one.
\<close>

function preadAll_loop :: "reader \<Rightarrow> nat \<Rightarrow> nat \<Rightarrow> bytes \<Rightarrow> bytes option res" where
  "preadAll_loop rd n off acc =
     (if length acc < n then
        (case rd (n - length acc) (u64 (off + length acc)) of
           Inl NoReturn \<Rightarrow> Inl NoReturn
         | Inl (Errno _) \<Rightarrow> Inr None
         | Inr [] \<Rightarrow> Inr None
         | Inr (b # bs) \<Rightarrow> preadAll_loop rd n off (acc @ b # bs))
      else Inr (Some acc))"
  by pat_completeness auto
termination
  by (relation "measure (\<lambda>(rd, n, off, acc). n - length acc)") auto

declare preadAll_loop.simps [simp del]

definition preadAll :: "reader \<Rightarrow> nat \<Rightarrow> nat \<Rightarrow> bytes option res" where
  "preadAll rd n off = preadAll_loop rd n off []"

section \<open>The sources\<close>

text \<open>\<^verbatim>\<open>MemByteSource::pread\<close>: the offset past the end reads nothing, a read is clipped.\<close>

definition mem_pread :: "bytes \<Rightarrow> reader" where
  "mem_pread d n off =
     (if off \<ge> length d then Inr []
      else let avail = length d - off;
               want = (if n < avail then n else avail)
           in Inr (take want (drop off d)))"

text \<open>\<^verbatim>\<open>MmapByteSource::pread\<close> serves the mapped file the same way.\<close>

definition mmap_pread :: "bytes \<Rightarrow> reader" where
  "mmap_pread d k o' =
     (if o' \<ge> length d then Inr []
      else let a = length d - o'; w = (if k < a then k else a)
           in Inr (take w (drop o' d)))"

text \<open>
  \<^verbatim>\<open>ConcatByteSource\<close>: the parts with the running start offset of each, computed by the
  constructor. A null source counts as empty.
\<close>

datatype 'a part = Part (p_src: "'a option") (p_start: nat) (p_len: nat)

fun concat_parts :: "('a \<Rightarrow> nat) \<Rightarrow> nat \<Rightarrow> 'a option list \<Rightarrow> 'a part list \<times> nat" where
  "concat_parts sz tot [] = ([], tot)"
| "concat_parts sz tot (s # ss) =
     (let len = (case s of None \<Rightarrow> 0 | Some x \<Rightarrow> sz x);
          (ps, t) = concat_parts sz (u64 (tot + len)) ss
      in (Part s tot len # ps, t))"

text \<open>The binary search for the part that covers \<open>pos\<close>.\<close>

function part_at :: "'a part list \<Rightarrow> nat \<Rightarrow> nat \<Rightarrow> nat \<Rightarrow> nat" where
  "part_at parts pos lo hi =
     (if lo + 1 < hi then
        let mid = (lo + hi) div 2
        in if p_start (parts ! mid) \<le> pos then part_at parts pos mid hi
           else part_at parts pos lo mid
      else lo)"
  by pat_completeness auto
termination
  by (relation "measure (\<lambda>(parts, pos, lo, hi). hi - lo)") auto

declare part_at.simps [simp del]

function concat_loop :: "reader part list \<Rightarrow> nat \<Rightarrow> nat \<Rightarrow> nat \<Rightarrow> bytes \<Rightarrow> bytes res" where
  "concat_loop parts tot n off acc =
     (let done = length acc in
      if done < n \<and> u64 (off + done) < tot then
        let pos = u64 (off + done);
            pt = parts ! part_at parts pos 0 (length parts)
        in if p_len pt = 0 \<or> pos \<ge> u64 (p_start pt + p_len pt) then Inr acc
           else let local = sub64 pos (p_start pt);
                    want = n - done;
                    avail = sub64 (p_len pt) local;
                    want = (if want > avail then avail else want)
                in (case the (p_src pt) want local of
                      Inl e \<Rightarrow> (if e \<noteq> NoReturn \<and> done > 0 then Inr acc else Inl e)
                    | Inr [] \<Rightarrow> Inr acc
                    | Inr (b # bs) \<Rightarrow> concat_loop parts tot n off (acc @ b # bs))
      else Inr acc)"
  by pat_completeness auto
termination
  by (relation "measure (\<lambda>(parts, tot, n, off, acc). n - length acc)") auto

declare concat_loop.simps [simp del]

definition concat_pread :: "reader part list \<Rightarrow> nat \<Rightarrow> reader" where
  "concat_pread parts tot n off =
     (if off \<ge> tot then Inr [] else concat_loop parts tot n off [])"

section \<open>The contract\<close>

text \<open>
  What the header promises of every source with content \<open>c\<close>: a read never fails, returns a
  piece of the content at the offset, at most as long as asked, and is empty only when
  nothing was asked or the offset is at the end. \<open>exact_source\<close> is the stronger contract of
  a source that never reads short before the end.
\<close>

definition clip :: "bytes \<Rightarrow> nat \<Rightarrow> nat \<Rightarrow> bytes" where
  "clip c n off = take n (drop off c)"

lemma clip_self: "clip c (length (clip c k off)) off = clip c k off"
  by (simp add: clip_def min_def)

lemma clip_append: "clip c a off @ clip c k (off + a) = clip c (a + k) off"
  unfolding clip_def by (rule take_drop_append_take)

lemma length_clip [simp]: "off + n \<le> length c \<Longrightarrow> length (clip c n off) = n"
  by (simp add: clip_def)

lemma clip_extend:
  assumes "acc = clip c (length acc) off"
  shows "acc @ clip c k (off + length acc) =
    clip c (length (acc @ clip c k (off + length acc))) off"
proof -
  have "acc @ clip c k (off + length acc) = clip c (length acc + k) off"
    by (subst assms) (rule clip_append)
  then show ?thesis by (simp only: clip_self)
qed

locale byte_source =
  fixes rd :: reader and c :: bytes
  assumes bounded: "length c < W64"
    and prefix_read: "off < W64 \<Longrightarrow> \<exists>k \<le> n. rd n off = Inr (clip c k off) \<and>
      (0 < n \<longrightarrow> off < length c \<longrightarrow> 0 < k)"
begin

lemma preadAll_loop_ok:
  assumes "off + n \<le> length c" and "length acc \<le> n" and "acc = clip c (length acc) off"
  shows "preadAll_loop rd n off acc = Inr (Some (clip c n off))"
  using assms
proof (induction "n - length acc" arbitrary: acc rule: less_induct)
  case less
  show ?case
  proof (cases "length acc < n")
    case False
    with less.prems have "acc = clip c n off" "length acc = n" by auto
    then show ?thesis by (subst preadAll_loop.simps) simp
  next
    case True
    let ?o = "off + length acc"
    from True less.prems(1) bounded have o: "?o < W64" "?o < length c" by linarith+
    with prefix_read [of ?o "n - length acc"] True obtain k where
      k: "k \<le> n - length acc" "0 < k" "rd (n - length acc) ?o = Inr (clip c k ?o)"
      by auto
    from k(2) o(2) have ne: "clip c k ?o \<noteq> []" by (simp add: clip_def)
    then obtain b bs where bbs: "clip c k ?o = b # bs" by (cases "clip c k ?o") auto
    have len: "length (acc @ b # bs) = length acc + k"
      using k(1) True less.prems(1) by (simp add: bbs [symmetric] clip_def)
    have acc': "acc @ b # bs = clip c (length (acc @ b # bs)) off"
      using clip_extend [OF less.prems(3), of k] by (simp only: bbs)
    have "preadAll_loop rd n off (acc @ b # bs) = Inr (Some (clip c n off))"
    proof (rule less.hyps)
      show "n - length (acc @ b # bs) < n - length acc" using True by simp
      show "off + n \<le> length c" by (rule less.prems(1))
      show "length (acc @ b # bs) \<le> n" using len k(1) True by linarith
      show "acc @ b # bs = clip c (length (acc @ b # bs)) off" by (rule acc')
    qed
    with True o(1) k(3) bbs show ?thesis
      by (simp add: preadAll_loop.simps [of rd n off acc])
  qed
qed

text \<open>Reading a range that lies inside the stream fills the buffer with exactly that range.\<close>

lemma preadAll_ok: "off + n \<le> length c \<Longrightarrow> preadAll rd n off = Inr (Some (clip c n off))"
  unfolding preadAll_def by (rule preadAll_loop_ok) (auto simp: clip_def)

lemma preadAll_loop_sound:
  assumes "off + n < W64" and "length acc \<le> n" and "acc = clip c (length acc) off"
    and "preadAll_loop rd n off acc = Inr (Some b)"
  shows "b = clip c n off \<and> length b = n"
  using assms
proof (induction "n - length acc" arbitrary: acc rule: less_induct)
  case less
  show ?case
  proof (cases "length acc < n")
    case False
    with less.prems have "acc = clip c n off" "length acc = n" by auto
    moreover from False less.prems(4) have "b = acc"
      by (simp add: preadAll_loop.simps [of rd n off acc])
    ultimately show ?thesis by simp
  next
    case True
    let ?o = "off + length acc"
    from True less.prems(1) have o: "?o < W64" by linarith
    with prefix_read [of ?o "n - length acc"] obtain k where
      k: "k \<le> n - length acc" "rd (n - length acc) ?o = Inr (clip c k ?o)"
      by auto
    show ?thesis
    proof (cases "clip c k ?o")
      case Nil
      with True k o less.prems(4) show ?thesis
        by (simp add: preadAll_loop.simps [of rd n off acc])
    next
      case (Cons x xs)
      have lx: "length (x # xs) \<le> n - length acc"
        using k(1) by (simp add: Cons [symmetric] clip_def)
      have acc': "acc @ x # xs = clip c (length (acc @ x # xs)) off"
        using clip_extend [OF less.prems(3), of k] by (simp only: Cons)
      have "preadAll_loop rd n off (acc @ x # xs) = Inr (Some b)"
        using True k o Cons less.prems(4) by (simp add: preadAll_loop.simps [of rd n off acc])
      moreover have "n - length (acc @ x # xs) < n - length acc" "length (acc @ x # xs) \<le> n"
        using True lx by simp_all
      ultimately show ?thesis
        using less.hyps less.prems(1) acc' by blast
    qed
  qed
qed

text \<open>And a \<open>true\<close> result always means that the buffer holds exactly the range asked for.\<close>

lemma preadAll_sound:
  "preadAll rd n off = Inr (Some b) \<Longrightarrow> off + n < W64 \<Longrightarrow> b = clip c n off \<and> length b = n"
  unfolding preadAll_def by (rule preadAll_loop_sound [of off n "[]"]) (auto simp: clip_def)

end

locale exact_source =
  fixes rd :: reader and c :: bytes
  assumes small: "length c < W64"
    and exact_read: "off < W64 \<Longrightarrow> rd n off = Inr (clip c n off)"

sublocale exact_source \<subseteq> byte_source
  by unfold_locales (use small exact_read in auto)

section \<open>The in-memory sources keep it\<close>

lemma mem_pread_clip: "mem_pread d n off = Inr (clip d n off)"
  by (simp add: mem_pread_def clip_def Let_def)

lemma mmap_pread_clip: "mmap_pread d n off = Inr (clip d n off)"
  by (simp add: mmap_pread_def clip_def Let_def)

text \<open>Every buffer a 64-bit address space can hold is an instance of the contract.\<close>

interpretation memory: exact_source "mem_pread (take (W64 - 1) d)" "take (W64 - 1) d" for d
  by unfold_locales (simp_all add: mem_pread_clip W64_pos min_less_iff_disj)

interpretation mapping: exact_source "mmap_pread (take (W64 - 1) d)" "take (W64 - 1) d" for d
  by unfold_locales (simp_all add: mmap_pread_clip W64_pos min_less_iff_disj)

lemma exact_mem: "length d < W64 \<Longrightarrow> exact_source (mem_pread d) d"
  using memory.exact_source_axioms [of d] by simp

lemma exact_mmap: "length d < W64 \<Longrightarrow> exact_source (mmap_pread d) d"
  using mapping.exact_source_axioms [of d] by simp

text \<open>
  The bytes a mount reads most are those of a fixed buffer of a known size: both in-memory
  classes are instances of the interface for every buffer below \<open>2 ^ 64\<close> bytes, so their
  clients get \<open>preadAll_ok\<close> and \<open>preadAll_sound\<close> by \<open>exact_source_imp\<close>.
\<close>

lemma exact_source_imp: "exact_source rd c \<Longrightarrow> byte_source rd c"
  by (simp add: exact_source_def byte_source_def) blast

section \<open>Concatenation keeps it\<close>

definition part_bytes :: "('a \<Rightarrow> bytes) \<Rightarrow> 'a option \<Rightarrow> bytes" where
  "part_bytes cont s = (case s of None \<Rightarrow> [] | Some x \<Rightarrow> cont x)"

definition concat_bytes :: "('a \<Rightarrow> bytes) \<Rightarrow> 'a option list \<Rightarrow> bytes" where
  "concat_bytes cont ss = concat (map (part_bytes cont) ss)"

lemma concat_bytes_Cons [simp]:
  "concat_bytes cont (s # ss) = part_bytes cont s @ concat_bytes cont ss"
  by (simp add: concat_bytes_def)

lemma concat_bytes_Nil [simp]: "concat_bytes cont [] = []"
  by (simp add: concat_bytes_def)

lemma concat_bytes_append: "concat_bytes cont (xs @ ys) = concat_bytes cont xs @ concat_bytes cont ys"
  by (simp add: concat_bytes_def)

lemma concat_parts_spec:
  assumes "\<forall>x. Some x \<in> set ss \<longrightarrow> sz x = length (cont x)"
    and "t0 + length (concat_bytes cont ss) < W64"
    and "concat_parts sz t0 ss = (ps, t)"
  shows "t = t0 + length (concat_bytes cont ss) \<and> length ps = length ss \<and>
    (\<forall>i < length ss. ps ! i = Part (ss ! i)
        (t0 + length (concat_bytes cont (take i ss))) (length (part_bytes cont (ss ! i))))"
  using assms
proof (induction ss arbitrary: t0 ps)
  case (Cons s ss)
  let ?len = "case s of None \<Rightarrow> 0 | Some x \<Rightarrow> sz x"
  have len: "?len = length (part_bytes cont s)"
    using Cons.prems(1) by (auto simp: part_bytes_def split: option.splits)
  have small: "t0 + ?len < W64" using Cons.prems(2) len by simp
  obtain qs where qs: "concat_parts sz (t0 + ?len) ss = (qs, t)"
    and ps: "ps = Part s t0 ?len # qs"
    using Cons.prems(3) small by (auto simp: Let_def split: prod.splits)
  have IH: "t = t0 + ?len + length (concat_bytes cont ss) \<and> length qs = length ss \<and>
    (\<forall>i < length ss. qs ! i = Part (ss ! i)
        (t0 + ?len + length (concat_bytes cont (take i ss))) (length (part_bytes cont (ss ! i))))"
    by (rule Cons.IH [OF _ _ qs]) (use Cons.prems len in auto)
  show ?case
  proof (intro conjI allI impI)
    fix i assume "i < length (s # ss)"
    then show "ps ! i = Part ((s # ss) ! i)
        (t0 + length (concat_bytes cont (take i (s # ss))))
        (length (part_bytes cont ((s # ss) ! i)))"
      using IH len by (cases i) (auto simp: ps)
  qed (use IH len ps in auto)
qed simp

lemma part_at_spec:
  assumes "p_start (parts ! lo) \<le> pos" and "lo < hi" and "hi \<le> length parts"
    and "hi = length parts \<or> pos < p_start (parts ! hi)"
  shows "let i = part_at parts pos lo hi in i < length parts \<and> p_start (parts ! i) \<le> pos \<and>
    (Suc i = length parts \<or> pos < p_start (parts ! Suc i))"
  using assms
proof (induction parts pos lo hi rule: part_at.induct)
  case (1 parts pos lo hi)
  show ?case
  proof (cases "lo + 1 < hi")
    case True
    let ?mid = "(lo + hi) div 2"
    from True have "lo < ?mid" "?mid < hi" by auto
    with True 1 show ?thesis
      by (subst part_at.simps) (auto simp: Let_def)
  next
    case False
    with "1.prems" have "hi = Suc lo" by simp
    with "1.prems" show ?thesis by (subst part_at.simps) (auto simp: Let_def)
  qed
qed

text \<open>
  The part found for a position inside the concatenation holds it: its slice at the local
  offset is the concatenation's slice at the position.
\<close>

lemma part_at_covers:
  assumes sz: "\<forall>x. Some x \<in> set ss \<longrightarrow> sz x = length (cont x)"
    and small: "length (concat_bytes cont ss) < W64"
    and parts: "concat_parts sz 0 ss = (ps, t)"
    and pos: "pos < length (concat_bytes cont ss)"
  obtains i where "part_at ps pos 0 (length ps) = i" "i < length ss"
    "ps ! i = Part (ss ! i) (length (concat_bytes cont (take i ss)))
        (length (part_bytes cont (ss ! i)))"
    "length (concat_bytes cont (take i ss)) \<le> pos"
    "pos < length (concat_bytes cont (take i ss)) + length (part_bytes cont (ss ! i))"
proof -
  note spec = concat_parts_spec [OF sz _ parts, simplified, OF small]
  from spec have len: "length ps = length ss" by simp
  from pos have ne: "ss \<noteq> []" by auto
  let ?i = "part_at ps pos 0 (length ps)"
  have "p_start (ps ! 0) \<le> pos" using spec ne by simp
  with part_at_spec [of ps 0 pos "length ps"] ne len
  have i: "?i < length ps" "p_start (ps ! ?i) \<le> pos"
    "Suc ?i = length ps \<or> pos < p_start (ps ! Suc ?i)"
    by (auto simp: Let_def)
  have pi: "ps ! ?i = Part (ss ! ?i) (length (concat_bytes cont (take ?i ss)))
        (length (part_bytes cont (ss ! ?i)))"
    using spec i(1) len by simp
  have "length (concat_bytes cont (take (Suc ?i) ss)) =
      length (concat_bytes cont (take ?i ss)) + length (part_bytes cont (ss ! ?i))"
    using i(1) len by (simp add: take_Suc_conv_app_nth concat_bytes_append)
  moreover have "pos < length (concat_bytes cont (take (Suc ?i) ss))"
  proof (cases "Suc ?i = length ps")
    case True
    then show ?thesis using pos len by simp
  next
    case False
    then show ?thesis using i spec len by auto
  qed
  ultimately show ?thesis
    using that [of ?i] i pi len by simp
qed

lemma concat_bytes_slice:
  assumes "i < length ss"
    and "length (concat_bytes cont (take i ss)) \<le> pos"
    and "pos - length (concat_bytes cont (take i ss)) + k \<le> length (part_bytes cont (ss ! i))"
  shows "clip (part_bytes cont (ss ! i)) k (pos - length (concat_bytes cont (take i ss))) =
    clip (concat_bytes cont ss) k pos"
proof -
  have "concat_bytes cont ss = concat_bytes cont (take i ss) @ part_bytes cont (ss ! i) @
      concat_bytes cont (drop (Suc i) ss)"
    using assms(1) by (metis append_take_drop_id concat_bytes_Cons concat_bytes_append Cons_nth_drop_Suc)
  then show ?thesis
    using assms(2,3) by (simp add: clip_def)
qed

text \<open>A concatenation of sources is read through the parts' own \<^verbatim>\<open>pread\<close>.\<close>

abbreviation reader_parts :: "('a \<Rightarrow> reader) \<Rightarrow> 'a part list \<Rightarrow> reader part list" where
  "reader_parts rd \<equiv> map (map_part rd)"

lemma part_at_reader_parts: "part_at (reader_parts rd ps) pos lo hi = part_at ps pos lo hi"
  if "hi \<le> length ps"
  using that
proof (induction "reader_parts rd ps" pos lo hi rule: part_at.induct)
  case (1 pos lo hi)
  then show ?case
    by (subst part_at.simps, subst (2) part_at.simps) (auto simp: Let_def part.map_sel)
qed

lemma concat_loop_exact:
  assumes src: "\<forall>x. Some x \<in> set ss \<longrightarrow> byte_source (rd x) (cont x)"
    and sz: "\<forall>x. Some x \<in> set ss \<longrightarrow> sz x = length (cont x)"
    and small: "length (concat_bytes cont ss) < W64"
    and parts: "concat_parts sz 0 ss = (ps, t)"
    and "off < W64" and "acc = clip (concat_bytes cont ss) (length acc) off" and "length acc \<le> n"
  shows "concat_loop (reader_parts rd ps) t n off acc = Inr (clip (concat_bytes cont ss) n off)"
  using assms(5-)
proof (induction "n - length acc" arbitrary: acc rule: less_induct)
  case less
  let ?C = "concat_bytes cont ss"
  have t: "t = length ?C" and len: "length ps = length ss"
    using concat_parts_spec [OF sz _ parts] small by simp_all
  have le: "length acc \<le> length ?C - off" using less.prems(2) by (metis clip_def length_drop length_take min.cobounded1)
  show ?case
  proof (cases "length acc < n \<and> off + length acc < length ?C")
    case False
    have "clip ?C n off = acc"
    proof (cases "length acc < n")
      case True
      with False have "length ?C \<le> off + length acc" by simp
      then show ?thesis using less.prems(2) True by (simp add: clip_def)
    qed (use less.prems in auto)
    moreover have "u64 (off + length acc) = off + length acc"
    proof (cases "off \<le> length ?C")
      case True
      then show ?thesis using le small by (intro u64_id) linarith
    qed (use le less.prems(1) in auto)
    ultimately show ?thesis using False t
      by (subst concat_loop.simps) (auto simp: Let_def)
  next
    case True
    let ?pos = "off + length acc"
    have p64 [simp]: "u64 ?pos = ?pos" using True small by simp
    from True obtain i where i: "part_at ps ?pos 0 (length ps) = i" "i < length ss"
      "ps ! i = Part (ss ! i) (length (concat_bytes cont (take i ss)))
        (length (part_bytes cont (ss ! i)))"
      "length (concat_bytes cont (take i ss)) \<le> ?pos"
      "?pos < length (concat_bytes cont (take i ss)) + length (part_bytes cont (ss ! i))"
      using part_at_covers [OF sz small parts] by blast
    let ?st = "length (concat_bytes cont (take i ss))" and ?pb = "part_bytes cont (ss ! i)"
    have whole: "?C = concat_bytes cont (take i ss) @ ?pb @ concat_bytes cont (drop (Suc i) ss)"
      using i(2) by (metis append_take_drop_id concat_bytes_Cons concat_bytes_append Cons_nth_drop_Suc)
    then have fits: "?st + length ?pb \<le> length ?C" by simp
    from i(4,5) have "?pb \<noteq> []" by auto
    then obtain x where x: "ss ! i = Some x" "?pb = cont x"
      by (auto simp: part_bytes_def split: option.splits)
    with i(2) have "byte_source (rd x) (cont x)" using src by (metis nth_mem)
    let ?loc = "?pos - ?st"
    let ?want = "if n - length acc > length ?pb - ?loc then length ?pb - ?loc else n - length acc"
    have loc: "?loc < length ?pb" using i(4,5) by linarith
    have want: "0 < ?want" "?want \<le> length ?pb - ?loc" "?want \<le> n - length acc"
      using True loc by auto
    obtain k where k: "k \<le> ?want" "rd x ?want ?loc = Inr (clip (cont x) k ?loc)" "0 < k"
      using byte_source.prefix_read [OF \<open>byte_source (rd x) (cont x)\<close>, of ?loc ?want] want loc x(2)
        fits small by auto
    have kb: "?loc + k \<le> length ?pb" using k(1) want(2) loc by linarith
    have slice: "clip (cont x) k ?loc = clip ?C k ?pos"
      using concat_bytes_slice [OF i(2) i(4) kb] by (simp only: x(2))
    have lk: "length (clip ?C k ?pos) = k"
      unfolding slice [symmetric] using kb x(2) by (simp add: clip_def)
    then obtain b bs where bbs: "clip ?C k ?pos = b # bs" using k(3) by (cases "clip ?C k ?pos") auto
    have ih: "concat_loop (reader_parts rd ps) t n off (acc @ b # bs) = Inr (clip ?C n off)"
    proof (rule less.hyps)
      have l: "length (acc @ b # bs) = length acc + k" using lk by (simp add: bbs [symmetric])
      show "n - length (acc @ b # bs) < n - length acc" unfolding l using k(3) True by linarith
      show "off < W64" by (rule less.prems(1))
      show "length (acc @ b # bs) \<le> n" unfolding l using k(1) want(3) True by linarith
      show "acc @ b # bs = clip ?C (length (acc @ b # bs)) off"
        using clip_extend [OF less.prems(2), of k] by (simp only: bbs)
    qed
    have pt: "reader_parts rd ps ! part_at (reader_parts rd ps) ?pos 0 (length ps) =
        Part (Some (rd x)) ?st (length ?pb)"
      using i(1-3) len x(1) by (simp add: part_at_reader_parts)
    have l: "length (reader_parts rd ps) = length ps" by simp
    have nums: "u64 (?st + length ?pb) = ?st + length ?pb" "sub64 ?pos ?st = ?loc"
      "sub64 (length ?pb) ?loc = length ?pb - ?loc"
      using fits small i(4) loc True by (auto intro!: sub64_eq)
    show ?thesis
      using True i(5) \<open>?pb \<noteq> []\<close> k(2) slice bbs ih t
      by (subst concat_loop.simps) (simp add: Let_def l pt nums split del: if_split cong: if_cong)
  qed
qed

lemma concat_exact:
  assumes "\<forall>x. Some x \<in> set ss \<longrightarrow> byte_source (rd x) (cont x)"
    and "\<forall>x. Some x \<in> set ss \<longrightarrow> sz x = length (cont x)"
    and "length (concat_bytes cont ss) < W64"
    and "concat_parts sz 0 ss = (ps, t)"
  shows "exact_source (concat_pread (reader_parts rd ps) t) (concat_bytes cont ss)"
proof
  fix n off assume "off < W64"
  then have "concat_loop (reader_parts rd ps) t n off [] = Inr (clip (concat_bytes cont ss) n off)"
    using concat_loop_exact [OF assms, of off "[]" n] by (simp add: clip_def)
  moreover have "t = length (concat_bytes cont ss)"
    using concat_parts_spec [OF assms(2) _ assms(4)] assms(3) by simp
  ultimately show "concat_pread (reader_parts rd ps) t n off = Inr (clip (concat_bytes cont ss) n off)"
    by (simp add: concat_pread_def clip_def)
qed (use assms in simp)

end
