(* ===== verification/DeltaFormat.thy ===== *)
theory DeltaFormat
  imports ByteSource
begin

text \<open>
  The \<^verbatim>\<open>.vgdelta\<close> file format of \<^verbatim>\<open>vgdelta.h\<close> and \<^verbatim>\<open>vgdelta.cpp\<close>: the header, the
  segment table and the block index, as \<^verbatim>\<open>ParseDelta\<close> reads them and as the tail of
  \<^verbatim>\<open>GenerateDelta\<close> writes them, with the round trip between the two. zstd is not part of
  the program: it is the parameter \<open>Z\<close>, of which only the documented round trip
  \<open>zstd_ok\<close> is used.
\<close>

section \<open>zstd\<close>

text \<open>
  \<open>zstd_compress Z p level\<close> and \<open>zstd_decompress Z c capacity\<close>; \<open>None\<close> is an error
  code (\<^verbatim>\<open>ZSTD_isError\<close>).
\<close>

record zstd =
  zstd_compress :: "bytes \<Rightarrow> nat \<Rightarrow> bytes option"
  zstd_decompress :: "bytes \<Rightarrow> nat \<Rightarrow> bytes option"

definition ZCompress :: "zstd \<Rightarrow> bytes \<Rightarrow> nat \<Rightarrow> bytes" where
  "ZCompress Z p level = (case zstd_compress Z p level of None \<Rightarrow> [] | Some r \<Rightarrow> r)"

definition ZDecompress :: "zstd \<Rightarrow> bytes \<Rightarrow> nat \<Rightarrow> bytes" where
  "ZDecompress Z p ulen =
     (case zstd_decompress Z p ulen of
        None \<Rightarrow> []
      | Some r \<Rightarrow> if length r \<noteq> ulen then [] else r)"

text \<open>
  The documented behaviour the code relies on: compressing into a buffer of
  \<^verbatim>\<open>ZSTD_compressBound\<close> bytes succeeds, the frame is no longer than that bound (at most
  the input, a 256th of it and 64 bytes), and decompressing a frame into a buffer of the
  original size gives the original back.
\<close>

definition zstd_ok :: "zstd \<Rightarrow> bool" where
  "zstd_ok Z \<longleftrightarrow> (\<forall>p level. \<exists>c. zstd_compress Z p level = Some c \<and>
     zstd_decompress Z c (length p) = Some p \<and> length c \<le> length p + length p div 256 + 64)"

text \<open>A compressor that frames its input with one byte satisfies what is asked of zstd.\<close>

definition frame_zstd :: zstd where
  "frame_zstd = \<lparr>zstd_compress = (\<lambda>p level. Some (0x28 # p)),
     zstd_decompress = (\<lambda>c n. if c \<noteq> [] \<and> hd c = 0x28 \<and> length (List.tl c) \<le> n then Some (List.tl c) else None)\<rparr>"

lemma frame_zstd_ok: "zstd_ok frame_zstd"
  by (simp add: zstd_ok_def frame_zstd_def)

section \<open>Constants and records\<close>

definition MAGIC :: bytes where "MAGIC = [0x56, 0x47, 0x44, 0x31]"
lemma length_MAGIC [simp]: "length MAGIC = 4"
  by (simp add: MAGIC_def)

definition VERSION :: "32 word" where "VERSION = 1"
definition DEFAULT_BLOCK :: nat where "DEFAULT_BLOCK = 262144"
definition KIND_COPY :: byte where "KIND_COPY = 0"
definition KIND_ADD :: byte where "KIND_ADD = 1"
definition HEADER_SIZE :: nat where "HEADER_SIZE = 4 + 4 + 4 + 8 + 8 + 8 + 4 + 4"

record block_rec =
  compOff :: nat
  compLen :: nat
  uncompLen :: nat

record raw_seg =
  rs_kind :: byte
  rs_len :: nat
  rs_srcOff :: nat

text \<open>\<^verbatim>\<open>Parsed\<close>; its \<^verbatim>\<open>AddSource\<close> is kept as the three fields read from the file.\<close>

record parsed =
  targetSize :: nat
  baseSize :: nat
  baseHash :: "64 word"
  segs :: "raw_seg list"
  add_regionOff :: nat
  add_blockSize :: nat
  add_blocks :: "block_rec list"

text \<open>The error string, or a read that never returns.\<close>

datatype perr = Err string | Stuck

definition rdall :: "reader \<Rightarrow> nat \<Rightarrow> nat \<Rightarrow> string \<Rightarrow> perr + bytes" where
  "rdall rd n off msg =
     (case preadAll rd n off of
        Inl _ \<Rightarrow> Inl Stuck
      | Inr None \<Rightarrow> Inl (Err msg)
      | Inr (Some b) \<Rightarrow> Inr b)"

section \<open>ParseDelta\<close>

text \<open>
  Both tables are stored alike: two 64-bit lengths, then the compressed records. The four
  messages are those of the table at hand. The result is the decompressed table and the
  compressed length.
\<close>

definition read_table ::
  "zstd \<Rightarrow> reader \<Rightarrow> nat \<Rightarrow> nat \<Rightarrow> string \<Rightarrow> string \<Rightarrow> string \<Rightarrow> string \<Rightarrow> perr + (bytes \<times> nat)" where
  "read_table Z rd off want short_lens mismatch short_table corrupt =
     bindE (rdall rd 16 off short_lens) (\<lambda>lens.
       let clen = unat (rd64 lens); ulen = unat (rd64 (drop 8 lens)) in
       if ulen \<noteq> want then Inl (Err mismatch)
       else bindE (if clen \<noteq> 0 then rdall rd clen (u64 (off + 16)) short_table else Inr []) (\<lambda>comp.
         let raw = ZDecompress Z comp ulen in
         if length raw \<noteq> ulen then Inl (Err corrupt) else Inr (raw, clen)))"

definition dec_seg :: "bytes \<Rightarrow> raw_seg" where
  "dec_seg r = \<lparr>rs_kind = r ! 0, rs_len = unat (rd64 (drop 1 r)), rs_srcOff = unat (rd64 (drop 9 r))\<rparr>"

definition dec_block :: "bytes \<Rightarrow> block_rec" where
  "dec_block r = \<lparr>compOff = unat (rd64 r), compLen = unat (rd32 (drop 8 r)),
     uncompLen = unat (rd32 (drop 12 r))\<rparr>"

definition ParseDelta :: "zstd \<Rightarrow> reader \<Rightarrow> perr + parsed" where
  "ParseDelta Z rd =
     bindE (rdall rd HEADER_SIZE 0 ''vgdelta: short header'') (\<lambda>hdr.
       if take 4 hdr \<noteq> MAGIC then Inl (Err ''vgdelta: bad magic'')
       else if rd32 (drop 4 hdr) \<noteq> VERSION then Inl (Err ''vgdelta: unsupported version'')
       else
         let blockSize = unat (rd32 (drop 8 hdr));
             tsize = unat (rd64 (drop 12 hdr));
             bsize = unat (rd64 (drop 20 hdr));
             bhash = rd64 (drop 28 hdr);
             numSeg = unat (rd32 (drop 36 hdr));
             numBlk = unat (rd32 (drop 40 hdr)) in
         if blockSize = 0 then Inl (Err ''vgdelta: zero block size'')
         else
           bindE (read_table Z rd HEADER_SIZE (numSeg * 17) ''vgdelta: short seg lens''
               ''vgdelta: seg table size mismatch'' ''vgdelta: short seg table''
               ''vgdelta: seg table corrupt'') (\<lambda>(raw, clen).
             let ss = map (\<lambda>i. dec_seg (drop (i * 17) raw)) [0..<numSeg];
                 tpos = fold (\<lambda>s t. u64 (t + rs_len s)) ss 0 in
             if tpos \<noteq> tsize then Inl (Err ''vgdelta: segments do not cover target'')
             else
               let off = u64 (HEADER_SIZE + 16 + clen) in
               bindE (read_table Z rd off (numBlk * 16) ''vgdelta: short blk lens''
                   ''vgdelta: blk index size mismatch'' ''vgdelta: short blk index''
                   ''vgdelta: blk index corrupt'') (\<lambda>(raw, clen).
                 Inr \<lparr>targetSize = tsize, baseSize = bsize, baseHash = bhash, segs = ss,
                   add_regionOff = u64 (off + 16 + clen), add_blockSize = blockSize,
                   add_blocks = map (\<lambda>i. dec_block (drop (i * 16) raw)) [0..<numBlk]\<rparr>)))"

section \<open>The writer\<close>

text \<open>The serialising tail of \<^verbatim>\<open>GenerateDelta\<close>, on the segments, the blocks and the ADD region.\<close>

definition enc_seg :: "raw_seg \<Rightarrow> bytes" where
  "enc_seg s = put64 (put64 [rs_kind s] (of_nat (rs_len s))) (of_nat (rs_srcOff s))"

definition enc_block :: "block_rec \<Rightarrow> bytes" where
  "enc_block b = put32 (put32 (put64 [] (of_nat (compOff b))) (of_nat (compLen b))) (of_nat (uncompLen b))"

definition serialize ::
  "zstd \<Rightarrow> nat \<Rightarrow> nat \<Rightarrow> nat \<Rightarrow> 64 word \<Rightarrow> raw_seg list \<Rightarrow> block_rec list \<Rightarrow> bytes \<Rightarrow> bytes" where
  "serialize Z blockSize targetLen baseLen hash ss blks region =
     (let segRaw = concat (map enc_seg ss);
          segComp = ZCompress Z segRaw 19;
          blkRaw = concat (map enc_block blks);
          blkComp = ZCompress Z blkRaw 19;
          out = MAGIC;
          out = put32 out VERSION;
          out = put32 out (of_nat blockSize);
          out = put64 out (of_nat targetLen);
          out = put64 out (of_nat baseLen);
          out = put64 out hash;
          out = put32 out (of_nat (length ss));
          out = put32 out (of_nat (length blks));
          out = put64 (put64 out (of_nat (length segComp))) (of_nat (length segRaw));
          out = out @ segComp;
          out = put64 (put64 out (of_nat (length blkComp))) (of_nat (length blkRaw));
          out = out @ blkComp
      in out @ region)"

section \<open>What is written is read back\<close>

lemma rdall_ok: "byte_source rd c \<Longrightarrow> off + n \<le> length c \<Longrightarrow> rdall rd n off msg = Inr (clip c n off)"
  by (simp add: rdall_def byte_source.preadAll_ok)

lemma rdall_at:
  "byte_source rd c \<Longrightarrow> c = pre @ x @ post \<Longrightarrow> length pre = off \<Longrightarrow> length x = n \<Longrightarrow>
    rdall rd n off msg = Inr x"
  by (simp add: rdall_ok clip_def)

lemma ZDecompress_ZCompress: "zstd_ok Z \<Longrightarrow> ZDecompress Z (ZCompress Z p level) (length p) = p"
proof -
  assume "zstd_ok Z"
  then obtain c where "zstd_compress Z p level = Some c" "zstd_decompress Z c (length p) = Some p"
    by (auto simp: zstd_ok_def)
  then show ?thesis by (simp add: ZCompress_def ZDecompress_def)
qed

lemma length_ZCompress:
  "zstd_ok Z \<Longrightarrow> length (ZCompress Z p level) \<le> length p + length p div 256 + 64"
  unfolding zstd_ok_def ZCompress_def
  by (metis option.simps(5))

lemma read_table_at:
  assumes src: "byte_source rd c"
    and c: "c = pre @ put64 [] (of_nat (length cmp)) @ put64 [] (of_nat (length raw)) @ cmp @ post"
    and dec: "ZDecompress Z cmp (length raw) = raw"
    and small: "length raw < W64"
  shows "read_table Z rd (length pre) (length raw) e1 e2 e3 e4 = Inr (raw, length cmp)"
proof -
  have lc: "length c < W64" using src by (simp add: byte_source_def)
  then have sizes: "length pre + 16 + length cmp < W64" "length cmp < W64" using c by simp_all
  have lens: "rdall rd 16 (length pre) e1 =
      Inr (put64 [] (of_nat (length cmp)) @ put64 [] (of_nat (length raw)))"
    by (rule rdall_at [OF src]) (simp_all add: c)
  have body: "rdall rd (length cmp) (length pre + 16) e3 = Inr cmp"
    by (rule rdall_at [OF src, where pre = "pre @ put64 [] (of_nat (length cmp)) @ put64 [] (of_nat (length raw))"])
      (simp_all add: c)
  show ?thesis
    unfolding read_table_def lens using sizes small dec body
    by (cases "cmp = []") (simp_all add: Let_def)
qed

definition seg_fits :: "raw_seg \<Rightarrow> bool" where
  "seg_fits s \<longleftrightarrow> rs_len s < W64 \<and> rs_srcOff s < W64"

definition block_fits :: "block_rec \<Rightarrow> bool" where
  "block_fits b \<longleftrightarrow> compOff b < W64 \<and> compLen b < 2 ^ 32 \<and> uncompLen b < 2 ^ 32"

lemma length_enc_seg [simp]: "length (enc_seg s) = 17"
  by (simp add: enc_seg_def)

lemma length_enc_block [simp]: "length (enc_block b) = 16"
  by (simp add: enc_block_def)

lemma enc_seg_eq:
  "enc_seg s = rs_kind s # put64 [] (of_nat (rs_len s)) @ put64 [] (of_nat (rs_srcOff s))"
  by (simp add: enc_seg_def put64_def)

lemma enc_block_eq:
  "enc_block b = put64 [] (of_nat (compOff b)) @ put32 [] (of_nat (compLen b)) @
    put32 [] (of_nat (uncompLen b))"
  by (simp add: enc_block_def put64_def put32_def)

lemma dec_enc_seg: "seg_fits s \<Longrightarrow> dec_seg (enc_seg s @ ys) = s"
  by (simp add: dec_seg_def enc_seg_eq seg_fits_def)

lemma dec_enc_block: "block_fits b \<Longrightarrow> dec_block (enc_block b @ ys) = b"
  by (simp add: dec_block_def enc_block_eq block_fits_def)

lemma dec_segs:
  assumes "\<forall>s \<in> set ss. seg_fits s"
  shows "map (\<lambda>i. dec_seg (drop (i * 17) (concat (map enc_seg ss)))) [0..<length ss] = ss"
proof (rule map_nth_list)
  fix i assume i: "i < length ss"
  have "drop (i * 17) (concat (map enc_seg ss)) = enc_seg (ss ! i) @ concat (map enc_seg (drop (Suc i) ss))"
    using i by (subst drop_concat_fixed) (simp_all add: Cons_nth_drop_Suc [symmetric])
  with assms i show "dec_seg (drop (i * 17) (concat (map enc_seg ss))) = ss ! i"
    by (simp add: dec_enc_seg)
qed simp

lemma dec_blocks:
  assumes "\<forall>b \<in> set bs. block_fits b"
  shows "map (\<lambda>i. dec_block (drop (i * 16) (concat (map enc_block bs)))) [0..<length bs] = bs"
proof (rule map_nth_list)
  fix i assume i: "i < length bs"
  have "drop (i * 16) (concat (map enc_block bs)) = enc_block (bs ! i) @ concat (map enc_block (drop (Suc i) bs))"
    using i by (subst drop_concat_fixed) (simp_all add: Cons_nth_drop_Suc [symmetric])
  with assms i show "dec_block (drop (i * 16) (concat (map enc_block bs))) = bs ! i"
    by (simp add: dec_enc_block)
qed simp

text \<open>The running sum of the segment lengths, which the parser computes modulo \<open>2 ^ 64\<close>.\<close>

lemma fold_u64_sum:
  "t + sum_list (map f xs) < W64 \<Longrightarrow> fold (\<lambda>s t. u64 (t + f s)) xs t = t + sum_list (map f xs)"
  by (induction xs arbitrary: t) auto

abbreviation header :: "nat \<Rightarrow> nat \<Rightarrow> nat \<Rightarrow> 64 word \<Rightarrow> nat \<Rightarrow> nat \<Rightarrow> bytes" where
  "header bsz tlen blen h ns nb \<equiv> MAGIC @ put32 [] VERSION @ put32 [] (of_nat bsz) @ put64 [] (of_nat tlen) @
     put64 [] (of_nat blen) @ put64 [] h @ put32 [] (of_nat ns) @ put32 [] (of_nat nb)"

lemma serialize_layout:
  "serialize Z bsz tlen blen h ss blks region =
    (let sr = concat (map enc_seg ss); sc = ZCompress Z sr 19;
         br = concat (map enc_block blks); bc = ZCompress Z br 19
     in header bsz tlen blen h (length ss) (length blks) @
        put64 [] (of_nat (length sc)) @ put64 [] (of_nat (length sr)) @ sc @
        put64 [] (of_nat (length bc)) @ put64 [] (of_nat (length br)) @ bc @ region)"
  by (simp add: serialize_def Let_def put64_def put32_def)

text \<open>
  The round trip: a file written with these fields parses to exactly them, whatever source
  serves its bytes, as long as every count fits the field that stores it.
\<close>

lemma ParseDelta_serialize:
  assumes Z: "zstd_ok Z"
    and src: "byte_source rd (serialize Z bsz tlen blen h ss blks region)"
    and bsz: "0 < bsz" "bsz < 2 ^ 32" and lens: "tlen < W64" "blen < W64"
    and counts: "length ss < 2 ^ 32" "length blks < 2 ^ 32"
    and fits: "\<forall>s \<in> set ss. seg_fits s" "\<forall>b \<in> set blks. block_fits b"
    and covers: "sum_list (map rs_len ss) = tlen"
  shows "ParseDelta Z rd = Inr \<lparr>targetSize = tlen, baseSize = blen, baseHash = h, segs = ss,
    add_regionOff = length (serialize Z bsz tlen blen h ss blks []),
    add_blockSize = bsz, add_blocks = blks\<rparr>"
proof -
  define sr where "sr = concat (map enc_seg ss)"
  define sc where "sc = ZCompress Z sr 19"
  define br where "br = concat (map enc_block blks)"
  define bc where "bc = ZCompress Z br 19"
  let ?H = "header bsz tlen blen h (length ss) (length blks)"
  let ?S = "put64 [] (of_nat (length sc)) @ put64 [] (of_nat (length sr)) @ sc"
  let ?B = "put64 [] (of_nat (length bc)) @ put64 [] (of_nat (length br)) @ bc"
  let ?F = "serialize Z bsz tlen blen h ss blks region"
  have F: "?F = ?H @ ?S @ ?B @ region"
    by (simp add: serialize_layout Let_def sr_def sc_def br_def bc_def)
  have H: "length ?H = 44" by (simp add: MAGIC_def)
  have lF: "length ?F < W64" using src by (simp add: byte_source_def)
  have sr: "length sr = length ss * 17" and br: "length br = length blks * 16"
    by (simp_all add: sr_def br_def length_concat_fixed)
  have small: "length sr < W64" "length br < W64"
    using counts by (simp_all add: sr br W64_def)
  have off: "u64 (HEADER_SIZE + 16 + length sc) = 60 + length sc"
    "u64 (76 + length sc + length bc) = length (serialize Z bsz tlen blen h ss blks [])"
    using lF F H
    by (simp_all add: HEADER_SIZE_def serialize_layout Let_def sr_def sc_def br_def bc_def)
  have hdr: "rdall rd HEADER_SIZE 0 e = Inr ?H" for e
    by (rule rdall_at [OF src, where pre = "[]"]) (simp_all add: F H HEADER_SIZE_def)
  have tab1: "read_table Z rd HEADER_SIZE (length ss * 17) e1 e2 e3 e4 = Inr (sr, length sc)" for e1 e2 e3 e4
    using read_table_at [OF src, of ?H sc sr "?B @ region" Z e1 e2 e3 e4] F H small
      ZDecompress_ZCompress [OF Z, of sr 19]
    by (simp add: sc_def sr HEADER_SIZE_def)
  have tab2: "read_table Z rd (60 + length sc) (length blks * 16) e1 e2 e3 e4 = Inr (br, length bc)"
    for e1 e2 e3 e4
    using read_table_at [OF src, of "?H @ ?S" bc br region Z e1 e2 e3 e4] F H small
      ZDecompress_ZCompress [OF Z, of br 19]
    by (simp add: bc_def br)
  have fields: "take 4 ?H = MAGIC" "rd32 (drop 4 ?H) = VERSION" "rd32 (drop 8 ?H) = of_nat bsz"
    "rd64 (drop 12 ?H) = of_nat tlen" "rd64 (drop 20 ?H) = of_nat blen" "rd64 (drop 28 ?H) = h"
    "rd32 (drop 36 ?H) = of_nat (length ss)" "rd32 (drop 40 ?H) = of_nat (length blks)"
    by (simp_all add: MAGIC_def)
  have cover: "fold (\<lambda>s t. u64 (t + rs_len s)) ss 0 = tlen"
    using fold_u64_sum [of 0 rs_len ss] covers lens by simp
  show ?thesis
    unfolding ParseDelta_def hdr bindE_simps Let_def fields
    using bsz lens counts fits
    by (simp add: tab1 tab2 off cover dec_segs dec_blocks sr_def [symmetric] br_def [symmetric])
      (simp add: sr_def br_def dec_segs dec_blocks cover off [unfolded sc_def bc_def sr_def br_def])
qed

end
