(* ===== verification/Delta.thy ===== *)
theory Delta
  imports DeltaFormat
begin

text \<open>
  \<^verbatim>\<open>DeltaByteSource\<close> of \<^verbatim>\<open>vgdelta.cpp\<close>: composing a delta over its base into one flat
  segment map (\<^verbatim>\<open>Create\<close>) and serving reads from that map (\<^verbatim>\<open>pread\<close>). The byte sources
  of the program form one datatype, and the virtual \<^verbatim>\<open>pread\<close> is a function on it.
\<close>

section \<open>Sources\<close>

record flat_seg =
  targetOff :: nat
  fs_len :: nat
  fs_srcOff :: nat
  fs_addSrc :: nat
  fs_kind :: byte

text \<open>
  An \<^verbatim>\<open>FdByteSource\<close> is the host's positioned read on its descriptor and the size it was
  opened with. A \<^verbatim>\<open>DeltaByteSource\<close> has its ultimate base, its ADD stores, its flat map
  and the target size.
\<close>

datatype source =
    FdSource reader nat
  | MemSource bytes
  | MmapSource bytes
  | ConcatSource "source part list" nat
  | DeltaSource source "add_source list" "flat_seg list" nat
and add_source =
    AddSource (as_file: source) (as_regionOff: nat) (as_blockSize: nat) (as_blocks: "block_rec list")

fun src_size :: "source \<Rightarrow> nat" where
  "src_size (FdSource _ sz) = sz"
| "src_size (MemSource d) = length d"
| "src_size (MmapSource d) = length d"
| "src_size (ConcatSource _ t) = t"
| "src_size (DeltaSource _ _ _ t) = t"

section \<open>Reading a delta\<close>

text \<open>
  \<^verbatim>\<open>SegAt\<close>: \<^verbatim>\<open>std::upper_bound\<close> on the target offsets (the halving loop of the standard
  library, the first segment that starts after \<open>o'\<close>), less one.
\<close>

function upper_bound :: "flat_seg list \<Rightarrow> nat \<Rightarrow> nat \<Rightarrow> nat \<Rightarrow> nat" where
  "upper_bound ss v first len =
     (if 0 < len then
        let half = len div 2; mid = first + half in
        if v < targetOff (ss ! mid) then upper_bound ss v first half
        else upper_bound ss v (Suc mid) (len - half - 1)
      else first)"
  by pat_completeness auto
termination
  by (relation "measure (\<lambda>(ss, v, first, len). len)") auto

declare upper_bound.simps [simp del]

definition SegAt :: "flat_seg list \<Rightarrow> nat \<Rightarrow> nat" where
  "SegAt ss o' = (let i = upper_bound ss o' 0 (length ss) in if i \<noteq> 0 then i - 1 else 0)"

text \<open>
  \<^verbatim>\<open>GetAddBlock\<close> without its cache (the cache is added in theory \<open>BlockCache\<close> and shown
  to change nothing). \<open>None\<close> is the null pointer.
\<close>

definition GetAddBlock :: "zstd \<Rightarrow> reader \<Rightarrow> nat \<Rightarrow> block_rec list \<Rightarrow> nat \<Rightarrow> bytes option res" where
  "GetAddBlock Z file regionOff blocks blk =
     (let b = blocks ! blk;
          decode = (\<lambda>cmp. let raw = ZDecompress Z cmp (uncompLen b) in
             if length raw \<noteq> uncompLen b then Inr None else Inr (Some raw))
      in if compLen b \<noteq> 0 then
           (case preadAll file (compLen b) (u64 (regionOff + compOff b)) of
              Inl e \<Rightarrow> Inl e
            | Inr None \<Rightarrow> Inr None
            | Inr (Some cmp) \<Rightarrow> decode cmp)
         else decode [])"

text \<open>
  \<^verbatim>\<open>readAdd\<close>. The loop need not end: a block shorter than the block size with the
  position at its end gives \<^verbatim>\<open>take = 0\<close>, and nothing changes any more. \<open>None\<close> is that
  loop; \<open>readAdd\<close> reports it as \<open>NoReturn\<close>.
\<close>

partial_function (option) readAdd_loop ::
  "(nat \<Rightarrow> bytes option res) \<Rightarrow> nat \<Rightarrow> nat \<Rightarrow> nat \<Rightarrow> nat \<Rightarrow> bytes \<Rightarrow> bytes res option" where
  "readAdd_loop getblk blockSize nblocks n addOff acc =
     (if n > 0 then
        let b = addOff div blockSize; intra = addOff mod blockSize in
        if b \<ge> nblocks then Some (Inl EIO)
        else (case getblk b of
                Inl e \<Rightarrow> Some (Inl e)
              | Inr None \<Rightarrow> Some (Inl EIO)
              | Inr (Some raw) \<Rightarrow>
                  if intra > length raw then Some (Inl EIO)
                  else let avail = length raw - intra;
                           tk = (if n < avail then n else avail)
                       in readAdd_loop getblk blockSize nblocks (n - tk) (u64 (addOff + tk))
                            (acc @ clip raw tk intra))
      else Some (Inr acc))"

declare readAdd_loop.simps [code]

definition readAdd :: "(nat \<Rightarrow> bytes option res) \<Rightarrow> nat \<Rightarrow> nat \<Rightarrow> reader" where
  "readAdd getblk blockSize nblocks n addOff =
     (case readAdd_loop getblk blockSize nblocks n addOff [] of
        None \<Rightarrow> Inl NoReturn
      | Some r \<Rightarrow> r)"

text \<open>The inner loop of a COPY: read from the base until the chunk is complete.\<close>

function copy_loop :: "reader \<Rightarrow> nat \<Rightarrow> nat \<Rightarrow> bytes \<Rightarrow> bytes res" where
  "copy_loop rd chunk bsrc acc =
     (if length acc < chunk then
        (case rd (chunk - length acc) (u64 (bsrc + length acc)) of
           Inl e \<Rightarrow> Inl e
         | Inr [] \<Rightarrow> Inl EIO
         | Inr (b # bs) \<Rightarrow> copy_loop rd chunk bsrc (acc @ b # bs))
      else Inr acc)"
  by pat_completeness auto
termination
  by (relation "measure (\<lambda>(rd, chunk, bsrc, acc). chunk - length acc)") auto

declare copy_loop.simps [simp del]

text \<open>The outer loop of \<^verbatim>\<open>pread\<close>, over the segments from \<open>idx\<close> on; \<open>adds\<close> are the ADD readers.\<close>

function delta_loop ::
  "reader \<Rightarrow> reader list \<Rightarrow> flat_seg list \<Rightarrow> nat \<Rightarrow> nat \<Rightarrow> nat \<Rightarrow> nat \<Rightarrow> nat \<Rightarrow> bytes \<Rightarrow> bytes res" where
  "delta_loop base adds ss off want idx pos done acc =
     (if done < want \<and> idx < length ss then
        let s = ss ! idx; segEnd = u64 (targetOff s + fs_len s) in
        if pos < targetOff s \<or> pos \<ge> segEnd then Inl EIO
        else
          let reqEnd = u64 (off + want);
              chunk = sub64 (if segEnd < reqEnd then segEnd else reqEnd) pos;
              src = u64 (fs_srcOff s + sub64 pos (targetOff s))
          in case (if fs_kind s = KIND_COPY then copy_loop base chunk src []
                   else (adds ! fs_addSrc s) chunk src) of
               Inl e \<Rightarrow> Inl e
             | Inr bs \<Rightarrow> delta_loop base adds ss off want (Suc idx) (u64 (pos + chunk))
                          (done + chunk) (acc @ bs)
      else Inr acc)"
  by pat_completeness auto
termination
  by (relation "measure (\<lambda>(base, adds, ss, off, want, idx, pos, done, acc). length ss - idx)") auto

declare delta_loop.simps [simp del]

definition delta_pread :: "reader \<Rightarrow> reader list \<Rightarrow> flat_seg list \<Rightarrow> nat \<Rightarrow> reader" where
  "delta_pread base adds ss tsize n off =
     (if off \<ge> tsize \<or> ss = [] then Inr []
      else let want = (if n < tsize - off then n else tsize - off)
           in delta_loop base adds ss off want (SegAt ss off) off 0 [])"

primrec pread :: "zstd \<Rightarrow> source \<Rightarrow> reader"
  and add_reader :: "zstd \<Rightarrow> add_source \<Rightarrow> reader" where
  "pread Z (FdSource rd _) = rd"
| "pread Z (MemSource d) = mem_pread d"
| "pread Z (MmapSource d) = mmap_pread d"
| "pread Z (ConcatSource ps t) = concat_pread (reader_parts (pread Z) ps) t"
| "pread Z (DeltaSource base adds ss t) = delta_pread (pread Z base) (map (add_reader Z) adds) ss t"
| "add_reader Z (AddSource file ro bsz blks) =
     readAdd (GetAddBlock Z (pread Z file) ro blks) bsz (length blks)"

text \<open>\<^verbatim>\<open>ConcatByteSource\<close>'s constructor.\<close>

definition mk_concat :: "source option list \<Rightarrow> source" where
  "mk_concat ss = (case concat_parts src_size 0 ss of (ps, t) \<Rightarrow> ConcatSource ps t)"

section \<open>Create\<close>

text \<open>The composition of one COPY with the base's flat map, from base segment \<open>bi\<close> on.\<close>

function compose_copy ::
  "flat_seg list \<Rightarrow> nat \<Rightarrow> nat \<Rightarrow> nat \<Rightarrow> flat_seg list \<Rightarrow> perr + flat_seg list" where
  "compose_copy B m rem bi acc =
     (if rem > 0 \<and> bi < length B then
        let bs = B ! bi; bsEnd = u64 (targetOff bs + fs_len bs) in
        if m < targetOff bs \<or> m \<ge> bsEnd then Inl (Err ''vgdelta: compose gap'')
        else
          let tk = sub64 (min bsEnd (u64 (m + rem))) m
          in compose_copy B (u64 (m + tk)) (sub64 rem tk) (Suc bi)
               (acc @ [\<lparr>targetOff = 0, fs_len = tk,
                  fs_srcOff = u64 (fs_srcOff bs + sub64 m (targetOff bs)),
                  fs_addSrc = fs_addSrc bs, fs_kind = fs_kind bs\<rparr>])
      else if rem > 0 then Inl (Err ''vgdelta: compose out of range'')
      else Inr acc)"
  by pat_completeness auto
termination
  by (relation "measure (\<lambda>(B, m, rem, bi, acc). length B - bi)") auto

declare compose_copy.simps [simp del]

fun compose_segs :: "flat_seg list \<Rightarrow> nat \<Rightarrow> raw_seg list \<Rightarrow> flat_seg list \<Rightarrow> perr + flat_seg list" where
  "compose_segs B thisAdd [] acc = Inr acc"
| "compose_segs B thisAdd (s # ss) acc =
     (if rs_kind s = KIND_ADD then
        compose_segs B thisAdd ss (acc @ [\<lparr>targetOff = 0, fs_len = rs_len s,
          fs_srcOff = rs_srcOff s, fs_addSrc = thisAdd, fs_kind = KIND_ADD\<rparr>])
      else
        bindE (compose_copy B (rs_srcOff s) (rs_len s) (SegAt B (rs_srcOff s)) acc)
          (compose_segs B thisAdd ss))"

text \<open>The prefix sums that give every flat segment its target offset, and their total.\<close>

fun place :: "nat \<Rightarrow> flat_seg list \<Rightarrow> flat_seg list \<times> nat" where
  "place t [] = ([], t)"
| "place t (s # ss) = (case place (u64 (t + fs_len s)) ss of (qs, t') \<Rightarrow> (s\<lparr>targetOff := t\<rparr> # qs, t'))"

definition direct_seg :: "raw_seg \<Rightarrow> flat_seg" where
  "direct_seg s = \<lparr>targetOff = 0, fs_len = rs_len s, fs_srcOff = rs_srcOff s, fs_addSrc = 0,
     fs_kind = rs_kind s\<rparr>"

definition finish :: "source \<Rightarrow> add_source list \<Rightarrow> nat \<Rightarrow> flat_seg list \<Rightarrow> perr + source" where
  "finish base adds tsize ss =
     (case place 0 ss of (qs, t) \<Rightarrow>
        if t \<noteq> tsize then Inl (Err ''vgdelta: flat segments do not cover target'')
        else Inr (DeltaSource base adds qs tsize))"

definition Create :: "zstd \<Rightarrow> source \<Rightarrow> source option \<Rightarrow> bool \<Rightarrow> perr + source" where
  "Create Z delta base verifyBase =
     bindE (ParseDelta Z (pread Z delta)) (\<lambda>P.
       let add = AddSource delta (add_regionOff P) (add_blockSize P) (add_blocks P) in
       case base of
         None \<Rightarrow> Inl (Err ''vgdelta: null base'')
       | Some b \<Rightarrow>
           if src_size b \<noteq> baseSize P then Inl (Err ''vgdelta: base size mismatch'')
           else
             (case b of
                DeltaSource ub adds B _ \<Rightarrow>
                  bindE (compose_segs B (length adds) (segs P) [])
                    (finish ub (adds @ [add]) (targetSize P))
              | _ \<Rightarrow>
                  bindE (if verifyBase then
                           (case preadAll (pread Z b) (baseSize P) 0 of
                              Inl _ \<Rightarrow> Inl Stuck
                            | Inr None \<Rightarrow> Inl (Err ''vgdelta: base hash mismatch'')
                            | Inr (Some bb) \<Rightarrow>
                                if Fnv1a64 bb \<noteq> baseHash P
                                then Inl (Err ''vgdelta: base hash mismatch'') else Inr ())
                         else Inr ())
                    (\<lambda>_. finish b [add] (targetSize P) (map direct_seg (segs P)))))"

end
