(* ===== verification/DeltaCorrect.thy ===== *)
theory DeltaCorrect
  imports Delta
begin

text \<open>
  What a delta source means and that reading it gives that meaning. \<open>flat_bytes\<close> is the
  content a flat segment map denotes over the content of its base and of its ADD stores;
  \<open>delta_bytes\<close> the content a delta denotes over its immediate base. \<open>holds\<close> says that a
  source is well formed with a given content: every source that holds a content keeps the
  \<open>byte_source\<close> contract for it, and \<^verbatim>\<open>Create\<close> leads from a source that holds the base
  to one that holds the target.
\<close>

section \<open>Meaning of segments\<close>

definition seg_bytes :: "bytes \<Rightarrow> bytes list \<Rightarrow> flat_seg \<Rightarrow> bytes" where
  "seg_bytes bb ab s =
     clip (if fs_kind s = KIND_COPY then bb else ab ! fs_addSrc s) (fs_len s) (fs_srcOff s)"

definition flat_bytes :: "bytes \<Rightarrow> bytes list \<Rightarrow> flat_seg list \<Rightarrow> bytes" where
  "flat_bytes bb ab ss = concat (map (seg_bytes bb ab) ss)"

definition raw_bytes :: "bytes \<Rightarrow> bytes \<Rightarrow> raw_seg \<Rightarrow> bytes" where
  "raw_bytes m a s = clip (if rs_kind s = KIND_ADD then a else m) (rs_len s) (rs_srcOff s)"

definition delta_bytes :: "bytes \<Rightarrow> bytes \<Rightarrow> raw_seg list \<Rightarrow> bytes" where
  "delta_bytes m a ss = concat (map (raw_bytes m a) ss)"

definition seg_ok :: "bytes \<Rightarrow> bytes list \<Rightarrow> flat_seg \<Rightarrow> bool" where
  "seg_ok bb ab s \<longleftrightarrow> 0 < fs_len s \<and>
     (if fs_kind s = KIND_COPY then fs_srcOff s + fs_len s \<le> length bb
      else fs_addSrc s < length ab \<and> fs_srcOff s + fs_len s \<le> length (ab ! fs_addSrc s))"

definition raw_ok :: "bytes \<Rightarrow> bytes \<Rightarrow> raw_seg \<Rightarrow> bool" where
  "raw_ok m a s \<longleftrightarrow> 0 < rs_len s \<and>
     (rs_kind s = KIND_ADD \<and> rs_srcOff s + rs_len s \<le> length a \<or>
      rs_kind s = KIND_COPY \<and> rs_srcOff s + rs_len s \<le> length m)"

text \<open>Every segment starts where the one before it ends.\<close>

fun placed :: "nat \<Rightarrow> flat_seg list \<Rightarrow> bool" where
  "placed t [] = True"
| "placed t (s # ss) = (targetOff s = t \<and> placed (t + fs_len s) ss)"

named_theorems seg_simps "meaning and well-formedness of segments"

lemma length_seg_bytes [seg_simps]: "seg_ok bb ab s \<Longrightarrow> length (seg_bytes bb ab s) = fs_len s"
  by (auto simp: seg_ok_def seg_bytes_def split: if_splits)

lemma length_raw_bytes [seg_simps]: "raw_ok m a s \<Longrightarrow> length (raw_bytes m a s) = rs_len s"
  by (auto simp: raw_ok_def raw_bytes_def KIND_ADD_def KIND_COPY_def)

lemma length_flat_bytes:
  "\<forall>s \<in> set ss. seg_ok bb ab s \<Longrightarrow> length (flat_bytes bb ab ss) = sum_list (map fs_len ss)"
  by (induction ss) (simp_all add: flat_bytes_def length_seg_bytes)

lemma length_delta_bytes:
  "\<forall>s \<in> set ss. raw_ok m a s \<Longrightarrow> length (delta_bytes m a ss) = sum_list (map rs_len ss)"
  by (induction ss) (simp_all add: delta_bytes_def length_raw_bytes)

lemma flat_bytes_append: "flat_bytes bb ab (xs @ ys) = flat_bytes bb ab xs @ flat_bytes bb ab ys"
  by (simp add: flat_bytes_def)

lemma placed_append: "placed t (xs @ ys) \<longleftrightarrow> placed t xs \<and> placed (t + sum_list (map fs_len xs)) ys"
  by (induction xs arbitrary: t) (auto simp: add.assoc)

lemma placed_nth:
  assumes "placed 0 ss" and "i < length ss"
  shows "targetOff (ss ! i) = sum_list (map fs_len (take i ss))"
proof -
  from assms(2) have "ss = take i ss @ ss ! i # drop (Suc i) ss" by (rule id_take_nth_drop)
  with assms(1) have "placed 0 (take i ss @ ss ! i # drop (Suc i) ss)" by simp
  then show ?thesis by (simp add: placed_append)
qed

lemma placed_next:
  assumes "placed 0 ss" and "i < length ss"
  shows "targetOff (ss ! i) + fs_len (ss ! i) = sum_list (map fs_len (take (Suc i) ss))"
  using assms by (simp add: placed_nth take_Suc_conv_app_nth)

lemma sum_take_le: "sum_list (map f (take i xs)) \<le> (sum_list (map f xs) :: nat)"
  by (metis append_take_drop_id le_add1 map_append sum_list_append)

lemma sum_take_mono: "i \<le> j \<Longrightarrow> sum_list (map f (take i xs)) \<le> (sum_list (map f (take j xs)) :: nat)"
  by (metis min.absorb1 sum_take_le take_take)

lemma placed_mono:
  "placed 0 ss \<Longrightarrow> i \<le> j \<Longrightarrow> j < length ss \<Longrightarrow> targetOff (ss ! i) \<le> targetOff (ss ! j)"
  by (simp add: placed_nth sum_take_mono)

section \<open>SegAt\<close>

lemma upper_bound_spec:
  assumes "placed 0 ss" and "first + len \<le> length ss"
    and "\<forall>j < first. targetOff (ss ! j) \<le> v"
    and "\<forall>j. first + len \<le> j \<longrightarrow> j < length ss \<longrightarrow> v < targetOff (ss ! j)"
  shows "let r = upper_bound ss v first len in r \<le> length ss \<and>
    (\<forall>j < r. targetOff (ss ! j) \<le> v) \<and> (\<forall>j. r \<le> j \<longrightarrow> j < length ss \<longrightarrow> v < targetOff (ss ! j))"
  using assms
proof (induction ss v first len rule: upper_bound.induct)
  case (1 ss v first len)
  show ?case
  proof (cases "0 < len")
    case False
    with "1.prems" show ?thesis by (subst upper_bound.simps) (simp add: Let_def)
  next
    case True
    let ?mid = "first + len div 2"
    have mid: "?mid < length ss" "?mid < first + len" using True "1.prems"(2) by linarith+
    show ?thesis
    proof (cases "v < targetOff (ss ! ?mid)")
      case less: True
      have "\<forall>j. ?mid \<le> j \<longrightarrow> j < length ss \<longrightarrow> v < targetOff (ss ! j)"
        using less placed_mono [OF "1.prems"(1)] by (meson less_le_trans)
      with "1.IH"(1) [OF True refl refl less "1.prems"(1)] "1.prems"(3) mid show ?thesis
        by (subst upper_bound.simps) (simp add: Let_def True less)
    next
      case ge: False
      have "\<forall>j < Suc ?mid. targetOff (ss ! j) \<le> v"
        using ge placed_mono [OF "1.prems"(1) _ mid(1)] by (meson le_trans less_Suc_eq_le not_le)
      moreover have "Suc ?mid + (len - len div 2 - 1) = first + len" using True by simp
      ultimately show ?thesis
        using "1.IH"(2) [OF True refl refl ge "1.prems"(1)] "1.prems"(2,4)
        by (subst upper_bound.simps) (simp add: Let_def True ge)
    qed
  qed
qed

text \<open>On a well-placed map with no empty segment, \<open>SegAt\<close> finds the segment that covers the offset.\<close>

lemma SegAt_covers:
  assumes pl: "placed 0 ss" and o': "o' < sum_list (map fs_len ss)"
  shows "SegAt ss o' < length ss \<and> targetOff (ss ! SegAt ss o') \<le> o' \<and>
    o' < targetOff (ss ! SegAt ss o') + fs_len (ss ! SegAt ss o')"
proof -
  let ?r = "upper_bound ss o' 0 (length ss)"
  have r: "?r \<le> length ss" "\<forall>j < ?r. targetOff (ss ! j) \<le> o'"
    "\<forall>j. ?r \<le> j \<longrightarrow> j < length ss \<longrightarrow> o' < targetOff (ss ! j)"
    using upper_bound_spec [OF pl, of 0 "length ss" o'] by (auto simp: Let_def)
  from o' have ne: "ss \<noteq> []" by auto
  then have "targetOff (ss ! 0) = 0" using placed_nth [OF pl, of 0] by simp
  with r(3) ne have "?r \<noteq> 0" by (metis le0 length_greater_0_conv not_less0)
  then obtain i where i: "?r = Suc i" by (cases ?r) auto
  have il: "i < length ss" using r(1) i by simp
  have "o' < sum_list (map fs_len (take (Suc i) ss))"
  proof (cases "Suc i < length ss")
    case True
    then show ?thesis using r(3) i placed_nth [OF pl True] by (metis le_refl)
  qed (use o' in simp)
  with placed_next [OF pl il] r(2) i il show ?thesis by (simp add: SegAt_def)
qed

section \<open>COPY and ADD reads\<close>

lemma copy_loop_ok:
  assumes src: "byte_source rd c"
    and "bsrc + chunk \<le> length c" and "length acc \<le> chunk" and "acc = clip c (length acc) bsrc"
  shows "copy_loop rd chunk bsrc acc = Inr (clip c chunk bsrc)"
  using assms(2-)
proof (induction "chunk - length acc" arbitrary: acc rule: less_induct)
  case less
  show ?case
  proof (cases "length acc < chunk")
    case False
    with less.prems have "acc = clip c chunk bsrc" "length acc = chunk" by auto
    then show ?thesis by (subst copy_loop.simps) simp
  next
    case True
    let ?o = "bsrc + length acc"
    have "length c < W64" using src by (simp add: byte_source_def)
    with True less.prems(1) have o: "?o < W64" "?o < length c" by linarith+
    with byte_source.prefix_read [OF src, of ?o "chunk - length acc"] True obtain k where
      k: "k \<le> chunk - length acc" "0 < k" "rd (chunk - length acc) ?o = Inr (clip c k ?o)"
      by auto
    from k(2) o(2) have "clip c k ?o \<noteq> []" by (simp add: clip_def)
    then obtain b bs where bbs: "clip c k ?o = b # bs" by (cases "clip c k ?o") auto
    have "length (b # bs) \<le> k" by (simp add: bbs [symmetric] clip_def)
    then have len: "length (acc @ b # bs) \<le> chunk" "chunk - length (acc @ b # bs) < chunk - length acc"
      using k(1) True by auto
    have "acc @ b # bs = clip c (length (acc @ b # bs)) bsrc"
      using clip_extend [OF less.prems(3), of k] by (simp only: bbs)
    then have "copy_loop rd chunk bsrc (acc @ b # bs) = Inr (clip c chunk bsrc)"
      by (rule less.hyps [OF len(2) less.prems(1) len(1)])
    with True o(1) k(3) bbs show ?thesis by (subst copy_loop.simps) simp
  qed
qed

text \<open>
  A reader that serves every range inside the content exactly: what the code needs of an ADD
  store (past its end the store answers \<^verbatim>\<open>-EIO\<close>).
\<close>

definition range_reader :: "reader \<Rightarrow> bytes \<Rightarrow> bool" where
  "range_reader rd c \<longleftrightarrow> (\<forall>n off. off + n \<le> length c \<longrightarrow> rd n off = Inr (clip c n off))"

text \<open>The blocks of a store cut its content every \<open>bsz\<close> bytes; only the last may be shorter.\<close>

definition blocks_ok :: "(nat \<Rightarrow> bytes option res) \<Rightarrow> nat \<Rightarrow> nat \<Rightarrow> bytes \<Rightarrow> bool" where
  "blocks_ok getblk bsz nb c \<longleftrightarrow> 0 < bsz \<and> length c < W64 \<and> length c \<le> nb * bsz \<and>
     (\<forall>b < nb. getblk b = Inr (Some (clip c bsz (b * bsz))))"

lemma readAdd_loop_ok:
  assumes blk: "blocks_ok getblk bsz nb c" and "off + n \<le> length c"
  shows "readAdd_loop getblk bsz nb n off acc = Some (Inr (acc @ clip c n off))"
  using assms(2)
proof (induction n arbitrary: off acc rule: less_induct)
  case (less n)
  show ?case
  proof (cases "0 < n")
    case False
    then show ?thesis by (subst readAdd_loop.simps) (simp add: clip_def)
  next
    case True
    let ?b = "off div bsz" and ?i = "off mod bsz"
    have bsz: "0 < bsz" and lc: "length c < W64" "length c \<le> nb * bsz"
      using blk by (auto simp: blocks_ok_def)
    have off: "off < length c" using less.prems True by simp
    then have b: "?b < nb" using lc(2) bsz by (simp add: less_mult_imp_div_less)
    let ?raw = "clip c bsz (?b * bsz)"
    let ?tk = "if n < length ?raw - ?i then n else length ?raw - ?i"
    have split: "?b * bsz + ?i = off" by simp
    have i: "?i < bsz" using bsz by simp
    have lraw: "length ?raw = min bsz (length c - ?b * bsz)" by (simp add: clip_def)
    have il: "?i < length ?raw" unfolding lraw using i split off by linarith
    have tk: "0 < ?tk" "?tk \<le> n" "?i + ?tk \<le> bsz"
      using True il lraw by auto
    have piece: "clip ?raw ?tk ?i = clip c ?tk off"
      using tk(3) by (simp add: clip_def drop_take min_absorb1 del: if_split)
    have u: "u64 (off + ?tk) = off + ?tk" using tk(2) less.prems lc(1) by (intro u64_id) linarith
    have "readAdd_loop getblk bsz nb (n - ?tk) (off + ?tk) (acc @ clip c ?tk off) =
        Some (Inr ((acc @ clip c ?tk off) @ clip c (n - ?tk) (off + ?tk)))"
      by (rule less.IH) (use tk less.prems True in linarith)+
    also have "(acc @ clip c ?tk off) @ clip c (n - ?tk) (off + ?tk) = acc @ clip c n off"
      using clip_append [of c ?tk off "n - ?tk"] tk(2) by simp
    finally have rec: "readAdd_loop getblk bsz nb (n - ?tk) (off + ?tk) (acc @ clip c ?tk off) =
        Some (Inr (acc @ clip c n off))" .
    show ?thesis
      using True b il blk by (subst readAdd_loop.simps)
        (simp add: Let_def blocks_ok_def piece u rec split del: if_split)
  qed
qed

lemma range_reader_readAdd: "blocks_ok getblk bsz nb c \<Longrightarrow> range_reader (readAdd getblk bsz nb) c"
  by (simp add: range_reader_def readAdd_def readAdd_loop_ok)

section \<open>pread\<close>

lemma concat_slice:
  assumes "i < length xss" and "length (concat (take i xss)) \<le> pos"
    and "pos - length (concat (take i xss)) + k \<le> length (xss ! i)"
  shows "clip (xss ! i) k (pos - length (concat (take i xss))) = clip (concat xss) k pos"
proof -
  have "concat xss = concat (take i xss) @ xss ! i @ concat (drop (Suc i) xss)"
    using id_take_nth_drop [OF assms(1)] by (metis concat.simps(2) concat_append)
  then show ?thesis using assms(2,3) by (simp add: clip_def)
qed

lemma flat_slice:
  assumes ok: "\<forall>s \<in> set ss. seg_ok bb ab s" and pl: "placed 0 ss" and i: "i < length ss"
    and "targetOff (ss ! i) \<le> pos" and "pos + k \<le> targetOff (ss ! i) + fs_len (ss ! i)"
  shows "clip (seg_bytes bb ab (ss ! i)) k (pos - targetOff (ss ! i)) = clip (flat_bytes bb ab ss) k pos"
proof -
  have "length (concat (map (seg_bytes bb ab) (take i ss))) = targetOff (ss ! i)"
    using length_flat_bytes [of "take i ss" bb ab] ok
    by (simp add: placed_nth [OF pl i] flat_bytes_def) (meson in_set_takeD)
  moreover have "length (seg_bytes bb ab (ss ! i)) = fs_len (ss ! i)"
    using ok i by (simp add: length_seg_bytes)
  ultimately show ?thesis
    using concat_slice [of i "map (seg_bytes bb ab) ss" pos k] assms(3-)
    by (simp add: take_map flat_bytes_def)
qed

locale delta_reader =
  fixes base :: reader and bb :: bytes and adds :: "reader list" and ab :: "bytes list"
    and ss :: "flat_seg list" and tsize :: nat
  assumes base: "byte_source base bb"
    and adds: "length adds = length ab" "\<And>i. i < length ab \<Longrightarrow> range_reader (adds ! i) (ab ! i)"
    and small_adds: "\<And>i. i < length ab \<Longrightarrow> length (ab ! i) < W64"
    and ok: "\<forall>s \<in> set ss. seg_ok bb ab s"
    and pl: "placed 0 ss"
    and total: "sum_list (map fs_len ss) = tsize" "tsize < W64"
begin

abbreviation content :: bytes where "content \<equiv> flat_bytes bb ab ss"

lemma length_content: "length content = tsize"
  using length_flat_bytes [OF ok] total by simp

text \<open>One piece of one segment, through the COPY or the ADD path.\<close>

lemma segment_read:
  assumes i: "i < length ss" and "targetOff (ss ! i) \<le> pos"
    and fits: "pos + k \<le> targetOff (ss ! i) + fs_len (ss ! i)"
  shows "(if fs_kind (ss ! i) = KIND_COPY
      then copy_loop base k (u64 (fs_srcOff (ss ! i) + sub64 pos (targetOff (ss ! i)))) []
      else (adds ! fs_addSrc (ss ! i)) k (u64 (fs_srcOff (ss ! i) + sub64 pos (targetOff (ss ! i))))) =
    Inr (clip content k pos)"
proof -
  let ?s = "ss ! i"
  have so: "seg_ok bb ab ?s" using ok i by simp
  have "targetOff ?s + fs_len ?s \<le> tsize"
    using placed_next [OF pl i] sum_take_le [of fs_len "Suc i" ss] total(1) by simp
  then have pos: "pos < W64" using fits total(2) by linarith
  let ?d = "pos - targetOff ?s"
  have d: "?d + k \<le> fs_len ?s" using assms(2) fits by linarith
  have slice: "clip (seg_bytes bb ab ?s) k ?d = clip content k pos"
    by (rule flat_slice [OF ok pl i assms(2) fits])
  have sub: "sub64 pos (targetOff ?s) = ?d" using assms(2) pos by simp
  show ?thesis
  proof (cases "fs_kind ?s = KIND_COPY")
    case True
    with so have rng: "fs_srcOff ?s + fs_len ?s \<le> length bb" by (simp add: seg_ok_def)
    have "length bb < W64" using base by (simp add: byte_source_def)
    with rng d have u: "u64 (fs_srcOff ?s + ?d) = fs_srcOff ?s + ?d"
      using so True by (intro u64_id) (simp add: seg_ok_def)
    have "copy_loop base k (fs_srcOff ?s + ?d) [] = Inr (clip bb k (fs_srcOff ?s + ?d))"
      by (rule copy_loop_ok [OF base]) (use rng d in \<open>auto simp: clip_def\<close>)
    moreover have "clip (seg_bytes bb ab ?s) k ?d = clip bb k (fs_srcOff ?s + ?d)"
      using True d by (simp add: seg_bytes_def clip_def drop_take min_absorb1 add.commute)
    ultimately show ?thesis using True u sub slice by simp
  next
    case False
    with so have a: "fs_addSrc ?s < length ab" "fs_srcOff ?s + fs_len ?s \<le> length (ab ! fs_addSrc ?s)"
      by (simp_all add: seg_ok_def)
    then have u: "u64 (fs_srcOff ?s + ?d) = fs_srcOff ?s + ?d"
      using d small_adds [OF a(1)] so by (intro u64_id) (simp add: seg_ok_def)
    have "(adds ! fs_addSrc ?s) k (fs_srcOff ?s + ?d) = Inr (clip (ab ! fs_addSrc ?s) k (fs_srcOff ?s + ?d))"
      using adds(2) [OF a(1)] a(2) d by (simp add: range_reader_def)
    moreover have "clip (seg_bytes bb ab ?s) k ?d = clip (ab ! fs_addSrc ?s) k (fs_srcOff ?s + ?d)"
      using False d by (simp add: seg_bytes_def clip_def drop_take min_absorb1 add.commute)
    ultimately show ?thesis using False u sub slice by simp
  qed
qed

lemma delta_loop_ok:
  assumes "off + want \<le> tsize" and "done \<le> want" and "acc = clip content done off"
    and "done < want \<Longrightarrow> idx < length ss \<and> targetOff (ss ! idx) \<le> off + done \<and>
      off + done < targetOff (ss ! idx) + fs_len (ss ! idx)"
  shows "delta_loop base adds ss off want idx (off + done) done acc = Inr (clip content want off)"
  using assms
proof (induction "length ss - idx" arbitrary: idx "done" acc rule: less_induct)
  case less
  show ?case
  proof (cases "done < want")
    case False
    with less.prems show ?thesis by (subst delta_loop.simps) simp
  next
    case True
    let ?s = "ss ! idx"
    let ?fin = "targetOff ?s + fs_len ?s"
    from less.prems(4) [OF True] have idx: "idx < length ss" "targetOff ?s \<le> off + done" "off + done < ?fin"
      by auto
    have endle: "?fin \<le> tsize"
      using placed_next [OF pl idx(1)] sum_take_le [of fs_len "Suc idx" ss] total(1) by simp
    have req: "u64 (off + want) = off + want" using less.prems(1) total(2) by simp
    have u: "u64 ?fin = ?fin" using endle total(2) by simp
    let ?chunk = "(if ?fin < off + want then ?fin else off + want) - (off + done)"
    have chunk: "sub64 (if ?fin < off + want then ?fin else off + want) (off + done) = ?chunk"
      by (rule sub64_eq) (use True idx(3) less.prems(1) endle total(2) in auto)
    have c: "off + done + ?chunk \<le> ?fin" "done + ?chunk \<le> want" using True idx(3) by auto
    have u2: "u64 (off + done + ?chunk) = off + (done + ?chunk)"
      using c(1) endle total(2) by simp
    have piece: "(if fs_kind ?s = KIND_COPY
        then copy_loop base ?chunk (u64 (fs_srcOff ?s + sub64 (off + done) (targetOff ?s))) []
        else (adds ! fs_addSrc ?s) ?chunk (u64 (fs_srcOff ?s + sub64 (off + done) (targetOff ?s)))) =
      Inr (clip content ?chunk (off + done))"
      by (rule segment_read [OF idx(1,2) c(1)])
    have "delta_loop base adds ss off want (Suc idx) (off + (done + ?chunk)) (done + ?chunk)
        (acc @ clip content ?chunk (off + done)) = Inr (clip content want off)"
    proof (rule less.hyps)
      show "length ss - Suc idx < length ss - idx" using idx(1) by simp
      show "off + want \<le> tsize" "done + ?chunk \<le> want" by (rule less.prems(1), rule c(2))
      show "acc @ clip content ?chunk (off + done) = clip content (done + ?chunk) off"
        using less.prems(3) clip_append [of content "done" off ?chunk] by simp
      assume more: "done + ?chunk < want"
      then have e: "off + (done + ?chunk) = ?fin" using True idx(3) by (auto split: if_splits)
      have "Suc idx < length ss"
      proof (rule ccontr)
        assume "\<not> Suc idx < length ss"
        then have "?fin = tsize" using placed_next [OF pl idx(1)] total(1) by simp
        then show False using e more less.prems(1) by linarith
      qed
      then show "Suc idx < length ss \<and> targetOff (ss ! Suc idx) \<le> off + (done + ?chunk) \<and>
          off + (done + ?chunk) < targetOff (ss ! Suc idx) + fs_len (ss ! Suc idx)"
        using e placed_nth [OF pl, of "Suc idx"] placed_next [OF pl idx(1)] ok
        by (simp add: seg_ok_def)
    qed
    then show ?thesis
      using True idx piece
      by (subst delta_loop.simps) (simp add: Let_def u req chunk u2 split del: if_split cong: if_cong)
  qed
qed

lemma delta_pread_exact: "delta_pread base adds ss tsize n off = Inr (clip content n off)"
proof (cases "off \<ge> tsize \<or> ss = []")
  case True
  then have "tsize \<le> off" using total by auto
  then show ?thesis using length_content True by (auto simp: delta_pread_def clip_def)
next
  case False
  let ?want = "if n < tsize - off then n else tsize - off"
  have "delta_loop base adds ss off ?want (SegAt ss off) (off + 0) 0 [] = Inr (clip content ?want off)"
    by (rule delta_loop_ok) (use False SegAt_covers [OF pl, of off] total in \<open>auto simp: clip_def\<close>)
  moreover have "clip content ?want off = clip content n off"
    using length_content by (simp add: clip_def)
  ultimately show ?thesis using False by (simp add: delta_pread_def Let_def)
qed

end

sublocale delta_reader \<subseteq> view: exact_source "delta_pread base adds ss tsize" "flat_bytes bb ab ss"
  by unfold_locales (simp_all add: delta_pread_exact length_content total)

text \<open>
  The instance at the bottom of every chain: a flat map of one COPY segment over any base, the
  view of an archive that its delta leaves unchanged.
\<close>

definition whole_copy :: "bytes \<Rightarrow> flat_seg list" where
  "whole_copy d = (if d = [] then [] else
     [\<lparr>targetOff = 0, fs_len = length d, fs_srcOff = 0, fs_addSrc = 0, fs_kind = KIND_COPY\<rparr>])"

interpretation unchanged: delta_reader "mem_pread (take (W64 - 1) d)" "take (W64 - 1) d" "[]" "[]"
  "whole_copy (take (W64 - 1) d)" "length (take (W64 - 1) d)" for d
  using memory.byte_source_axioms [of d] W64_pos
  by unfold_locales (auto simp: whole_copy_def seg_ok_def min_less_iff_disj)

section \<open>Sources that hold a content\<close>

text \<open>
  \<open>holds Z s c\<close>: the source \<open>s\<close> is well formed with content \<open>c\<close>. \<open>store_holds\<close> is
  the same for an ADD store: its blocks lie in its file and decompress to the content, cut
  every block size.
\<close>

inductive holds :: "zstd \<Rightarrow> source \<Rightarrow> bytes \<Rightarrow> bool"
  and store_holds :: "zstd \<Rightarrow> add_source \<Rightarrow> bytes \<Rightarrow> bool" for Z :: zstd where
  holds_fd: "byte_source rd c \<Longrightarrow> holds Z (FdSource rd (length c)) c"
| holds_mem: "length d < W64 \<Longrightarrow> holds Z (MemSource d) d"
| holds_mmap: "length d < W64 \<Longrightarrow> holds Z (MmapSource d) d"
| holds_concat: "(\<And>x. Some x \<in> set xs \<Longrightarrow> holds Z x (cont x)) \<Longrightarrow>
    length (concat_bytes cont xs) < W64 \<Longrightarrow> concat_parts (\<lambda>x. length (cont x)) 0 xs = (ps, t) \<Longrightarrow>
    holds Z (ConcatSource ps t) (concat_bytes cont xs)"
| holds_delta: "holds Z base bb \<Longrightarrow> length adds = length ab \<Longrightarrow>
    (\<And>i. i < length ab \<Longrightarrow> store_holds Z (adds ! i) (ab ! i)) \<Longrightarrow>
    \<forall>s \<in> set ss. seg_ok bb ab s \<Longrightarrow> placed 0 ss \<Longrightarrow> sum_list (map fs_len ss) = t \<Longrightarrow> t < W64 \<Longrightarrow>
    holds Z (DeltaSource base adds ss t) (flat_bytes bb ab ss)"
| holds_store: "holds Z file fc \<Longrightarrow> 0 < bsz \<Longrightarrow> length c < W64 \<Longrightarrow> length c \<le> length blks * bsz \<Longrightarrow>
    (\<And>b. b < length blks \<Longrightarrow> ro + compOff (blks ! b) + compLen (blks ! b) \<le> length fc \<and>
       ZDecompress Z (clip fc (compLen (blks ! b)) (ro + compOff (blks ! b))) (uncompLen (blks ! b)) =
         clip c bsz (b * bsz) \<and> uncompLen (blks ! b) = length (clip c bsz (b * bsz))) \<Longrightarrow>
    store_holds Z (AddSource file ro bsz blks) c"

inductive_cases holds_deltaE: "holds Z (DeltaSource base adds ss t) c"

lemma GetAddBlock_ok:
  assumes src: "byte_source file fc" and fits: "ro + compOff (blks ! b) + compLen (blks ! b) \<le> length fc"
    and dec: "ZDecompress Z (clip fc (compLen (blks ! b)) (ro + compOff (blks ! b))) (uncompLen (blks ! b)) = d"
    and len: "uncompLen (blks ! b) = length d"
  shows "GetAddBlock Z file ro blks b = Inr (Some d)"
proof -
  have "length fc < W64" using src by (simp add: byte_source_def)
  with fits have small: "compLen (blks ! b) \<noteq> 0 \<Longrightarrow> u64 (ro + compOff (blks ! b)) = ro + compOff (blks ! b)"
    by (intro u64_id) linarith
  show ?thesis
    using dec len small byte_source.preadAll_ok [OF src fits]
    by (cases "compLen (blks ! b) = 0") (simp_all add: GetAddBlock_def Let_def clip_def)
qed

text \<open>Every well-formed source serves its content; so does every well-formed ADD store.\<close>

lemma holds_correct:
  "holds Z s c \<Longrightarrow> byte_source (pread Z s) c \<and> src_size s = length c"
  "store_holds Z a c \<Longrightarrow> range_reader (add_reader Z a) c \<and> length c < W64"
proof (induction rule: holds_store_holds.inducts)
  case (holds_concat xs cont ps t)
  have "exact_source (concat_pread (reader_parts (pread Z) ps) t) (concat_bytes cont xs)"
    by (rule concat_exact [OF _ _ holds_concat.hyps(1,2)]) (use holds_concat in auto)
  moreover have "t = length (concat_bytes cont xs)"
    using concat_parts_spec [OF _ _ holds_concat.hyps(2)] holds_concat.hyps(1) by simp
  ultimately show ?case by (simp add: exact_source_imp)
next
  case (holds_delta base bb adds ab ss t)
  have "delta_reader (pread Z base) bb (map (add_reader Z) adds) ab ss t"
    by (intro delta_reader.intro) (use holds_delta in auto)
  then have "exact_source (delta_pread (pread Z base) (map (add_reader Z) adds) ss t) (flat_bytes bb ab ss)"
    by (intro exact_source.intro) (auto simp: delta_reader.delta_pread_exact delta_reader.length_content holds_delta)
  moreover have "length (flat_bytes bb ab ss) = t"
    using length_flat_bytes holds_delta by blast
  ultimately show ?case by (simp add: exact_source_imp)
next
  case (holds_store src fc bsz c blks ro)
  then have "blocks_ok (GetAddBlock Z (pread Z src) ro blks) bsz (length blks) c"
    by (auto simp: blocks_ok_def intro!: GetAddBlock_ok)
  then show ?case using holds_store by (simp add: range_reader_readAdd)
qed (simp_all add: exact_source_imp exact_mem exact_mmap)

lemma holds_small: "holds Z s c \<Longrightarrow> length c < W64"
  using holds_correct(1) by (auto simp: byte_source_def)

section \<open>Create\<close>

lemma seg_target [simp]: "seg_bytes bb ab (s\<lparr>targetOff := t\<rparr>) = seg_bytes bb ab s"
  "seg_ok bb ab (s\<lparr>targetOff := t\<rparr>) = seg_ok bb ab s"
  by (simp_all add: seg_bytes_def seg_ok_def)

lemma place_spec:
  "t + sum_list (map fs_len ss) < W64 \<Longrightarrow> place t ss = (qs, t') \<Longrightarrow>
    t' = t + sum_list (map fs_len ss) \<and> placed t qs \<and> map fs_len qs = map fs_len ss \<and>
    map (seg_bytes bb ab) qs = map (seg_bytes bb ab) ss \<and>
    ((\<forall>s \<in> set qs. seg_ok bb ab s) \<longleftrightarrow> (\<forall>s \<in> set ss. seg_ok bb ab s))"
proof (induction ss arbitrary: t qs)
  case (Cons s ss)
  obtain rs t2 where rs: "place (t + fs_len s) ss = (rs, t2)" by force
  with Cons.prems have eq: "qs = s\<lparr>targetOff := t\<rparr> # rs" "t' = t2" by auto
  have "t2 = t + fs_len s + sum_list (map fs_len ss) \<and> placed (t + fs_len s) rs \<and>
    map fs_len rs = map fs_len ss \<and> map (seg_bytes bb ab) rs = map (seg_bytes bb ab) ss \<and>
    ((\<forall>s \<in> set rs. seg_ok bb ab s) \<longleftrightarrow> (\<forall>s \<in> set ss. seg_ok bb ab s))"
    using Cons.IH [OF _ rs [folded eq(2)]] Cons.prems(1) eq(2) by simp
  then show ?case by (simp add: eq)
qed simp

text \<open>Placing the segments and checking their total gives a source with their content.\<close>

lemma finish_holds:
  assumes base: "holds Z base bb" and adds: "length adds = length ab"
      "\<And>i. i < length ab \<Longrightarrow> store_holds Z (adds ! i) (ab ! i)"
    and ok: "\<forall>s \<in> set ss. seg_ok bb ab s" and t: "sum_list (map fs_len ss) = t" "t < W64"
  shows "\<exists>qs. finish base adds t ss = Inr (DeltaSource base adds qs t) \<and>
    holds Z (DeltaSource base adds qs t) (flat_bytes bb ab ss)"
proof -
  obtain qs t' where qs: "place 0 ss = (qs, t')" by force
  with place_spec [of 0 ss qs t' bb ab] t
  have p: "t' = t" "placed 0 qs" "map fs_len qs = map fs_len ss"
    "map (seg_bytes bb ab) qs = map (seg_bytes bb ab) ss" "\<forall>s \<in> set qs. seg_ok bb ab s"
    using ok by auto
  then have "flat_bytes bb ab qs = flat_bytes bb ab ss" by (simp add: flat_bytes_def)
  moreover have "holds Z (DeltaSource base adds qs t) (flat_bytes bb ab qs)"
    by (rule holds_delta) (use assms p in auto)
  ultimately show ?thesis using qs p(1) by (auto simp: finish_def)
qed

text \<open>A piece of a segment is a segment, with that piece of the content.\<close>

lemma seg_piece:
  assumes ok: "seg_ok bb ab bs" and small: "length bb < W64" "\<forall>a \<in> set ab. length a < W64"
    and k: "0 < k" "d + k \<le> fs_len bs"
  defines "s \<equiv> \<lparr>targetOff = 0, fs_len = k, fs_srcOff = u64 (fs_srcOff bs + d),
    fs_addSrc = fs_addSrc bs, fs_kind = fs_kind bs\<rparr>"
  shows "seg_ok bb ab s \<and> seg_bytes bb ab s = clip (seg_bytes bb ab bs) k d"
proof -
  have u: "u64 (fs_srcOff bs + d) = fs_srcOff bs + d"
  proof (rule u64_id)
    show "fs_srcOff bs + d < W64"
    proof (cases "fs_kind bs = KIND_COPY")
      case True
      with ok k small(1) show ?thesis by (simp add: seg_ok_def)
    next
      case False
      with ok have "fs_srcOff bs + fs_len bs \<le> length (ab ! fs_addSrc bs)" "fs_addSrc bs < length ab"
        by (simp_all add: seg_ok_def)
      moreover from this(2) have "length (ab ! fs_addSrc bs) < W64" using small(2) by simp
      ultimately show ?thesis using k by linarith
    qed
  qed
  show ?thesis
    unfolding s_def u
    using ok k by (auto simp: seg_ok_def seg_bytes_def clip_def drop_take min_absorb1 add.commute)
qed

lemma compose_copy_ok:
  assumes ok: "\<forall>s \<in> set B. seg_ok bb ab s" and pl: "placed 0 B"
    and small: "length (flat_bytes bb ab B) < W64" "length bb < W64" "\<forall>a \<in> set ab. length a < W64"
    and "m + rem \<le> length (flat_bytes bb ab B)"
    and "0 < rem \<Longrightarrow> bi < length B \<and> targetOff (B ! bi) \<le> m \<and> m < targetOff (B ! bi) + fs_len (B ! bi)"
  shows "\<exists>fs. compose_copy B m rem bi acc = Inr (acc @ fs) \<and> (\<forall>s \<in> set fs. seg_ok bb ab s) \<and>
    flat_bytes bb ab fs = clip (flat_bytes bb ab B) rem m"
  using assms(6-)
proof (induction "length B - bi" arbitrary: m rem bi acc rule: less_induct)
  case less
  let ?M = "flat_bytes bb ab B"
  show ?case
  proof (cases "0 < rem")
    case False
    then show ?thesis
      by (intro exI [of _ "[]"]) (simp add: compose_copy.simps [of B m 0 bi acc] flat_bytes_def clip_def)
  next
    case True
    let ?bs = "B ! bi"
    let ?fin = "targetOff ?bs + fs_len ?bs"
    from less.prems(2) [OF True] have bi: "bi < length B" "targetOff ?bs \<le> m" "m < ?fin" by auto
    have lM: "length ?M = sum_list (map fs_len B)" by (rule length_flat_bytes [OF ok])
    have endle: "?fin \<le> length ?M"
      using placed_next [OF pl bi(1)] sum_take_le [of fs_len "Suc bi" B] lM by simp
    have u: "u64 ?fin = ?fin" "u64 (m + rem) = m + rem"
      using endle less.prems(1) small(1) by simp_all
    let ?tk = "min ?fin (m + rem) - m"
    have tk: "sub64 (min ?fin (m + rem)) m = ?tk"
      by (rule sub64_eq) (use bi(3) True endle small(1) in auto)
    have tk': "0 < ?tk" "?tk \<le> rem" "m - targetOff ?bs + ?tk \<le> fs_len ?bs" "m + ?tk \<le> ?fin"
      using bi True by auto
    have nxt: "u64 (m + ?tk) = m + ?tk" "sub64 rem ?tk = rem - ?tk"
      using tk' less.prems(1) endle small(1) by (auto intro!: u64_id sub64_eq)
    have mn: "u64 (min ?fin (m + rem)) = min ?fin (m + rem)"
      using endle less.prems(1) small(1) by (intro u64_id) linarith
    let ?s = "\<lparr>targetOff = 0, fs_len = ?tk, fs_srcOff = u64 (fs_srcOff ?bs + (m - targetOff ?bs)),
      fs_addSrc = fs_addSrc ?bs, fs_kind = fs_kind ?bs\<rparr>"
    have piece: "seg_ok bb ab ?s \<and> seg_bytes bb ab ?s = clip (seg_bytes bb ab ?bs) ?tk (m - targetOff ?bs)"
      by (rule seg_piece) (use ok bi small tk' in auto)
    have slice: "clip (seg_bytes bb ab ?bs) ?tk (m - targetOff ?bs) = clip ?M ?tk m"
      by (rule flat_slice [OF ok pl bi(1,2) tk'(4)])
    have "\<exists>fs. compose_copy B (m + ?tk) (rem - ?tk) (Suc bi) (acc @ [?s]) = Inr ((acc @ [?s]) @ fs) \<and>
        (\<forall>s \<in> set fs. seg_ok bb ab s) \<and> flat_bytes bb ab fs = clip ?M (rem - ?tk) (m + ?tk)"
    proof (rule less.hyps)
      show "length B - Suc bi < length B - bi" using bi(1) by simp
      show "m + ?tk + (rem - ?tk) \<le> length ?M" using tk'(2) less.prems(1) by simp
      assume more: "0 < rem - ?tk"
      then have e: "m + ?tk = ?fin" using bi(3) by auto
      have "Suc bi < length B"
      proof (rule ccontr)
        assume "\<not> Suc bi < length B"
        then have "?fin = length ?M" using placed_next [OF pl bi(1)] lM by simp
        then show False using e more less.prems(1) by linarith
      qed
      then show "Suc bi < length B \<and> targetOff (B ! Suc bi) \<le> m + ?tk \<and>
          m + ?tk < targetOff (B ! Suc bi) + fs_len (B ! Suc bi)"
        using e placed_nth [OF pl, of "Suc bi"] placed_next [OF pl bi(1)] ok by (simp add: seg_ok_def)
    qed
    then obtain fs where fs: "compose_copy B (m + ?tk) (rem - ?tk) (Suc bi) (acc @ [?s]) = Inr ((acc @ [?s]) @ fs)"
      "\<forall>s \<in> set fs. seg_ok bb ab s" "flat_bytes bb ab fs = clip ?M (rem - ?tk) (m + ?tk)" by blast
    have sub: "sub64 m (targetOff ?bs) = m - targetOff ?bs"
      using bi(2,3) endle small(1) by simp
    have "compose_copy B m rem bi acc = Inr (acc @ ?s # fs)"
      using True bi fs(1) by (subst compose_copy.simps) (simp add: Let_def u tk nxt sub mn)
    moreover have "flat_bytes bb ab (?s # fs) = clip ?M rem m"
      using piece slice fs(3) clip_append [of ?M ?tk m "rem - ?tk"] tk'(2)
      by (simp add: flat_bytes_def)
    ultimately show ?thesis using piece fs(2) by (intro exI [of _ "?s # fs"]) simp
  qed
qed

lemma seg_ok_snoc: "seg_ok bb ab s \<Longrightarrow> seg_ok bb (ab @ [a]) s \<and> seg_bytes bb (ab @ [a]) s = seg_bytes bb ab s"
  by (auto simp: seg_ok_def seg_bytes_def nth_append split: if_splits)

lemma flat_bytes_snoc:
  "\<forall>s \<in> set ss. seg_ok bb ab s \<Longrightarrow> flat_bytes bb (ab @ [a]) ss = flat_bytes bb ab ss"
  by (induction ss) (simp_all add: flat_bytes_def seg_ok_snoc)

text \<open>
  The composition of a whole delta: the flat map it makes over the ultimate base denotes what
  the delta denotes over the content of the immediate base.
\<close>

lemma compose_segs_ok:
  assumes ok: "\<forall>s \<in> set B. seg_ok bb ab s" and pl: "placed 0 B"
    and small: "length (flat_bytes bb ab B) < W64" "length bb < W64" "\<forall>a \<in> set ab. length a < W64"
    and raw: "\<forall>s \<in> set ss. raw_ok (flat_bytes bb ab B) a s"
  shows "\<exists>fs. compose_segs B (length ab) ss acc = Inr (acc @ fs) \<and>
    (\<forall>s \<in> set fs. seg_ok bb (ab @ [a]) s) \<and>
    flat_bytes bb (ab @ [a]) fs = delta_bytes (flat_bytes bb ab B) a ss"
  using raw
proof (induction ss arbitrary: acc)
  case Nil
  then show ?case by (simp add: flat_bytes_def delta_bytes_def)
next
  case (Cons s ss)
  let ?M = "flat_bytes bb ab B"
  have s: "raw_ok ?M a s" and ss: "\<forall>s \<in> set ss. raw_ok ?M a s" using Cons.prems by auto
  show ?case
  proof (cases "rs_kind s = KIND_ADD")
    case True
    let ?f = "\<lparr>targetOff = 0, fs_len = rs_len s, fs_srcOff = rs_srcOff s, fs_addSrc = length ab,
      fs_kind = KIND_ADD\<rparr>"
    obtain fs where fs: "compose_segs B (length ab) ss (acc @ [?f]) = Inr ((acc @ [?f]) @ fs)"
      "\<forall>s \<in> set fs. seg_ok bb (ab @ [a]) s" "flat_bytes bb (ab @ [a]) fs = delta_bytes ?M a ss"
      using Cons.IH [OF ss, of "acc @ [?f]"] by blast
    have "seg_ok bb (ab @ [a]) ?f" "seg_bytes bb (ab @ [a]) ?f = raw_bytes ?M a s"
      using s True by (auto simp: raw_ok_def seg_ok_def seg_bytes_def raw_bytes_def KIND_ADD_def KIND_COPY_def)
    with True fs show ?thesis
      by (intro exI [of _ "?f # fs"]) (simp add: flat_bytes_def delta_bytes_def)
  next
    case False
    with s have c: "rs_srcOff s + rs_len s \<le> length ?M" "0 < rs_len s" by (auto simp: raw_ok_def)
    have "rs_srcOff s < sum_list (map fs_len B)" using c length_flat_bytes [OF ok] by simp
    from SegAt_covers [OF pl this] obtain gs where gs:
      "compose_copy B (rs_srcOff s) (rs_len s) (SegAt B (rs_srcOff s)) acc = Inr (acc @ gs)"
      "\<forall>s \<in> set gs. seg_ok bb ab s" "flat_bytes bb ab gs = clip ?M (rs_len s) (rs_srcOff s)"
      using compose_copy_ok [OF ok pl small c(1)] by blast
    obtain fs where fs: "compose_segs B (length ab) ss (acc @ gs) = Inr ((acc @ gs) @ fs)"
      "\<forall>s \<in> set fs. seg_ok bb (ab @ [a]) s" "flat_bytes bb (ab @ [a]) fs = delta_bytes ?M a ss"
      using Cons.IH [OF ss, of "acc @ gs"] by blast
    have "flat_bytes bb (ab @ [a]) gs = raw_bytes ?M a s"
      using flat_bytes_snoc [OF gs(2), of a] gs(3) False by (simp add: raw_bytes_def)
    with False fs gs(1,2) show ?thesis
      by (intro exI [of _ "gs @ fs"])
        (auto simp: flat_bytes_append delta_bytes_def seg_ok_snoc)
  qed
qed

lemma direct_segs_ok:
  assumes "\<forall>s \<in> set ss. raw_ok m a s"
  shows "(\<forall>s \<in> set (map direct_seg ss). seg_ok m [a] s) \<and>
    flat_bytes m [a] (map direct_seg ss) = delta_bytes m a ss"
  using assms
  by (induction ss)
    (auto simp: flat_bytes_def delta_bytes_def direct_seg_def raw_ok_def seg_ok_def seg_bytes_def
      raw_bytes_def KIND_ADD_def KIND_COPY_def)

text \<open>The source's ultimate base is not itself a delta: what \<^verbatim>\<open>Create\<close> keeps true.\<close>

fun is_delta :: "source \<Rightarrow> bool" where
  "is_delta (DeltaSource _ _ _ _) = True"
| "is_delta _ = False"

fun flat :: "source \<Rightarrow> bool" where
  "flat (DeltaSource base _ _ _) = (\<not> is_delta base)"
| "flat _ = True"

lemma Create_ok:
  assumes P: "ParseDelta Z (pread Z delta) = Inr P"
    and base: "holds Z b m" and size: "baseSize P = length m"
    and add: "store_holds Z (AddSource delta (add_regionOff P) (add_blockSize P) (add_blocks P)) a"
    and raw: "\<forall>s \<in> set (segs P). raw_ok m a s"
    and total: "sum_list (map rs_len (segs P)) = targetSize P" "targetSize P < W64"
  shows "\<exists>s. Create Z delta (Some b) False = Inr s \<and> holds Z s (delta_bytes m a (segs P)) \<and> is_delta s"
proof (cases "is_delta b")
  case True
  then obtain ub adds B t where b: "b = DeltaSource ub adds B t" by (cases b) auto
  from base [unfolded b] obtain bb ab where h: "holds Z ub bb" "length adds = length ab"
    "\<And>i. i < length ab \<Longrightarrow> store_holds Z (adds ! i) (ab ! i)" "\<forall>s \<in> set B. seg_ok bb ab s"
    "placed 0 B" "m = flat_bytes bb ab B"
    by (auto elim: holds_deltaE)
  have "\<forall>x \<in> set ab. length x < W64" using h(3) holds_correct(2) by (metis in_set_conv_nth)
  then obtain fs where fs: "compose_segs B (length ab) (segs P) [] = Inr fs"
    "\<forall>s \<in> set fs. seg_ok bb (ab @ [a]) s" "flat_bytes bb (ab @ [a]) fs = delta_bytes m a (segs P)"
    using compose_segs_ok [OF h(4,5), where a = a and ss = "segs P" and acc = "[]"] holds_small [OF h(1)] holds_small [OF base]
      raw h(6) by auto
  let ?adds = "adds @ [AddSource delta (add_regionOff P) (add_blockSize P) (add_blocks P)]"
  have "sum_list (map fs_len fs) = targetSize P"
    using length_flat_bytes [OF fs(2)] length_delta_bytes [OF raw] fs(3) total(1) by simp
  then have "\<exists>qs. finish ub ?adds (targetSize P) fs = Inr (DeltaSource ub ?adds qs (targetSize P)) \<and>
      holds Z (DeltaSource ub ?adds qs (targetSize P)) (flat_bytes bb (ab @ [a]) fs)"
    by (intro finish_holds) (use h fs(2) add total(2) in \<open>auto simp: nth_append less_Suc_eq\<close>)
  then show ?thesis
    using P size holds_correct(1) [OF base] h(2) fs
    by (auto simp: Create_def Let_def b)
next
  case False
  let ?adds = "[AddSource delta (add_regionOff P) (add_blockSize P) (add_blocks P)]"
  let ?fs = "map direct_seg (segs P)"
  note d = direct_segs_ok [OF raw]
  have "sum_list (map fs_len ?fs) = targetSize P"
    using length_flat_bytes [OF conjunct1 [OF d]] length_delta_bytes [OF raw] d total(1) by simp
  then have "\<exists>qs. finish b ?adds (targetSize P) ?fs = Inr (DeltaSource b ?adds qs (targetSize P)) \<and>
      holds Z (DeltaSource b ?adds qs (targetSize P)) (flat_bytes m [a] ?fs)"
    by (intro finish_holds) (use base d add total(2) in auto)
  then show ?thesis
    using P size holds_correct(1) [OF base] d False
    by (cases b) (auto simp: Create_def Let_def)
qed

end
