(* ===== verification/DeltaGen.thy ===== *)
theory DeltaGen
  imports DeltaCorrect
begin

text \<open>
  \<^verbatim>\<open>GenerateDelta\<close>: the rolling-hash matcher, the literal stream cut into compressed
  blocks, and the file. Lengths and positions are those of buffers in memory, so their
  arithmetic does not wrap. The two scratch files are buffers of the model; whether each
  operation on them succeeds is given by \<open>scratch_env\<close>, because a failure ends the
  generation with the empty vector.
\<close>

section \<open>Scratch files and progress\<close>

record scratch_env =
  se_lit_open :: bool
  se_lit_write :: "nat \<Rightarrow> bool"
  se_lit_close :: bool
  se_cmp_open :: bool
  se_lit_read :: "nat \<Rightarrow> bool"
  se_cmp_write :: "nat \<Rightarrow> bool"
  se_cmp_close :: bool
  se_cmp_read :: bool

text \<open>\<^verbatim>\<open>ProgressFn(stage, done, total)\<close>; \<open>None\<close> is the empty function.\<close>

type_synonym progress_fn = "(nat \<Rightarrow> nat \<Rightarrow> nat \<Rightarrow> bool) option"

definition goes_on :: "progress_fn \<Rightarrow> nat \<Rightarrow> nat \<Rightarrow> nat \<Rightarrow> bool" where
  "goes_on progress stage at whole = (case progress of None \<Rightarrow> True | Some f \<Rightarrow> f stage at whole)"

section \<open>The rolling hash\<close>

definition ANCHOR :: nat where "ANCHOR = 256"
definition RK_R :: "64 word" where "RK_R = 131"

function powr_loop :: "nat \<Rightarrow> 64 word \<Rightarrow> 64 word \<Rightarrow> 64 word" where
  "powr_loop exp r b =
     (if exp \<noteq> 0 then powr_loop (exp div 2) (if odd exp then r * b else r) (b * b) else r)"
  by pat_completeness auto
termination
  by (relation "measure (\<lambda>(exp, r, b). exp)") auto

declare powr_loop.simps [simp del]

definition PowR :: "nat \<Rightarrow> 64 word" where
  "PowR exp = powr_loop exp 1 RK_R"

definition HashWin :: "bytes \<Rightarrow> 64 word" where
  "HashWin p = fold (\<lambda>i h. h * RK_R + ucast (p ! i)) [0..<ANCHOR] 0"

text \<open>The index of the base: the first anchor-aligned window of each hash (\<^verbatim>\<open>emplace\<close>).\<close>

function index_loop :: "bytes \<Rightarrow> nat \<Rightarrow> (64 word \<rightharpoonup> nat) \<Rightarrow> (64 word \<rightharpoonup> nat)" where
  "index_loop base o' index =
     (if o' + ANCHOR \<le> length base then
        let h = HashWin (drop o' base) in
        index_loop base (o' + ANCHOR) (if index h = None then index(h \<mapsto> o') else index)
      else index)"
  by pat_completeness auto
termination
  by (relation "measure (\<lambda>(base, o', index). length base - o')") (auto simp: ANCHOR_def)

declare index_loop.simps [simp del]

definition build_index :: "bytes \<Rightarrow> (64 word \<rightharpoonup> nat)" where
  "build_index base = (if length base \<ge> ANCHOR then index_loop base 0 Map.empty else Map.empty)"

section \<open>The matcher\<close>

function ext_len :: "bytes \<Rightarrow> bytes \<Rightarrow> nat \<Rightarrow> nat \<Rightarrow> nat \<Rightarrow> nat" where
  "ext_len base target o' p len =
     (if o' + len < length base \<and> p + len < length target \<and> base ! (o' + len) = target ! (p + len)
      then ext_len base target o' p (len + 1) else len)"
  by pat_completeness auto
termination
  by (relation "measure (\<lambda>(base, target, o', p, len). length base - len)") auto

declare ext_len.simps [simp del]

lemma ext_len_ge: "len \<le> ext_len base target o' p len"
  by (induction base target o' p len rule: ext_len.induct) (subst ext_len.simps, auto)

lemma ext_len_pos [simp]: "0 < ext_len base target o' p ANCHOR" "0 < ext_len base target o' p 256"
  using ext_len_ge [of 256 base target o' p] by (simp_all add: ANCHOR_def)

function ext_back :: "bytes \<Rightarrow> bytes \<Rightarrow> nat \<Rightarrow> nat \<Rightarrow> nat \<Rightarrow> nat \<Rightarrow> nat" where
  "ext_back base target o' p litStart back =
     (if back < p - litStart \<and> o' > back \<and> base ! (o' - 1 - back) = target ! (p - 1 - back)
      then ext_back base target o' p litStart (back + 1) else back)"
  by pat_completeness auto
termination
  by (relation "measure (\<lambda>(base, target, o', p, litStart, back). o' - back)") auto

declare ext_back.simps [simp del]

record gen_state =
  g_segs :: "raw_seg list"
  g_lit :: bytes
  g_spillOk :: bool

definition emitAdd :: "scratch_env \<Rightarrow> bytes \<Rightarrow> nat \<Rightarrow> nat \<Rightarrow> gen_state \<Rightarrow> gen_state" where
  "emitAdd E target from to' g =
     (if to' \<le> from then g
      else \<lparr>g_segs = g_segs g @ [\<lparr>rs_kind = KIND_ADD, rs_len = to' - from, rs_srcOff = length (g_lit g)\<rparr>],
            g_lit = g_lit g @ clip target (to' - from) from,
            g_spillOk = (se_lit_write E (length (g_lit g)) \<and> g_spillOk g)\<rparr>)"

definition kPollEvery :: nat where "kPollEvery = 4 * 2 ^ 20"

definition found_at :: "bytes \<Rightarrow> bytes \<Rightarrow> (64 word \<rightharpoonup> nat) \<Rightarrow> 64 word \<Rightarrow> nat \<Rightarrow> nat option" where
  "found_at base target index h p =
     (case index h of
        None \<Rightarrow> None
      | Some o' \<Rightarrow> if o' + ANCHOR \<le> length base \<and> clip base ANCHOR o' = clip target ANCHOR p
                   then Some o' else None)"

text \<open>
  The scan loop; \<open>None\<close> when the caller aborts. A hit emits the pending literals and a COPY
  grown in both directions, a miss rolls the hash by one byte.
\<close>

function scan ::
  "scratch_env \<Rightarrow> progress_fn \<Rightarrow> bytes \<Rightarrow> bytes \<Rightarrow> (64 word \<rightharpoonup> nat) \<Rightarrow> 64 word \<Rightarrow>
   nat \<Rightarrow> nat \<Rightarrow> 64 word \<Rightarrow> nat \<Rightarrow> gen_state \<Rightarrow> (nat \<times> gen_state) option" where
  "scan E progress base target index Rhi p litStart h nextPoll g =
     (if p + ANCHOR \<le> length target then
        if p \<ge> nextPoll \<and> \<not> goes_on progress 0 p (length target) then None
        else
          let nextPoll = (if progress \<noteq> None \<and> p \<ge> nextPoll then p + kPollEvery else nextPoll) in
          (case found_at base target index h p of
             Some o' \<Rightarrow>
               let len = ext_len base target o' p ANCHOR;
                   back = ext_back base target o' p litStart 0;
                   g = emitAdd E target litStart (p - back) g;
                   g = g\<lparr>g_segs := g_segs g @ [\<lparr>rs_kind = KIND_COPY, rs_len = len + back,
                     rs_srcOff = o' - back\<rparr>]\<rparr>;
                   p' = p + len
               in scan E progress base target index Rhi p' p'
                    (if p' + ANCHOR \<le> length target then HashWin (drop p' target) else h) nextPoll g
           | None \<Rightarrow>
               scan E progress base target index Rhi (p + 1) litStart
                 (if p + ANCHOR < length target
                  then (h - ucast (target ! p) * Rhi) * RK_R + ucast (target ! (p + ANCHOR)) else h)
                 nextPoll g)
      else Some (litStart, g))"
  by pat_completeness auto
termination
  by (relation "measure (\<lambda>(E, progress, base, target, index, Rhi, p, litStart, h, nextPoll, g).
      length target - p)") (auto simp: ANCHOR_def intro!: diff_less_mono2)

declare scan.simps [simp del]

section \<open>The ADD region\<close>

function compress_blocks ::
  "zstd \<Rightarrow> scratch_env \<Rightarrow> progress_fn \<Rightarrow> nat \<Rightarrow> bytes \<Rightarrow> nat \<Rightarrow> block_rec list \<Rightarrow> bytes \<Rightarrow>
   (block_rec list \<times> bytes) option" where
  "compress_blocks Z E progress blockSize lit o' blocks region =
     (if o' < length lit \<and> 0 < blockSize then
        if \<not> goes_on progress 1 o' (length lit) then None
        else
          let ul = min blockSize (length lit - o') in
          if \<not> se_lit_read E o' then None
          else
            let c = ZCompress Z (clip lit ul o') 19;
                blocks = blocks @ [\<lparr>compOff = length region, compLen = length c mod 2 ^ 32, uncompLen = ul\<rparr>]
            in if \<not> se_cmp_write E (length region) then None
               else compress_blocks Z E progress blockSize lit (o' + blockSize) blocks (region @ c)
      else Some (blocks, region))"
  by pat_completeness auto
termination
  by (relation "measure (\<lambda>(Z, E, progress, blockSize, lit, o', blocks, region). length lit - o')") auto

declare compress_blocks.simps [simp del]

section \<open>GenerateDelta\<close>

definition scan_all :: "scratch_env \<Rightarrow> progress_fn \<Rightarrow> bytes \<Rightarrow> bytes \<Rightarrow> gen_state option" where
  "scan_all E progress base target =
     (let g0 = \<lparr>g_segs = [], g_lit = [], g_spillOk = True\<rparr> in
      case (if length target \<ge> ANCHOR
            then scan E progress base target (build_index base) (PowR (ANCHOR - 1)) 0 0 (HashWin target) 0 g0
            else Some (0, g0)) of
        None \<Rightarrow> None
      | Some (litStart, g) \<Rightarrow> Some (emitAdd E target litStart (length target) g))"

definition GenerateDelta ::
  "zstd \<Rightarrow> scratch_env \<Rightarrow> bytes \<Rightarrow> bytes \<Rightarrow> nat \<Rightarrow> progress_fn \<Rightarrow> bytes" where
  "GenerateDelta Z E base target blockSize0 progress =
     (let blockSize = (if blockSize0 = 0 then DEFAULT_BLOCK else blockSize0) in
      if \<not> se_lit_open E then []
      else
        (case scan_all E progress base target of
           None \<Rightarrow> []
         | Some g \<Rightarrow>
             if \<not> se_lit_close E \<or> \<not> g_spillOk g then []
             else if \<not> se_cmp_open E then []
             else
               (case compress_blocks Z E progress blockSize (g_lit g) 0 [] [] of
                  None \<Rightarrow> []
                | Some (blocks, region) \<Rightarrow>
                    if \<not> se_cmp_close E then []
                    else if \<not> se_cmp_read E then []
                    else serialize Z blockSize (length target) (length base) (Fnv1a64 base)
                           (g_segs g) blocks region)))"

end
