(* ===== verification/DeltaRoll.thy ===== *)
theory DeltaRoll
  imports DeltaGen
begin

text \<open>
  The matcher of \<^verbatim>\<open>GenerateDelta\<close>: the rolled hash is at every position the hash of the
  window there, so the scan equals one that hashes every window anew; and whatever the
  scan emits, its segments spell the target read so far.
\<close>

section \<open>The rolling hash\<close>

definition poly_hash :: "nat \<Rightarrow> bytes \<Rightarrow> 64 word" where
  "poly_hash n p = fold (\<lambda>i h. h * RK_R + ucast (p ! i)) [0..<n] 0"

lemma HashWin_poly: "HashWin p = poly_hash ANCHOR p"
  by (simp add: HashWin_def poly_hash_def)

lemma poly_hash_0 [simp]: "poly_hash 0 p = 0"
  by (simp add: poly_hash_def)

lemma poly_hash_Suc: "poly_hash (Suc n) p = poly_hash n p * RK_R + ucast (p ! n)"
  by (simp add: poly_hash_def)

lemma poly_hash_front:
  "n < length p \<Longrightarrow> poly_hash (Suc n) p = ucast (p ! 0) * RK_R ^ n + poly_hash n (drop 1 p)"
  by (induction n) (simp_all add: poly_hash_Suc algebra_simps)

lemma powr_loop_eq: "powr_loop e r b = r * b ^ e"
proof (induction e r b rule: powr_loop.induct)
  case (1 e r b)
  have "b ^ e = (b * b) ^ (e div 2) * (if odd e then b else 1)"
    by (cases "even e") (auto elim!: evenE oddE simp: power_mult_distrib power_add mult_2 mult_2_right algebra_simps)
  then show ?case by (subst powr_loop.simps) (use 1 in \<open>auto simp: algebra_simps\<close>)
qed

lemma PowR_eq: "PowR e = RK_R ^ e"
  by (simp add: PowR_def powr_loop_eq)

lemma roll_hash:
  assumes "p + ANCHOR < length t"
  shows "(HashWin (drop p t) - ucast (t ! p) * PowR (ANCHOR - 1)) * RK_R + ucast (t ! (p + ANCHOR)) =
    HashWin (drop (p + 1) t)"
proof -
  define n :: nat where "n = ANCHOR - 1"
  have A: "ANCHOR = Suc n" by (simp add: n_def ANCHOR_def)
  have front: "poly_hash (Suc n) (drop p t) = ucast (t ! p) * RK_R ^ n + poly_hash n (drop (p + 1) t)"
    using poly_hash_front [of n "drop p t"] assms by (simp add: A add.commute)
  have shifted: "poly_hash (Suc n) (drop (p + 1) t) =
      poly_hash n (drop (p + 1) t) * RK_R + ucast (t ! (p + Suc n))"
    using assms by (simp add: poly_hash_Suc A)
  have "PowR (ANCHOR - 1) = RK_R ^ n" by (simp add: PowR_eq n_def)
  then show ?thesis using front shifted by (simp add: HashWin_poly A algebra_simps)
qed

text \<open>The scan that computes the hash of the window from scratch at every position.\<close>

function scan_ref ::
  "scratch_env \<Rightarrow> progress_fn \<Rightarrow> bytes \<Rightarrow> bytes \<Rightarrow> (64 word \<rightharpoonup> nat) \<Rightarrow>
   nat \<Rightarrow> nat \<Rightarrow> nat \<Rightarrow> gen_state \<Rightarrow> (nat \<times> gen_state) option" where
  "scan_ref E progress base target index p litStart nextPoll g =
     (if p + ANCHOR \<le> length target then
        if p \<ge> nextPoll \<and> \<not> goes_on progress 0 p (length target) then None
        else
          let nextPoll = (if progress \<noteq> None \<and> p \<ge> nextPoll then p + kPollEvery else nextPoll) in
          (case found_at base target index (HashWin (drop p target)) p of
             Some o' \<Rightarrow>
               let len = ext_len base target o' p ANCHOR;
                   back = ext_back base target o' p litStart 0;
                   g = emitAdd E target litStart (p - back) g;
                   g = g\<lparr>g_segs := g_segs g @ [\<lparr>rs_kind = KIND_COPY, rs_len = len + back,
                     rs_srcOff = o' - back\<rparr>]\<rparr>
               in scan_ref E progress base target index (p + len) (p + len) nextPoll g
           | None \<Rightarrow> scan_ref E progress base target index (p + 1) litStart nextPoll g)
      else Some (litStart, g))"
  by pat_completeness auto
termination
  by (relation "measure (\<lambda>(E, progress, base, target, index, p, litStart, nextPoll, g).
      length target - p)") (auto simp: ANCHOR_def intro!: diff_less_mono2)

declare scan_ref.simps [simp del]

lemma scan_rolls:
  assumes "p + ANCHOR \<le> length target \<longrightarrow> h = HashWin (drop p target)"
  shows "scan E progress base target index (PowR (ANCHOR - 1)) p litStart h nextPoll g =
    scan_ref E progress base target index p litStart nextPoll g"
  using assms
proof (induction E progress base target index p litStart nextPoll g arbitrary: h rule: scan_ref.induct)
  case (1 E progress base target index p litStart nextPoll g)
  show ?case
  proof (cases "p + ANCHOR \<le> length target")
    case False
    then show ?thesis by (subst scan.simps, subst scan_ref.simps) simp
  next
    case True
    then have h: "h = HashWin (drop p target)" using "1.prems" by simp
    have roll: "p + 1 + ANCHOR \<le> length target \<longrightarrow>
        (if p + ANCHOR < length target
         then (h - ucast (target ! p) * PowR (ANCHOR - 1)) * RK_R + ucast (target ! (p + ANCHOR)) else h) =
        HashWin (drop (p + 1) target)"
      using roll_hash [of p target] by (simp add: h)
    define np where "np = (if progress \<noteq> None \<and> p \<ge> nextPoll then p + kPollEvery else nextPoll)"
    show ?thesis
    proof (cases "p \<ge> nextPoll \<and> \<not> goes_on progress 0 p (length target)")
      case stop: True
      then show ?thesis using True by (subst scan.simps, subst scan_ref.simps) simp
    next
      case go: False
      show ?thesis
      proof (cases "found_at base target index (HashWin (drop p target)) p")
        case None
        note IH = "1.IH"(1) [OF True go np_def None roll]
        show ?thesis
          using True go None IH
          by (subst scan.simps, subst scan_ref.simps) (simp add: h Let_def np_def cong: if_cong)
      next
        case (Some o')
        note IH = "1.IH"(2) [OF True go np_def Some refl refl refl refl]
        show ?thesis
          using True go Some IH
          by (subst scan.simps, subst scan_ref.simps) (simp add: h Let_def np_def cong: if_cong)
      qed
    qed
  qed
qed

section \<open>What a match is\<close>

definition agree :: "bytes \<Rightarrow> bytes \<Rightarrow> nat \<Rightarrow> nat \<Rightarrow> nat \<Rightarrow> bool" where
  "agree base target o' p n \<longleftrightarrow> o' + n \<le> length base \<and> p + n \<le> length target \<and>
     clip base n o' = clip target n p"

lemma agree_iff: "agree base target o' p n \<longleftrightarrow> o' + n \<le> length base \<and> p + n \<le> length target \<and>
    (\<forall>i < n. base ! (o' + i) = target ! (p + i))"
proof -
  have "o' + n \<le> length base \<Longrightarrow> p + n \<le> length target \<Longrightarrow>
      clip base n o' = clip target n p \<longleftrightarrow> (\<forall>i < n. base ! (o' + i) = target ! (p + i))"
    by (auto simp: list_eq_iff_nth_eq clip_def)
  then show ?thesis by (auto simp: agree_def)
qed

lemma ext_len_agree:
  "agree base target o' p len \<Longrightarrow> agree base target o' p (ext_len base target o' p len)"
proof (induction base target o' p len rule: ext_len.induct)
  case (1 base target o' p len)
  show ?case
    by (subst ext_len.simps) (use 1 in \<open>auto simp: agree_iff less_Suc_eq\<close>)
qed

lemma ext_back_agree:
  assumes "agree base target (o' - back) (p - back) back" "back \<le> o'" "back \<le> p - litStart" "p \<le> length target"
    "o' \<le> length base"
  shows "let b = ext_back base target o' p litStart back in
    agree base target (o' - b) (p - b) b \<and> b \<le> o' \<and> b \<le> p - litStart"
  using assms
proof (induction base target o' p litStart "back" rule: ext_back.induct)
  case (1 base target o' p litStart bk)
  show ?case
  proof (cases "bk < p - litStart \<and> o' > bk \<and> base ! (o' - 1 - bk) = target ! (p - 1 - bk)")
    case True
    have "agree base target (o' - (bk + 1)) (p - (bk + 1)) (bk + 1)"
      unfolding agree_iff
    proof (intro conjI allI impI)
      fix i assume "i < bk + 1"
      then show "base ! (o' - (bk + 1) + i) = target ! (p - (bk + 1) + i)"
        using True "1.prems"(1) by (cases i) (auto simp: agree_iff Suc_diff_Suc)
    qed (use True "1.prems" in auto)
    then show ?thesis using True "1.IH" "1.prems" by (subst ext_back.simps) auto
  next
    case False
    then show ?thesis using "1.prems" by (subst ext_back.simps) auto
  qed
qed

lemma found_at_agree:
  assumes "found_at base target index h p = Some o'" "p + ANCHOR \<le> length target"
  shows "agree base target o' p ANCHOR"
  using assms by (auto simp: found_at_def agree_def split: option.splits if_splits)

section \<open>The segments spell the target\<close>

definition gen_inv :: "bytes \<Rightarrow> bytes \<Rightarrow> nat \<Rightarrow> gen_state \<Rightarrow> bool" where
  "gen_inv base target at g \<longleftrightarrow> at \<le> length target \<and>
     delta_bytes base (g_lit g) (g_segs g) = take at target \<and>
     (\<forall>s \<in> set (g_segs g). raw_ok base (g_lit g) s) \<and> length (g_lit g) \<le> at"

lemma raw_ok_lit_mono: "raw_ok m a s \<Longrightarrow> raw_ok m (a @ x) s \<and> raw_bytes m (a @ x) s = raw_bytes m a s"
  by (auto simp: raw_ok_def raw_bytes_def clip_def KIND_ADD_def KIND_COPY_def)

lemma delta_bytes_lit_mono:
  assumes "\<forall>s \<in> set ss. raw_ok m a s" shows "delta_bytes m (a @ x) ss = delta_bytes m a ss"
  unfolding delta_bytes_def
  by (rule arg_cong [where f = concat]) (use assms raw_ok_lit_mono in \<open>auto intro!: map_cong\<close>)

lemma delta_bytes_append: "delta_bytes m a (xs @ ys) = delta_bytes m a xs @ delta_bytes m a ys"
  by (simp add: delta_bytes_def)

lemma take_clip_append: "take at xs @ clip xs n at = take (at + n) xs"
  by (simp add: clip_def take_add)

lemma emitAdd_inv:
  assumes "gen_inv base target at g" "at \<le> to'" "to' \<le> length target"
  shows "gen_inv base target to' (emitAdd E target at to' g)"
    and "length (g_segs (emitAdd E target at to' g)) \<le> Suc (length (g_segs g))"
proof -
  show "gen_inv base target to' (emitAdd E target at to' g)"
  proof (cases "to' \<le> at")
    case True
    then show ?thesis using assms by (simp add: emitAdd_def)
  next
    case False
    define x where "x = clip target (to' - at) at"
    have x: "length x = to' - at" "take at target @ x = take to' target"
      using assms(2,3) take_clip_append [of at target "to' - at"] by (simp_all add: x_def length_clip)
    have "delta_bytes base (g_lit g @ x) (g_segs g) = take at target"
      using assms(1) by (simp add: gen_inv_def delta_bytes_lit_mono)
    then show ?thesis
      using assms False x raw_ok_lit_mono
      by (auto simp: emitAdd_def gen_inv_def delta_bytes_append x_def [symmetric] raw_ok_def [of _ _ "\<lparr>rs_kind = _, rs_len = _, rs_srcOff = _\<rparr>"])
        (auto simp: delta_bytes_def raw_bytes_def clip_def KIND_ADD_def)
  qed
  show "length (g_segs (emitAdd E target at to' g)) \<le> Suc (length (g_segs g))"
    by (simp add: emitAdd_def)
qed

lemma copy_inv:
  assumes "gen_inv base target at g" "0 < n" "agree base target o' at n"
  shows "gen_inv base target (at + n)
    (g\<lparr>g_segs := g_segs g @ [\<lparr>rs_kind = KIND_COPY, rs_len = n, rs_srcOff = o'\<rparr>]\<rparr>)"
  using assms take_clip_append [of at target n]
  by (auto simp: gen_inv_def delta_bytes_append agree_def raw_ok_def)
    (auto simp: delta_bytes_def raw_bytes_def KIND_ADD_def KIND_COPY_def)

end
