(* ===== verification/DeltaRoundTrip.thy ===== *)
theory DeltaRoundTrip
  imports DeltaRoll
begin

text \<open>
  The delta written by \<^verbatim>\<open>GenerateDelta\<close> and composed by \<^verbatim>\<open>DeltaByteSource::Create\<close>
  over any source of the base's bytes reads back as the target, alone and in a chain.
\<close>

section \<open>The scan\<close>

lemma scan_ref_inv:
  assumes "scan_ref E progress base target index p litStart nextPoll g = Some (l, g')"
    and "gen_inv base target litStart g" "litStart \<le> p" "p \<le> length target"
    and "length (g_segs g) * 128 \<le> litStart"
  shows "gen_inv base target l g' \<and> length (g_segs g') * 128 \<le> l"
  using assms
proof (induction E progress base target index p litStart nextPoll g rule: scan_ref.induct)
  case (1 E progress base target index p litStart nextPoll g)
  show ?case
  proof (cases "p + ANCHOR \<le> length target")
    case False
    then show ?thesis using "1.prems" by (simp add: scan_ref.simps)
  next
    case True
    define np where "np = (if progress \<noteq> None \<and> p \<ge> nextPoll then p + kPollEvery else nextPoll)"
    have go: "\<not> (p \<ge> nextPoll \<and> \<not> goes_on progress 0 p (length target))"
      using "1.prems"(1) True by (auto simp: scan_ref.simps [of E progress base target index p] split: if_splits)
    have anchor: "p < length target" using True by (simp add: ANCHOR_def)
    note unf = scan_ref.simps [of E progress base target index p litStart nextPoll g]
    show ?thesis
    proof (cases "found_at base target index (HashWin (drop p target)) p")
      case None
      then show ?thesis
        using "1.IH"(1) [OF True go np_def None] "1.prems" True go anchor
        by (simp add: unf np_def Let_def cong: if_cong)
    next
      case (Some o')
      define n where "n = ext_len base target o' p ANCHOR"
      define b where "b = ext_back base target o' p litStart 0"
      define ga where "ga = emitAdd E target litStart (p - b) g"
      define gc where "gc = ga\<lparr>g_segs := g_segs ga @ [\<lparr>rs_kind = KIND_COPY, rs_len = n + b, rs_srcOff = o' - b\<rparr>]\<rparr>"
      have an: "agree base target o' p n"
        using found_at_agree [OF Some True] ext_len_agree by (simp add: n_def)
      have "agree base target (o' - b) (p - b) b \<and> b \<le> o' \<and> b \<le> p - litStart"
        unfolding b_def
        by (rule ext_back_agree [unfolded Let_def]) (use an "1.prems"(4) in \<open>simp_all add: agree_iff\<close>)
      then have b: "agree base target (o' - b) (p - b) b" "b \<le> o'" "b \<le> p - litStart" by auto
      have whole: "agree base target (o' - b) (p - b) (n + b)"
        unfolding agree_iff
      proof (intro conjI allI impI)
        fix i assume "i < n + b"
        show "base ! (o' - b + i) = target ! (p - b + i)"
        proof (cases "i < b")
          case True then show ?thesis using b(1) by (simp add: agree_iff)
        next
          case False
          then have "i - b < n" using \<open>i < n + b\<close> by simp
          then have "base ! (o' + (i - b)) = target ! (p + (i - b))" using an by (simp add: agree_iff)
          then show ?thesis using False b(2,3) \<open>litStart \<le> p\<close> by simp
        qed
      qed (use an b in \<open>auto simp: agree_iff\<close>)
      have n: "256 \<le> n" using ext_len_ge by (simp add: n_def ANCHOR_def)
      have ga: "gen_inv base target (p - b) ga" "length (g_segs ga) \<le> Suc (length (g_segs g))"
        using emitAdd_inv [of base target litStart g "p - b" E] "1.prems" b(3) by (auto simp: ga_def)
      have gc: "gen_inv base target (p + n) gc"
        using copy_inv [OF ga(1) _ whole] n b(3) "1.prems"(3) by (simp add: gc_def)
      have cnt: "length (g_segs gc) * 128 \<le> p + n"
        using ga(2) n "1.prems"(3,5) by (simp add: gc_def)
      have "p + n \<le> length target" using an by (simp add: agree_iff)
      then show ?thesis
        using "1.IH"(2) [OF True go np_def Some n_def b_def ga_def gc_def] "1.prems"(1) True go Some gc cnt
        by (simp add: unf np_def Let_def n_def b_def ga_def gc_def cong: if_cong)
    qed
  qed
qed

lemma scan_all_inv:
  assumes "scan_all E progress base target = Some g"
  shows "delta_bytes base (g_lit g) (g_segs g) = target" "\<forall>s \<in> set (g_segs g). raw_ok base (g_lit g) s"
    "length (g_lit g) \<le> length target" "length (g_segs g) * 128 \<le> length target + 128"
proof -
  define g0 where "g0 = \<lparr>g_segs = [], g_lit = [], g_spillOk = True\<rparr>"
  have g0: "gen_inv base target 0 g0" by (simp add: g0_def gen_inv_def delta_bytes_def)
  have rolled: "scan E progress base target (build_index base) (PowR (ANCHOR - 1)) 0 0 (HashWin target) 0 g0 =
      scan_ref E progress base target (build_index base) 0 0 0 g0"
    by (rule scan_rolls) simp
  obtain l g' where s: "gen_inv base target l g' \<and> length (g_segs g') * 128 \<le> l"
    and g: "g = emitAdd E target l (length target) g'"
  proof (cases "ANCHOR \<le> length target")
    case False
    then show ?thesis using that [of 0 g0] assms g0
      by (auto simp: scan_all_def g0_def Let_def)
  next
    case True
    then obtain l g' where r: "scan_ref E progress base target (build_index base) 0 0 0 g0 = Some (l, g')"
      "g = emitAdd E target l (length target) g'"
      using assms by (auto simp: scan_all_def Let_def rolled [simplified g0_def, simplified] g0_def split: option.splits)
    show ?thesis using that [OF scan_ref_inv [OF r(1) g0] r(2)] by (simp add: g0_def)
  qed
  have l: "l \<le> length target" using s by (simp add: gen_inv_def)
  have fin: "gen_inv base target (length target) g" "length (g_segs g) \<le> Suc (length (g_segs g'))"
    using emitAdd_inv [of base target l g' "length target" E] s l by (simp_all add: g)
  then show "delta_bytes base (g_lit g) (g_segs g) = target" "\<forall>s \<in> set (g_segs g). raw_ok base (g_lit g) s"
    "length (g_lit g) \<le> length target" "length (g_segs g) * 128 \<le> length target + 128"
    using s l by (auto simp: gen_inv_def)
qed

section \<open>The ADD region\<close>

definition blk_inv :: "zstd \<Rightarrow> bytes \<Rightarrow> nat \<Rightarrow> bytes \<Rightarrow> block_rec list \<Rightarrow> bool" where
  "blk_inv Z lit bsz region blocks \<longleftrightarrow> length region \<le> length blocks * (2 * bsz + 64) \<and>
     (\<forall>b < length blocks. compOff (blocks ! b) + compLen (blocks ! b) \<le> length region \<and>
        ZDecompress Z (clip region (compLen (blocks ! b)) (compOff (blocks ! b))) (uncompLen (blocks ! b)) =
          clip lit bsz (b * bsz) \<and>
        uncompLen (blocks ! b) = length (clip lit bsz (b * bsz)) \<and>
        compLen (blocks ! b) < 2 ^ 32)"

lemma blk_inv_step:
  assumes Z: "zstd_ok Z" and bsz: "0 < bsz" "bsz \<le> 2 ^ 31" and inv: "blk_inv Z lit bsz region blocks"
    and o': "o' = length blocks * bsz" "o' < length lit"
    and ul: "ul = min bsz (length lit - o')" and c: "c = ZCompress Z (clip lit ul o') 19"
    and bs: "bs = blocks @ [\<lparr>compOff = length region, compLen = length c mod 2 ^ 32, uncompLen = ul\<rparr>]"
  shows "blk_inv Z lit bsz (region @ c) bs"
proof -
  have chunk: "clip lit ul o' = clip lit bsz o'" "length (clip lit ul o') = ul"
    by (simp_all add: ul clip_def min_def)
  have len: "length c \<le> ul + ul div 256 + 64" using length_ZCompress [OF Z] chunk by (metis c)
  have ulb: "ul \<le> bsz" by (simp add: ul)
  then have "length c \<le> 2 * bsz + 64" using len by linarith
  from ulb have c32: "length c < 2 ^ 32" using len bsz(2) by simp
  have dec: "ZDecompress Z c ul = clip lit bsz o'" using ZDecompress_ZCompress [OF Z] chunk by (metis c)
  have each: "compOff (bs ! b) + compLen (bs ! b) \<le> length (region @ c) \<and>
       ZDecompress Z (clip (region @ c) (compLen (bs ! b)) (compOff (bs ! b))) (uncompLen (bs ! b)) =
         clip lit bsz (b * bsz) \<and>
       uncompLen (bs ! b) = length (clip lit bsz (b * bsz)) \<and> compLen (bs ! b) < 2 ^ 32"
    if "b < length bs" for b
  proof -
    consider "b < length blocks" | "b = length blocks" using \<open>b < length bs\<close> by (fastforce simp: bs)
    then show ?thesis
    proof cases
      case 1
      then have "clip (region @ c) (compLen (blocks ! b)) (compOff (blocks ! b)) =
          clip region (compLen (blocks ! b)) (compOff (blocks ! b))"
        using inv by (auto simp: blk_inv_def clip_def)
      then show ?thesis using 1 inv by (auto simp: blk_inv_def bs nth_append)
    next
      case 2
      then have "bs ! b = \<lparr>compOff = length region, compLen = length c, uncompLen = ul\<rparr>"
        using c32 by (simp add: bs)
      then show ?thesis using 2 c32 dec chunk by (simp add: o' clip_def)
    qed
  qed
  have "length (region @ c) \<le> length bs * (2 * bsz + 64)"
    using inv \<open>length c \<le> 2 * bsz + 64\<close> by (simp add: blk_inv_def bs)
  then show ?thesis using each unfolding blk_inv_def by blast
qed

lemma compress_blocks_inv:
  assumes "compress_blocks Z E progress bsz lit o' blocks region = Some (bl, rg)"
    and Z: "zstd_ok Z" and bsz: "0 < bsz" "bsz \<le> 2 ^ 31" and "blk_inv Z lit bsz region blocks"
    and "o' = length blocks * bsz" "o' < length lit + bsz"
  shows "blk_inv Z lit bsz rg bl \<and> length lit \<le> length bl * bsz \<and> length bl * bsz < length lit + bsz"
  using assms
proof (induction Z E progress bsz lit o' blocks region rule: compress_blocks.induct)
  case (1 Z E progress bsz lit o' blocks region)
  note unf = compress_blocks.simps [of Z E progress bsz lit o' blocks region]
  show ?case
  proof (cases "o' < length lit")
    case False
    then have "bl = blocks" "rg = region" using "1.prems"(1) by (simp_all add: unf)
    then show ?thesis using False "1.prems"(5-7) by simp
  next
    case True
    define ul where "ul = min bsz (length lit - o')"
    define c where "c = ZCompress Z (clip lit ul o') 19"
    define bs where "bs = blocks @ [\<lparr>compOff = length region, compLen = length c mod 2 ^ 32, uncompLen = ul\<rparr>]"
    have go: "goes_on progress 1 o' (length lit)" "se_lit_read E o'" "se_cmp_write E (length region)"
      using "1.prems"(1,3) True by (auto simp: unf Let_def split: if_splits)
    have rest: "compress_blocks Z E progress bsz lit (o' + bsz) bs (region @ c) = Some (bl, rg)"
      using "1.prems"(1,3) True go by (simp add: unf Let_def ul_def c_def bs_def)
    have step: "blk_inv Z lit bsz (region @ c) bs"
      by (rule blk_inv_step [OF "1.prems"(2-6) True ul_def c_def bs_def])
    show ?thesis
      by (rule "1.IH" [OF _ _ ul_def _ c_def bs_def _ rest])
        (use True go "1.prems" step in \<open>auto simp: bs_def\<close>)
  qed
qed

section \<open>Generate, then compose\<close>

text \<open>
  What a nonempty result says: it is the serialisation of segments that spell the target
  over the base and a literal stream, whose blocks the ADD region holds.
\<close>

definition describes :: "zstd \<Rightarrow> nat \<Rightarrow> bytes \<Rightarrow> bytes \<Rightarrow> bytes \<Rightarrow> raw_seg list \<Rightarrow> bytes \<Rightarrow> block_rec list \<Rightarrow> bytes \<Rightarrow> bool" where
  "describes Z bsz base target D ss lit bl rg \<longleftrightarrow>
     D = serialize Z bsz (length target) (length base) (Fnv1a64 base) ss bl rg \<and>
     delta_bytes base lit ss = target \<and> (\<forall>s \<in> set ss. raw_ok base lit s) \<and>
     length lit \<le> length target \<and> length ss * 128 \<le> length target + 128 \<and>
     blk_inv Z lit bsz rg bl \<and> length lit \<le> length bl * bsz \<and> length bl * bsz < length lit + bsz"

definition block_size :: "nat \<Rightarrow> nat" where
  "block_size n = (if n = 0 then DEFAULT_BLOCK else n)"

lemma GenerateDelta_describes:
  assumes Z: "zstd_ok Z" and bsz: "block_size n \<le> 2 ^ 31"
    and D: "GenerateDelta Z E base target n progress = D" "D \<noteq> []"
  shows "\<exists>ss lit bl rg. describes Z (block_size n) base target D ss lit bl rg"
proof -
  have pos: "0 < block_size n" by (simp add: block_size_def DEFAULT_BLOCK_def)
  obtain g bl rg where g: "scan_all E progress base target = Some g"
    and c: "compress_blocks Z E progress (block_size n) (g_lit g) 0 [] [] = Some (bl, rg)"
    and D': "D = serialize Z (block_size n) (length target) (length base) (Fnv1a64 base) (g_segs g) bl rg"
    using D by (auto simp: GenerateDelta_def Let_def block_size_def split: if_splits option.splits)
  have "blk_inv Z (g_lit g) (block_size n) rg bl \<and> length (g_lit g) \<le> length bl * block_size n \<and>
      length bl * block_size n < length (g_lit g) + block_size n"
    by (rule compress_blocks_inv [OF c Z pos bsz]) (use pos in \<open>simp_all add: blk_inv_def\<close>)
  then show ?thesis using scan_all_inv [OF g] D' by (auto simp: describes_def)
qed

lemma W64_val: "W64 = 2 ^ 64"
  by (simp add: W64_def)

text \<open>The limits of the format: 32-bit counts of segments and of blocks.\<close>

definition within_format :: "nat \<Rightarrow> bytes \<Rightarrow> bytes \<Rightarrow> bool" where
  "within_format bsz base target \<longleftrightarrow> 0 < bsz \<and> bsz \<le> 2 ^ 31 \<and> length base < 2 ^ 64 \<and>
     length target < 2 ^ 38 \<and> length target < 2 ^ 31 * bsz"

lemma within_sizes:
  assumes "within_format bsz base target"
  shows "0 < bsz" "bsz \<le> 2 ^ 31" "length target < 2 ^ 38" "length target < 2 ^ 31 * bsz" "length base < W64"
    "length target < W64"
  using assms by (simp_all add: within_format_def W64_val)

lemma describes_sizes:
  assumes "describes Z bsz base target D ss lit bl rg"
  shows "blk_inv Z lit bsz rg bl" "length lit \<le> length target" "length lit \<le> length bl * bsz"
    "length bl * bsz < length lit + bsz" "\<forall>s \<in> set ss. raw_ok base lit s" "delta_bytes base lit ss = target"
  using assms by (simp_all add: describes_def)

lemma describes_counts:
  assumes d: "describes Z bsz base target D ss lit bl rg" and w: "within_format bsz base target"
  shows "length ss < 2 ^ 32" "length bl < 2 ^ 32" "length rg < 2 ^ 63 + 2 ^ 39 + 2 ^ 33"
proof -
  show "length ss < 2 ^ 32" using d w by (simp add: describes_def within_format_def)
  have "length bl * bsz < 2 ^ 31 * bsz + bsz"
    using describes_sizes(2,4) [OF d] within_sizes(4) [OF w] by linarith
  then have "length bl * bsz < (2 ^ 31 + 1) * bsz" by (simp only: distrib_right mult_1)
  then have bl: "length bl < 2 ^ 31 + 1" using mult_less_cancel2 by blast
  then show "length bl < 2 ^ 32" by simp
  have "length rg \<le> length bl * (2 * bsz + 64)" using d by (simp add: describes_def blk_inv_def)
  also have "\<dots> = 2 * (length bl * bsz) + 64 * length bl" by (simp add: algebra_simps)
  also have "\<dots> < 2 * (2 ^ 38 + 2 ^ 31) + 64 * (2 ^ 31 + 1)"
    using bl d w by (simp add: describes_def within_format_def)
  finally show "length rg < 2 ^ 63 + 2 ^ 39 + 2 ^ 33" by simp
qed

lemma describes_fits:
  assumes d: "describes Z bsz base target D ss lit bl rg" and w: "within_format bsz base target"
  shows "\<forall>s \<in> set ss. seg_fits s" "\<forall>b \<in> set bl. block_fits b" "sum_list (map rs_len ss) = length target"
proof -
  have raw: "\<forall>s \<in> set ss. raw_ok base lit s" using d by (simp add: describes_def)
  have lens: "length base < W64" "length lit < W64"
    using describes_sizes(2) [OF d] within_sizes(5,6) [OF w] by simp_all
  show "\<forall>s \<in> set ss. seg_fits s"
  proof
    fix s assume "s \<in> set ss"
    then have "raw_ok base lit s" using raw by blast
    then have "rs_srcOff s + rs_len s \<le> length lit \<or> rs_srcOff s + rs_len s \<le> length base"
      by (auto simp: raw_ok_def)
    then show "seg_fits s" using lens unfolding seg_fits_def by linarith
  qed
  show "sum_list (map rs_len ss) = length target"
    using length_delta_bytes [OF raw] describes_sizes(6) [OF d] by metis
  have "length rg < W64" using describes_counts(3) [OF d w] by (simp add: W64_val)
  moreover have "uncompLen b < 2 ^ 32" "compLen b < 2 ^ 32" "compOff b \<le> length rg" if mem: "b \<in> set bl" for b
  proof -
    obtain i where i: "i < length bl" "b = bl ! i" using mem by (auto simp: in_set_conv_nth)
    have inv: "blk_inv Z lit bsz rg bl" using d by (simp add: describes_def)
    have "length (clip lit bsz (i * bsz)) \<le> bsz" by (simp add: clip_def)
    moreover have "uncompLen b = length (clip lit bsz (i * bsz))" using inv i unfolding blk_inv_def by blast
    ultimately show "uncompLen b < 2 ^ 32" using within_sizes(2) [OF w] by simp
    show "compLen b < 2 ^ 32" using inv i unfolding blk_inv_def by blast
    have "compOff (bl ! i) + compLen (bl ! i) \<le> length rg" using inv i unfolding blk_inv_def by blast
    then show "compOff b \<le> length rg" using i by simp
  qed
  ultimately show "\<forall>b \<in> set bl. block_fits b" by (fastforce simp: block_fits_def)
qed

lemma serialize_region: "serialize Z bsz tn bn h ss bl rg = serialize Z bsz tn bn h ss bl [] @ rg"
  by (simp add: serialize_layout Let_def)

lemma described_store:
  assumes d: "describes Z bsz base target D ss lit bl rg" and w: "within_format bsz base target"
    and src: "holds Z src D"
  shows "store_holds Z (AddSource src (length (serialize Z bsz (length target) (length base) (Fnv1a64 base) ss bl []))
     bsz bl) lit"
proof (rule holds_store [OF src])
  have inv: "blk_inv Z lit bsz rg bl" using d by (simp add: describes_def)
  define pre where "pre = serialize Z bsz (length target) (length base) (Fnv1a64 base) ss bl []"
  have D: "D = pre @ rg" using d by (simp add: describes_def pre_def serialize_region [of _ _ _ _ _ _ _ rg])
  show "0 < bsz" "length lit \<le> length bl * bsz" "length lit < W64"
    using d w by (simp_all add: describes_def within_format_def W64_val)
  fix b assume "b < length bl"
  then have b: "compOff (bl ! b) + compLen (bl ! b) \<le> length rg"
    "ZDecompress Z (clip rg (compLen (bl ! b)) (compOff (bl ! b))) (uncompLen (bl ! b)) = clip lit bsz (b * bsz)"
    "uncompLen (bl ! b) = length (clip lit bsz (b * bsz))"
    using inv unfolding blk_inv_def by blast+
  have "clip D k (length pre + x) = clip rg k x" for k x by (simp add: D clip_def)
  then show "length pre + compOff (bl ! b) + compLen (bl ! b) \<le> length D \<and>
      ZDecompress Z (clip D (compLen (bl ! b)) (length pre + compOff (bl ! b))) (uncompLen (bl ! b)) =
        clip lit bsz (b * bsz) \<and> uncompLen (bl ! b) = length (clip lit bsz (b * bsz))"
    using b by (simp add: D)
qed

lemma described_parse:
  assumes d: "describes Z bsz base target D ss lit bl rg" and w: "within_format bsz base target"
    and src: "holds Z src D" and Z: "zstd_ok Z"
  shows "ParseDelta Z (pread Z src) = Inr \<lparr>targetSize = length target, baseSize = length base,
    baseHash = Fnv1a64 base, segs = ss,
    add_regionOff = length (serialize Z bsz (length target) (length base) (Fnv1a64 base) ss bl []),
    add_blockSize = bsz, add_blocks = bl\<rparr>"
proof (rule ParseDelta_serialize [OF Z])
  show "byte_source (pread Z src) (serialize Z bsz (length target) (length base) (Fnv1a64 base) ss bl rg)"
    using holds_correct(1) [OF src] d by (simp add: describes_def)
qed (use describes_counts [OF d w] describes_fits [OF d w] w in \<open>simp_all add: within_format_def W64_val\<close>)

lemma Create_verified:
  assumes P: "ParseDelta Z (pread Z d) = Inr P" and b: "holds Z b m"
    and h: "baseSize P = length m" "baseHash P = Fnv1a64 m"
  shows "Create Z d (Some b) v = Create Z d (Some b) False"
proof -
  have "preadAll (pread Z b) (length m) 0 = Inr (Some m)"
    using byte_source.preadAll_ok [of "pread Z b" m 0 "length m"] holds_correct(1) [OF b] by (simp add: clip_def)
  moreover have "src_size b = length m" using holds_correct(1) [OF b] by simp
  ultimately show ?thesis using P h by (cases b) (simp_all add: Create_def bindE_def Let_def)
qed

lemma compose_described:
  assumes d: "describes Z bsz base target D ss lit bl rg" and w: "within_format bsz base target"
    and Z: "zstd_ok Z" and src: "holds Z src D" and b: "holds Z b base"
  shows "\<exists>s. Create Z src (Some b) v = Inr s \<and> holds Z s target \<and> is_delta s"
proof -
  note P = described_parse [OF d w src Z]
  have "\<exists>s. Create Z src (Some b) False = Inr s \<and> holds Z s (delta_bytes base lit ss) \<and> is_delta s"
    using Create_ok [OF P b, of lit] described_store [OF d w src] describes_fits(3) [OF d w] d w
    by (simp add: describes_def within_format_def W64_val)
  moreover have "Create Z src (Some b) v = Create Z src (Some b) False"
    by (rule Create_verified [OF P b]) simp_all
  ultimately show ?thesis using d by (simp add: describes_def)
qed

end
