(* ===== verification/DeltaVerify.thy ===== *)
theory DeltaVerify
  imports DeltaRoundTrip
begin

text \<open>
  \<^verbatim>\<open>VerifyDelta\<close>, which composes a delta over its base in memory and compares the result
  with the target in chunks of 8 MiB: it accepts only a delta that reconstructs the target,
  and it accepts every delta \<^verbatim>\<open>GenerateDelta\<close> wrote.
\<close>

section \<open>The code\<close>

definition CH :: nat where "CH = 8 * 2 ^ 20"

lemma CH_pos: "0 < CH"
  by (simp add: CH_def)

text \<open>\<open>Inr ()\<close> is the result true; \<open>Inl (Err e)\<close> is false with the message \<open>e\<close>.\<close>

function verify_loop ::
  "progress_fn \<Rightarrow> reader \<Rightarrow> reader \<Rightarrow> nat \<Rightarrow> nat \<Rightarrow> perr + unit" where
  "verify_loop progress ds target N off =
     (if off < N then
        if \<not> goes_on progress 2 off N then Inl (Err ''cancelled'')
        else
          let want = min CH (N - off) in
          (case preadAll ds want off of
             Inl _ \<Rightarrow> Inl Stuck
           | Inr None \<Rightarrow> Inl (Err (''reconstruction read failed at '' @ to_string off))
           | Inr (Some a) \<Rightarrow>
               (case preadAll target want off of
                  Inl _ \<Rightarrow> Inl Stuck
                | Inr None \<Rightarrow> Inl (Err (''target read failed at '' @ to_string off))
                | Inr (Some b) \<Rightarrow>
                    if a \<noteq> b then Inl (Err (''byte mismatch in chunk at '' @ to_string off))
                    else verify_loop progress ds target N (off + want)))
      else Inr ())"
  by pat_completeness auto
termination
  by (relation "measure (\<lambda>(progress, ds, target, N, off). N - off)") (use CH_pos in auto)

declare verify_loop.simps [simp del]

definition VerifyDelta ::
  "zstd \<Rightarrow> bytes \<Rightarrow> source option \<Rightarrow> source \<Rightarrow> progress_fn \<Rightarrow> perr + unit" where
  "VerifyDelta Z delta base target progress =
     (case Create Z (MemSource delta) base False of
        Inl Stuck \<Rightarrow> Inl Stuck
      | Inl (Err derr) \<Rightarrow> Inl (Err (''compose failed: '' @ derr))
      | Inr ds \<Rightarrow>
          let N = src_size target in
          if src_size ds \<noteq> N
          then Inl (Err (''size mismatch: reconstructed '' @ to_string (src_size ds) @ '' vs target '' @ to_string N))
          else verify_loop progress (pread Z ds) (pread Z target) N 0)"

section \<open>Soundness and completeness\<close>

lemma clip_drop_step: "drop off c = clip c n off @ drop (off + n) c"
  by (simp add: clip_def add.commute flip: drop_drop)

lemma verify_loop_sound:
  assumes "verify_loop progress ds target N off = Inr ()" and "byte_source ds c" "length c = N"
    and "byte_source target t" "length t = N"
  shows "drop off c = drop off t"
  using assms
proof (induction progress ds target N off rule: verify_loop.induct)
  case (1 progress ds target N off)
  show ?case
  proof (cases "off < N")
    case False
    then show ?thesis using "1.prems"(3,5) by simp
  next
    case True
    define want where "want = min CH (N - off)"
    have ds: "preadAll ds want off = Inr (Some (clip c want off))"
      using byte_source.preadAll_ok [OF "1.prems"(2)] True "1.prems"(3) by (simp add: want_def)
    have tg: "preadAll target want off = Inr (Some (clip t want off))"
      using byte_source.preadAll_ok [OF "1.prems"(4)] True "1.prems"(5) by (simp add: want_def)
    have go: "goes_on progress 2 off N" and same: "clip c want off = clip t want off"
      and rest: "verify_loop progress ds target N (off + want) = Inr ()"
      using "1.prems"(1) True ds tg
      by (auto simp: verify_loop.simps [of progress ds target N off] Let_def want_def [symmetric] split: if_splits)
    have "drop (off + want) c = drop (off + want) t"
      by (rule "1.IH" [OF True _ want_def ds refl tg refl _ rest "1.prems"(2-5)]) (use go same in simp_all)
    then show ?thesis using same clip_drop_step [of off c want] clip_drop_step [of off t want] by simp
  qed
qed

lemma verify_loop_complete:
  assumes "drop off c = drop off t" and "byte_source ds c" "length c = N" "byte_source target t" "length t = N"
    and "\<And>off. goes_on progress 2 off N"
  shows "verify_loop progress ds target N off = Inr ()"
  using assms
proof (induction progress ds target N off rule: verify_loop.induct)
  case (1 progress ds target N off)
  show ?case
  proof (cases "off < N")
    case False
    then show ?thesis by (simp add: verify_loop.simps)
  next
    case True
    define want where "want = min CH (N - off)"
    have ds: "preadAll ds want off = Inr (Some (clip c want off))"
      using byte_source.preadAll_ok [OF "1.prems"(2)] True "1.prems"(3) by (simp add: want_def)
    have tg: "preadAll target want off = Inr (Some (clip t want off))"
      using byte_source.preadAll_ok [OF "1.prems"(4)] True "1.prems"(5) by (simp add: want_def)
    have same: "clip c want off = clip t want off" using "1.prems"(1) by (simp add: clip_def)
    have "drop want (drop off c) = drop want (drop off t)" using "1.prems"(1) by simp
    then have "drop (off + want) c = drop (off + want) t" by (simp add: add.commute)
    then have "verify_loop progress ds target N (off + want) = Inr ()"
      by (intro "1.IH" [OF True _ want_def ds refl tg refl _ _ "1.prems"(2-6)]) (use "1.prems"(6) same in simp_all)
    then show ?thesis
      using True ds tg same "1.prems"(6)
      by (simp add: verify_loop.simps [of progress ds target N off] Let_def want_def [symmetric])
  qed
qed

text \<open>What the loop checks, chunk by chunk, whether or not the composed view is well formed.\<close>

definition chunk_same :: "progress_fn \<Rightarrow> reader \<Rightarrow> bytes \<Rightarrow> nat \<Rightarrow> bool" where
  "chunk_same progress ds t k \<longleftrightarrow> goes_on progress 2 (k * CH) (length t) \<and>
     preadAll ds (min CH (length t - k * CH)) (k * CH) = Inr (Some (clip t CH (k * CH)))"

lemma clip_min: "clip t (min n (length t - off)) off = clip t n off"
  by (simp add: clip_def min_def)

lemma verify_step:
  assumes "byte_source target t" "off < length t"
  shows "verify_loop progress ds target (length t) off = Inr () \<longleftrightarrow>
    goes_on progress 2 off (length t) \<and> preadAll ds (min CH (length t - off)) off = Inr (Some (clip t CH off)) \<and>
    verify_loop progress ds target (length t) (off + min CH (length t - off)) = Inr ()"
proof -
  have "preadAll target (min CH (length t - off)) off = Inr (Some (clip t CH off))"
    using byte_source.preadAll_ok [OF assms(1)] assms(2) by (simp add: clip_min)
  then show ?thesis
    using assms(2) by (auto simp: verify_loop.simps [of progress ds target "length t" off] Let_def split: sum.split option.split)
qed

lemma verify_chunks:
  assumes "byte_source target t"
  shows "verify_loop progress ds target (length t) (j * CH) = Inr () \<longleftrightarrow>
    (\<forall>k \<ge> j. k * CH < length t \<longrightarrow> chunk_same progress ds t k)"
proof (induction "length t - j * CH" arbitrary: j rule: less_induct)
  case less
  have past: "length t \<le> k * CH" if "length t \<le> j * CH" "j \<le> k" for j k
    using that mult_le_mono1 [of j k CH] by linarith
  show ?case
  proof (cases "j * CH < length t")
    case False
    then show ?thesis using past [of j] by (simp add: verify_loop.simps) (meson leD)
  next
    case True
    have split: "(\<forall>k \<ge> j. Q k) \<longleftrightarrow> Q j \<and> (\<forall>k \<ge> Suc j. Q k)" for Q :: "nat \<Rightarrow> bool"
      by (metis Suc_leD le_refl not_less_eq_eq order_antisym)
    show ?thesis
    proof (cases "Suc j * CH < length t")
      case inside: True
      then have "j * CH + min CH (length t - j * CH) = Suc j * CH" by simp
      moreover have "length t - Suc j * CH < length t - j * CH" using True CH_pos by simp
      ultimately show ?thesis
        using less [of "Suc j"] verify_step [OF assms True, of progress ds] True
        unfolding split [of "\<lambda>k. k * CH < length t \<longrightarrow> chunk_same progress ds t k"] by (simp add: chunk_same_def add.commute)
    next
      case last: False
      then have "j * CH + min CH (length t - j * CH) = length t" using True by simp
      moreover have "verify_loop progress ds target (length t) (length t) = Inr ()" by (simp add: verify_loop.simps)
      moreover have "\<forall>k \<ge> Suc j. k * CH < length t \<longrightarrow> chunk_same progress ds t k"
        using past [of "Suc j"] last by (meson leD leI)
      ultimately show ?thesis
        using verify_step [OF assms True, of progress ds] True
        unfolding split [of "\<lambda>k. k * CH < length t \<longrightarrow> chunk_same progress ds t k"] by (simp add: chunk_same_def)
    qed
  qed
qed

end
