(* ===== verification/DeltaProps.thy ===== *)
theory DeltaProps
  imports DeltaVerify
begin

text \<open>The properties of the delta format, its generator and its composition.\<close>

section \<open>Generation succeeds when nothing fails\<close>

definition env_ok :: "scratch_env \<Rightarrow> bool" where
  "env_ok E \<longleftrightarrow> se_lit_open E \<and> (\<forall>k. se_lit_write E k) \<and> se_lit_close E \<and> se_cmp_open E \<and>
     (\<forall>k. se_lit_read E k) \<and> (\<forall>k. se_cmp_write E k) \<and> se_cmp_close E \<and> se_cmp_read E"

abbreviation accepts :: "progress_fn \<Rightarrow> bool" where
  "accepts progress \<equiv> \<forall>stage at whole. goes_on progress stage at whole"

lemma emitAdd_spill: "env_ok E \<Longrightarrow> g_spillOk g \<Longrightarrow> g_spillOk (emitAdd E target a b g)"
  by (simp add: emitAdd_def env_ok_def)

lemma scan_ref_total:
  assumes "env_ok E" "accepts progress" "g_spillOk g"
  shows "\<exists>l g'. scan_ref E progress base target index p litStart nextPoll g = Some (l, g') \<and> g_spillOk g'"
  using assms
proof (induction E progress base target index p litStart nextPoll g rule: scan_ref.induct)
  case (1 E progress base target index p litStart nextPoll g)
  note unf = scan_ref.simps [of E progress base target index p litStart nextPoll g]
  define np where "np = (if progress \<noteq> None \<and> p \<ge> nextPoll then p + kPollEvery else nextPoll)"
  show ?case
  proof (cases "p + ANCHOR \<le> length target")
    case False
    then show ?thesis using "1.prems" by (simp add: unf)
  next
    case True
    have go: "\<not> (p \<ge> nextPoll \<and> \<not> goes_on progress 0 p (length target))" using "1.prems" by simp
    show ?thesis
    proof (cases "found_at base target index (HashWin (drop p target)) p")
      case None
      then show ?thesis
        using "1.IH"(1) [OF True go np_def None] "1.prems" True go
        by (simp add: unf np_def Let_def cong: if_cong)
    next
      case (Some o')
      then show ?thesis
        using "1.IH"(2) [OF True go np_def Some refl refl refl refl] "1.prems" True go
        by (simp add: unf np_def Let_def emitAdd_spill cong: if_cong)
    qed
  qed
qed

lemma scan_all_total:
  assumes "env_ok E" "accepts progress"
  shows "\<exists>g. scan_all E progress base target = Some g \<and> g_spillOk g"
proof -
  define g0 where "g0 = \<lparr>g_segs = [], g_lit = [], g_spillOk = True\<rparr>"
  have rolled: "scan E progress base target (build_index base) (PowR (ANCHOR - 1)) 0 0 (HashWin target) 0 g0 =
      scan_ref E progress base target (build_index base) 0 0 0 g0"
    by (rule scan_rolls) simp
  obtain l g' where "scan_ref E progress base target (build_index base) 0 0 0 g0 = Some (l, g')" "g_spillOk g'"
    using scan_ref_total [OF assms, of g0 base target "build_index base" 0 0 0] by (auto simp: g0_def)
  then show ?thesis
    using rolled emitAdd_spill [OF assms(1)]
    unfolding scan_all_def Let_def g0_def [symmetric] by (simp add: g0_def)
qed

lemma compress_blocks_total:
  assumes "env_ok E" "accepts progress"
  shows "\<exists>bl rg. compress_blocks Z E progress bsz lit o' blocks region = Some (bl, rg)"
  using assms
proof (induction Z E progress bsz lit o' blocks region rule: compress_blocks.induct)
  case (1 Z E progress bsz lit o' blocks region)
  show ?case
  proof (cases "o' < length lit \<and> 0 < bsz")
    case False
    then show ?thesis using compress_blocks.simps [of Z E progress bsz lit o' blocks region] by auto
  next
    case True
    have ok: "se_lit_read E o'" "se_cmp_write E (length region)" using "1.prems"(1) by (auto simp: env_ok_def)
    show ?thesis
      using "1.IH" [OF True _ refl _ refl refl _ "1.prems"] True ok "1.prems"(2)
      by (simp add: compress_blocks.simps [of Z E progress bsz lit o' blocks region] Let_def)
  qed
qed

lemma serialize_nonempty: "serialize Z bsz tn bn h ss bl rg \<noteq> []"
  by (simp add: serialize_layout Let_def MAGIC_def)

lemma generate_total:
  assumes "env_ok E" "accepts progress"
  shows "GenerateDelta Z E base target n progress \<noteq> []"
proof -
  obtain g where "scan_all E progress base target = Some g" "g_spillOk g"
    using scan_all_total [OF assms] by blast
  moreover obtain bl rg where "compress_blocks Z E progress
      (if n = 0 then DEFAULT_BLOCK else n) (g_lit g) 0 [] [] = Some (bl, rg)"
    using compress_blocks_total [OF assms] by blast
  ultimately show ?thesis
    using assms(1) by (simp add: GenerateDelta_def Let_def env_ok_def serialize_nonempty)
qed

text \<open>The file itself is addressable.\<close>

lemma generated_small:
  assumes Z: "zstd_ok Z" and w: "within_format (block_size n) base target"
  shows "length (GenerateDelta Z E base target n progress) < W64"
proof (cases "GenerateDelta Z E base target n progress = []")
  case False
  define D where "D = GenerateDelta Z E base target n progress"
  obtain ss lit bl rg where d: "describes Z (block_size n) base target D ss lit bl rg"
    using GenerateDelta_describes [OF Z _ refl] False within_sizes(2) [OF w] D_def by blast
  have ls: "length (concat (map enc_seg ss)) = 17 * length ss"
    using length_concat_fixed [of ss enc_seg 17] by simp
  have lb: "length (concat (map enc_block bl)) = 16 * length bl"
    using length_concat_fixed [of bl enc_block 16] by simp
  have "length D = 76 + length (ZCompress Z (concat (map enc_seg ss)) 19) +
      length (ZCompress Z (concat (map enc_block bl)) 19) + length rg"
    using d by (simp add: describes_def serialize_layout Let_def)
  also have "\<dots> \<le> 204 + 34 * length ss + 32 * length bl + length rg"
    using length_ZCompress [OF Z, of "concat (map enc_seg ss)" 19]
      length_ZCompress [OF Z, of "concat (map enc_block bl)" 19] ls lb by linarith
  also have "\<dots> < W64"
    using describes_counts [OF d w] by (simp add: W64_val)
  finally show ?thesis by (simp add: D_def)
qed simp

section \<open>Concrete parameters for the witnesses\<close>

definition sound_env :: scratch_env where
  "sound_env = \<lparr>se_lit_open = True, se_lit_write = (\<lambda>_. True), se_lit_close = True, se_cmp_open = True,
     se_lit_read = (\<lambda>_. True), se_cmp_write = (\<lambda>_. True), se_cmp_close = True, se_cmp_read = True\<rparr>"

lemma sound_env_ok: "env_ok sound_env"
  by (simp add: env_ok_def sound_env_def)

lemma verify_generated:
  assumes "zstd_ok Z" and "within_format (block_size n) base target"
    and "GenerateDelta Z E base target n progress \<noteq> []"
    and "holds Z b base" and "holds Z t target" and "\<forall>stage at whole. goes_on progress' stage at whole"
  shows "VerifyDelta Z (GenerateDelta Z E base target n progress) (Some b) t progress' = Inr ()"
proof -
  define D where "D = GenerateDelta Z E base target n progress"
  obtain ss lit bl rg where d: "describes Z (block_size n) base target D ss lit bl rg"
    using GenerateDelta_describes [OF assms(1) _ refl assms(3)] assms(2) within_sizes(2) D_def by blast
  have "holds Z (MemSource D) D" unfolding D_def by (rule holds_mem) (rule generated_small [OF assms(1,2)])
  from compose_described [OF d assms(2,1) this assms(4)]
  obtain s where s: "Create Z (MemSource D) (Some b) False = Inr s" "holds Z s target" by blast
  have "verify_loop progress' (pread Z s) (pread Z t) (length target) 0 = Inr ()"
    by (rule verify_loop_complete [of 0 target target])
      (use holds_correct(1) [OF s(2)] holds_correct(1) [OF assms(5)] assms(6) in auto)
  then show ?thesis
    using s(1) holds_correct(1) [OF s(2)] holds_correct(1) [OF assms(5)]
    by (simp add: VerifyDelta_def Let_def D_def [symmetric])
qed

section \<open>A read that does not return\<close>

lemma readAdd_stuck:
  assumes "getblk (pos div bsz) = Inr (Some raw)" "pos mod bsz = length raw" "pos div bsz < nblocks" "0 < k" "pos < W64"
  shows "readAdd_loop getblk bsz nblocks k pos acc = None"
proof -
  have never: "\<not> (g (pos div bs) = Inr (Some raw) \<and> pos mod bs = length raw \<and> pos div bs < nb \<and> 0 < k \<and> pos < W64)"
    if "readAdd_loop g bs nb k pos acc = Some r" for g bs nb k pos acc r
  proof (rule readAdd_loop.raw_induct [OF _ that], rule notI)
    fix loop g bs nb k pos acc r
    assume "\<And>g bs nb k pos acc y. loop g bs nb k pos acc = Some y \<Longrightarrow>
        \<not> (g (pos div bs) = Inr (Some raw) \<and> pos mod bs = length raw \<and> pos div bs < nb \<and> 0 < k \<and> pos < W64)"
      and body: "(if 0 < k then let b = pos div bs; intra = pos mod bs in
          if nb \<le> b then Some (Inl EIO) else case g b of Inl e \<Rightarrow> Some (Inl e) | Inr None \<Rightarrow> Some (Inl EIO)
          | Inr (Some raw) \<Rightarrow> if length raw < intra then Some (Inl EIO) else
              let avail = length raw - intra; tk = if k < avail then k else avail
              in loop g bs nb (k - tk) (u64 (pos + tk)) (acc @ clip raw tk intra) else Some (Inr acc)) = Some r"
      and s: "g (pos div bs) = Inr (Some raw) \<and> pos mod bs = length raw \<and> pos div bs < nb \<and> 0 < k \<and> pos < W64"
    moreover from body s have "loop g bs nb k pos acc = Some r" by (simp add: Let_def clip_def)
    ultimately show False by blast
  qed
  then show ?thesis using assms by (metis not_Some_eq)
qed

section \<open>Properties\<close>

text \<open>
  C2: the central promise of the delta format. Whatever \<^verbatim>\<open>GenerateDelta\<close> returns (when it
  returns a file at all) and however that file and the base are stored, composing it over
  the base succeeds, with or without verifying the base's hash, and the composed source has
  the target's size and serves exactly the target's bytes at every offset.
\<close>

theorem delta_round_trip:
  assumes "zstd_ok Z" and "within_format (block_size n) base target"
    and "GenerateDelta Z E base target n progress \<noteq> []"
    and "holds Z d (GenerateDelta Z E base target n progress)" and "holds Z b base"
  shows "\<exists>s. Create Z d (Some b) verify = Inr s \<and> src_size s = length target \<and>
    (\<forall>k off. off + k \<le> length target \<longrightarrow> preadAll (pread Z s) k off = Inr (Some (clip target k off)))"
proof -
  obtain ss lit bl rg where "describes Z (block_size n) base target (GenerateDelta Z E base target n progress) ss lit bl rg"
    using GenerateDelta_describes [OF assms(1) _ refl assms(3)] assms(2) within_sizes(2) by blast
  then obtain s where "Create Z d (Some b) verify = Inr s" "holds Z s target"
    using compose_described [OF _ assms(2,1,4,5)] by blast
  then show ?thesis using holds_correct(1) byte_source.preadAll_ok by blast
qed

theorem delta_round_trip_witness:
  "\<exists>s. Create frame_zstd (MemSource (GenerateDelta frame_zstd sound_env [1, 2] [3, 4, 5] 0 None))
         (Some (MmapSource [1, 2])) True = Inr s \<and> src_size s = 3 \<and>
     preadAll (pread frame_zstd s) 2 1 = Inr (Some [4, 5])"
proof -
  have w: "within_format (block_size 0) [1, 2] [3, 4, 5]"
    by (simp add: within_format_def block_size_def DEFAULT_BLOCK_def)
  have small: "length (GenerateDelta frame_zstd sound_env [1, 2] [3, 4, 5] 0 None) < W64"
    by (rule generated_small [OF frame_zstd_ok w])
  have base: "length [1, 2 :: byte] < W64" by (simp add: W64_val)
  have "\<exists>s. Create frame_zstd (MemSource (GenerateDelta frame_zstd sound_env [1, 2] [3, 4, 5] 0 None))
      (Some (MmapSource [1, 2])) True = Inr s \<and> src_size s = length [3, 4, 5 :: byte] \<and>
      (\<forall>k off. off + k \<le> length [3, 4, 5 :: byte] \<longrightarrow>
        preadAll (pread frame_zstd s) k off = Inr (Some (clip [3, 4, 5] k off)))"
    by (rule delta_round_trip [OF frame_zstd_ok w, of sound_env None])
      (simp_all add: generate_total [OF sound_env_ok] goes_on_def holds_mem [OF small] holds_mmap [OF base])
  then show ?thesis by (force simp: clip_def)
qed

text \<open>
  C29: generation does not give up by itself. When no scratch-file operation fails, the progress
  callback never cancels and the sizes are those the format can hold, \<^verbatim>\<open>GenerateDelta\<close> returns a file
  of fewer than $2^{64}$ bytes that \<^verbatim>\<open>ParseDelta\<close> accepts: it names the sizes of target and base and
  the base's hash, has at most one segment per 128 bytes of the target and one more, blocks of the
  block size for the literals only, each inside the file, and segments that lie inside base and
  literals and spell the target; and \<^verbatim>\<open>VerifyDelta\<close> accepts it.
\<close>

theorem GenerateDelta_returns:
  assumes "zstd_ok Z" and "within_format (block_size n) base target" and "env_ok E"
    and "\<forall>stage at whole. goes_on progress stage at whole"
  shows "\<exists>D P lit. GenerateDelta Z E base target n progress = D \<and> D \<noteq> [] \<and> length D < W64 \<and>
    ParseDelta Z (pread Z (MemSource D)) = Inr P \<and>
    targetSize P = length target \<and> baseSize P = length base \<and> baseHash P = Fnv1a64 base \<and> add_blockSize P = block_size n \<and>
    length (segs P) * 128 \<le> length target + 128 \<and> length lit \<le> length target \<and>
    length (add_blocks P) * block_size n < length lit + block_size n \<and>
    list_all (\<lambda>b. add_regionOff P + compOff b + compLen b \<le> length D) (add_blocks P) \<and>
    list_all (raw_ok base lit) (segs P) \<and> delta_bytes base lit (segs P) = target \<and>
    VerifyDelta Z D (Some (MmapSource base)) (MmapSource target) progress = Inr ()"
proof -
  define D where "D = GenerateDelta Z E base target n progress"
  have ne: "D \<noteq> []" unfolding D_def by (rule generate_total [OF assms(3,4)])
  then obtain ss lit bl rg where d: "describes Z (block_size n) base target D ss lit bl rg"
    using GenerateDelta_describes [OF assms(1) _ refl, of n E base target progress] assms(2) within_sizes(2) D_def by blast
  have small: "length D < W64" unfolding D_def by (rule generated_small [OF assms(1,2)])
  note P = described_parse [OF d assms(2) holds_mem [OF small] assms(1)]
  define pre where "pre = length (serialize Z (block_size n) (length target) (length base) (Fnv1a64 base) ss bl [])"
  have len: "length D = pre + length rg"
    using d by (simp add: describes_def pre_def serialize_region [of _ _ _ _ _ _ _ rg])
  have "blk_inv Z lit (block_size n) rg bl" using d by (simp add: describes_def)
  then have blocks: "list_all (\<lambda>b. pre + compOff b + compLen b \<le> length D) bl"
    unfolding len blk_inv_def list_all_length by (auto simp: add.assoc)
  have "VerifyDelta Z D (Some (MmapSource base)) (MmapSource target) progress = Inr ()"
    unfolding D_def
    by (rule verify_generated [OF assms(1,2) _ holds_mmap holds_mmap assms(4)])
      (use ne within_sizes(5,6) [OF assms(2)] in \<open>simp_all add: D_def\<close>)
  then show ?thesis
    using ne small P blocks d
    by (intro exI [of _ D] exI [of _ "\<lparr>targetSize = length target, baseSize = length base, baseHash = Fnv1a64 base, segs = ss,
        add_regionOff = pre, add_blockSize = block_size n, add_blocks = bl\<rparr>"] exI [of _ lit])
      (simp add: describes_def list_all_iff D_def [symmetric] pre_def)
qed

theorem GenerateDelta_returns_witness:
  "\<exists>D P. GenerateDelta frame_zstd sound_env [7] [8, 9] 64 (Some (\<lambda>stage at whole. True)) = D \<and>
    ParseDelta frame_zstd (pread frame_zstd (MemSource D)) = Inr P \<and> targetSize P = 2 \<and> length (segs P) = 1"
proof -
  have w: "within_format (block_size 64) [7] [8, 9]" by (simp add: within_format_def block_size_def)
  obtain D P lit where r: "GenerateDelta frame_zstd sound_env [7] [8, 9] 64 (Some (\<lambda>stage at whole. True)) = D"
    "ParseDelta frame_zstd (pread frame_zstd (MemSource D)) = Inr P" "targetSize P = length [8, 9 :: byte]"
    "length (segs P) * 128 \<le> length [8, 9 :: byte] + 128" "delta_bytes [7] lit (segs P) = [8, 9]"
    using GenerateDelta_returns [OF frame_zstd_ok w sound_env_ok, of "Some (\<lambda>stage at whole. True)"]
    by (auto simp: goes_on_def)
  have "segs P \<noteq> []" using r(5) by (auto simp: delta_bytes_def)
  then have "0 < length (segs P)" by simp
  moreover have "length (segs P) * 128 \<le> 130" using r(4) by simp
  ultimately have "length (segs P) = 1" by linarith
  then show ?thesis using r(1-3) by (intro exI [of _ D] exI [of _ P]) simp
qed

text \<open>
  C25: the rolling hash. The scan that carries the hash along by the recurrence of the code
  (drop the leading byte, shift, add the next byte) is the scan that hashes every window from
  scratch, so no match is missed or invented because the hash went stale.
\<close>

theorem scan_equals_reference:
  "scan_all E progress base target =
    (let g0 = \<lparr>g_segs = [], g_lit = [], g_spillOk = True\<rparr> in
     case (if length target \<ge> ANCHOR then scan_ref E progress base target (build_index base) 0 0 0 g0
           else Some (0, g0)) of
       None \<Rightarrow> None
     | Some (litStart, g) \<Rightarrow> Some (emitAdd E target litStart (length target) g))"
proof -
  have rolled: "scan E progress base target (build_index base) (PowR (ANCHOR - 1)) 0 0 (HashWin target) 0 g0 =
      scan_ref E progress base target (build_index base) 0 0 0 g0" for g0
    by (rule scan_rolls) simp
  show ?thesis unfolding scan_all_def Let_def rolled ..
qed

text \<open>
  The file format round trip. Any segment list and block list whose numbers fit their
  fields, written by the serialiser of \<^verbatim>\<open>GenerateDelta\<close> and stored in any source, is read
  back by \<^verbatim>\<open>ParseDelta\<close> field by field, with the ADD region located right after the tables.
\<close>

theorem parse_serialize_round_trip:
  assumes "zstd_ok Z" and "holds Z d (serialize Z bsz tlen blen h ss blks region)"
    and "0 < bsz" "bsz < 2 ^ 32" "tlen < W64" "blen < W64" "length ss < 2 ^ 32" "length blks < 2 ^ 32"
    and "\<forall>s \<in> set ss. seg_fits s" "\<forall>b \<in> set blks. block_fits b" "sum_list (map rs_len ss) = tlen"
  shows "ParseDelta Z (pread Z d) = Inr \<lparr>targetSize = tlen, baseSize = blen, baseHash = h, segs = ss,
    add_regionOff = length (serialize Z bsz tlen blen h ss blks []), add_blockSize = bsz, add_blocks = blks\<rparr>"
  using holds_correct(1) [OF assms(2)] by (intro ParseDelta_serialize [OF assms(1)]) (use assms in auto)

theorem parse_serialize_round_trip_witness:
  "\<exists>P. ParseDelta frame_zstd (pread frame_zstd (MemSource (serialize frame_zstd 4 2 2 0
     [\<lparr>rs_kind = KIND_COPY, rs_len = 2, rs_srcOff = 0\<rparr>] [] []))) = Inr P \<and> targetSize P = 2 \<and> add_blockSize P = 4"
proof -
  have small: "length (serialize frame_zstd 4 2 2 0 [\<lparr>rs_kind = KIND_COPY, rs_len = 2, rs_srcOff = 0\<rparr>] [] []) < W64"
    by (simp add: serialize_layout Let_def ZCompress_def frame_zstd_def W64_val)
  show ?thesis
    using parse_serialize_round_trip [OF frame_zstd_ok holds_mem [OF small]]
    by (simp add: W64_val seg_fits_def)
qed

text \<open>
  C11: composition. Over any well-formed base, itself possibly a composed delta, \<^verbatim>\<open>Create\<close> on
  a parsed file whose segments lie inside the base and the ADD store gives a source whose
  content is the concatenation of the ranges the segments name, and the flat map of that source
  is one level deep: its base is the base's own ultimate base.
\<close>

theorem Create_composes:
  assumes "ParseDelta Z (pread Z delta) = Inr P" and "holds Z b m" and "baseSize P = length m"
    and "store_holds Z (AddSource delta (add_regionOff P) (add_blockSize P) (add_blocks P)) a"
    and "\<forall>s \<in> set (segs P). raw_ok m a s"
    and "sum_list (map rs_len (segs P)) = targetSize P" "targetSize P < W64"
  shows "\<exists>s. Create Z delta (Some b) False = Inr s \<and> holds Z s (delta_bytes m a (segs P)) \<and>
    (flat b \<longrightarrow> flat s)"
proof -
  obtain s where s: "Create Z delta (Some b) False = Inr s" "holds Z s (delta_bytes m a (segs P))"
    using Create_ok [OF assms] by blast
  moreover have "flat b \<longrightarrow> flat s"
    using s(1) assms(1) by (cases b) (auto simp: Create_def bindE_def finish_def Let_def split: sum.splits if_splits prod.splits)
  ultimately show ?thesis by blast
qed

theorem Create_composes_witness:
  "\<exists>s. Create frame_zstd (MemSource (serialize frame_zstd 4 2 3 0
       [\<lparr>rs_kind = KIND_COPY, rs_len = 2, rs_srcOff = 1\<rparr>] [] [])) (Some (MemSource [5, 6, 7])) False = Inr s \<and>
     holds frame_zstd s [6, 7] \<and> flat s"
proof -
  let ?D = "serialize frame_zstd 4 2 3 0 [\<lparr>rs_kind = KIND_COPY, rs_len = 2, rs_srcOff = 1\<rparr>] [] []"
  have small: "length ?D < W64"
    by (simp add: serialize_layout Let_def ZCompress_def frame_zstd_def W64_val)
  note d = holds_mem [OF small, of frame_zstd]
  have src: "byte_source (pread frame_zstd (MemSource ?D)) ?D" using holds_correct(1) [OF d] by blast
  have P: "ParseDelta frame_zstd (pread frame_zstd (MemSource ?D)) = Inr \<lparr>targetSize = 2, baseSize = 3,
      baseHash = 0, segs = [\<lparr>rs_kind = KIND_COPY, rs_len = 2, rs_srcOff = 1\<rparr>],
      add_regionOff = length ?D, add_blockSize = 4, add_blocks = []\<rparr>"
    by (rule ParseDelta_serialize [OF frame_zstd_ok src]) (simp_all add: W64_val seg_fits_def)
  have b: "holds frame_zstd (MemSource [5, 6, 7]) [5, 6, 7]" by (rule holds_mem) (simp add: W64_val)
  have st: "store_holds frame_zstd (AddSource (MemSource ?D) (length ?D) 4 []) []"
    by (rule holds_store [OF d]) (simp_all add: W64_val)
  show ?thesis
    using Create_composes [OF P b _ , of "[]"] st
    by (simp add: raw_ok_def W64_val delta_bytes_def raw_bytes_def KIND_COPY_def KIND_ADD_def clip_def)
qed

text \<open>
  C24: what \<^verbatim>\<open>VerifyDelta\<close> answers. It returns true exactly when the delta composes over the base, the
  composed view has the target's size, and for each chunk of 8 MiB of the target the progress callback goes
  on and a whole-range read of the view at the chunk's start gives the chunk's bytes; and a view that
  serves its whole content as a source does then has the target's content.
\<close>

theorem VerifyDelta_sound:
  assumes "holds Z target t"
  shows "(VerifyDelta Z delta base target progress = Inr () \<longleftrightarrow>
      (\<exists>s. Create Z (MemSource delta) base False = Inr s \<and> src_size s = length t \<and>
        (\<forall>k. k * CH < length t \<longrightarrow> goes_on progress 2 (k * CH) (length t) \<and>
          preadAll (pread Z s) (min CH (length t - k * CH)) (k * CH) = Inr (Some (clip t CH (k * CH)))))) \<and>
    (\<forall>s c. VerifyDelta Z delta base target progress = Inr () \<and> Create Z (MemSource delta) base False = Inr s \<and>
      holds Z s c \<longrightarrow> c = t)"
proof -
  note tg = holds_correct(1) [OF assms]
  have eq: "VerifyDelta Z delta base target progress = Inr () \<longleftrightarrow>
      (\<exists>s. Create Z (MemSource delta) base False = Inr s \<and> src_size s = length t \<and>
        verify_loop progress (pread Z s) (pread Z target) (length t) 0 = Inr ())"
    using tg by (auto simp: VerifyDelta_def Let_def split: sum.splits perr.splits if_splits)
  have chunks: "verify_loop progress (pread Z s) (pread Z target) (length t) 0 = Inr () \<longleftrightarrow>
      (\<forall>k. k * CH < length t \<longrightarrow> chunk_same progress (pread Z s) t k)" for s
    using verify_chunks [of "pread Z target" t progress "pread Z s" 0] tg by simp
  have "c = t" if v: "VerifyDelta Z delta base target progress = Inr ()"
    and s: "Create Z (MemSource delta) base False = Inr s" "holds Z s c" for s c
  proof -
    have "src_size s = length t" "verify_loop progress (pread Z s) (pread Z target) (length t) 0 = Inr ()"
      using v s(1) unfolding eq by auto
    then show ?thesis using verify_loop_sound [of progress "pread Z s" "pread Z target" "length t" 0 c t] tg
        holds_correct(1) [OF s(2)] by simp
  qed
  then show ?thesis unfolding eq chunks chunk_same_def by blast
qed

theorem VerifyDelta_sound_witness:
  "\<exists>s. Create frame_zstd (MemSource (GenerateDelta frame_zstd sound_env [1, 2] [3, 4, 5] 0 None))
     (Some (MemSource [1, 2])) False = Inr s \<and> src_size s = 3 \<and>
     preadAll (pread frame_zstd s) 3 0 = Inr (Some [3, 4, 5])"
proof -
  have w: "within_format (block_size 0) [1, 2] [3, 4, 5]"
    by (simp add: within_format_def block_size_def DEFAULT_BLOCK_def)
  have t: "holds frame_zstd (MmapSource [3, 4, 5]) [3, 4, 5]" by (rule holds_mmap) (simp add: W64_val)
  have "VerifyDelta frame_zstd (GenerateDelta frame_zstd sound_env [1, 2] [3, 4, 5] 0 None)
      (Some (MemSource [1, 2])) (MmapSource [3, 4, 5]) None = Inr ()"
    by (rule verify_generated [OF frame_zstd_ok w])
      (simp_all add: generate_total [OF sound_env_ok] goes_on_def holds_mem t W64_val)
  then obtain s where s: "Create frame_zstd (MemSource (GenerateDelta frame_zstd sound_env [1, 2] [3, 4, 5] 0 None))
     (Some (MemSource [1, 2])) False = Inr s" "src_size s = length [3, 4, 5 :: byte]"
    "\<And>k. k * CH < length [3, 4, 5 :: byte] \<Longrightarrow> preadAll (pread frame_zstd s) (min CH (length [3, 4, 5 :: byte] - k * CH)) (k * CH) =
      Inr (Some (clip [3, 4, 5] CH (k * CH)))"
    using VerifyDelta_sound [OF t] by blast
  have three: "length [3, 4, 5 :: byte] = 3" by simp
  have "preadAll (pread frame_zstd s) 3 0 = Inr (Some [3, 4, 5])"
    using s(3) [of 0, unfolded three] by (simp add: CH_def clip_def)
  then show ?thesis using s(1) s(2) [unfolded three] by blast
qed

text \<open>
  And complete for what the program writes. A delta \<^verbatim>\<open>GenerateDelta\<close> returned is accepted
  against the target it was made for, whatever source each of the three is read from.
\<close>

theorem VerifyDelta_accepts_generated:
  assumes "zstd_ok Z" and "within_format (block_size n) base target"
    and "GenerateDelta Z E base target n progress \<noteq> []"
    and "holds Z b base" and "holds Z t target" and "\<forall>stage at whole. goes_on progress' stage at whole"
  shows "VerifyDelta Z (GenerateDelta Z E base target n progress) (Some b) t progress' = Inr ()"
  using assms by (rule verify_generated)

theorem VerifyDelta_accepts_generated_witness:
  "VerifyDelta frame_zstd (GenerateDelta frame_zstd sound_env [1, 2] [3, 4, 5] 0 None)
     (Some (MemSource [1, 2])) (MmapSource [3, 4, 5]) None = Inr ()"
proof -
  have w: "within_format (block_size 0) [1, 2] [3, 4, 5]"
    by (simp add: within_format_def block_size_def DEFAULT_BLOCK_def)
  show ?thesis
    by (rule VerifyDelta_accepts_generated [OF frame_zstd_ok w])
      (simp_all add: generate_total [OF sound_env_ok] goes_on_def holds_mem holds_mmap W64_val)
qed

text \<open>
  C30: a read of the ADD store that does not return. When a block is shorter than the block size and
  not the last, a read that starts inside it, or at its end, and asks for more than the rest of it
  takes that rest, comes to the block's end, where the comparison \<^verbatim>\<open>intra > raw->size()\<close> lets it pass,
  takes nothing there, and the loop of \<^verbatim>\<open>readAdd\<close> repeats the same step for ever.
\<close>

theorem readAdd_short_block_never_returns:
  assumes "getblk (addOff div bsz) = Inr (Some raw)" and "length raw < bsz" and "addOff mod bsz \<le> length raw"
    and "addOff div bsz < nblocks" and "length raw - addOff mod bsz < n" and "addOff + n < W64"
  shows "readAdd getblk bsz nblocks n addOff = Inl NoReturn"
proof -
  define avail where "avail = length raw - addOff mod bsz"
  define pos where "pos = addOff + avail"
  have "addOff = addOff div bsz * bsz + addOff mod bsz" by simp
  then have at: "pos = addOff div bsz * bsz + length raw" using assms(3) unfolding pos_def avail_def by linarith
  have blk: "pos div bsz = addOff div bsz" "pos mod bsz = length raw" using assms(2) by (simp_all add: at)
  have small: "pos < W64" "u64 (addOff + avail) = pos" using assms(5,6) by (simp_all add: pos_def avail_def u64_id)
  have "readAdd_loop getblk bsz nblocks n addOff [] =
      readAdd_loop getblk bsz nblocks (n - avail) pos (clip raw avail (addOff mod bsz))"
    using assms(1,3-5) small(2) by (subst readAdd_loop.simps) (simp add: Let_def avail_def [symmetric])
  moreover have "readAdd_loop getblk bsz nblocks (n - avail) pos acc = None" for acc
    by (rule readAdd_stuck [of getblk pos bsz raw]) (use assms(1,4,5) blk small(1) in \<open>simp_all add: avail_def\<close>)
  ultimately show ?thesis by (simp add: readAdd_def)
qed

theorem readAdd_short_block_never_returns_witness:
  "readAdd (\<lambda>b. Inr (Some [10, 11])) 4 3 5 5 = Inl NoReturn"
  by (rule readAdd_short_block_never_returns [of _ _ _ "[10, 11]"]) (simp_all add: W64_val)

text \<open>
  The base hash notices corruption. Two bases that differ in exactly one byte never have
  the same \<^verbatim>\<open>Fnv1a64\<close> value, so a verified composition over a base with one damaged byte is
  refused.
\<close>

theorem Fnv1a64_detects_one_byte:
  "Fnv1a64 (p @ x # q) = Fnv1a64 (p @ y # q) \<longleftrightarrow> x = y"
  by (simp add: Fnv1a64_def fold_fnv_inj fnv_step_inj_byte)

end
