(* ===== verification/BlockCache.thy ===== *)
theory BlockCache
  imports DeltaCorrect
begin

text \<open>
  The block cache of \<^verbatim>\<open>DeltaByteSource::GetAddBlock\<close>: a map of decompressed blocks with a
  FIFO of at most \<^verbatim>\<open>CacheCap\<close> keys, searched and filled in two separate critical sections.
  Calls of several threads interleave between the two sections; they are modelled as a step
  relation, and every call still returns what an uncached read of the block returns.
\<close>

section \<open>The cache\<close>

record block_cache =
  bc_map :: "64 word \<rightharpoonup> bytes"
  bc_fifo :: "64 word list"

definition CacheCap :: nat where "CacheCap = 64"

definition cache_key :: "nat \<Rightarrow> nat \<Rightarrow> 64 word" where
  "cache_key addSrc blk = xor (push_bit 40 (of_nat addSrc)) (of_nat blk)"

text \<open>The first critical section: a look-up.\<close>

definition cache_find :: "block_cache \<Rightarrow> 64 word \<Rightarrow> bytes option" where
  "cache_find C k = bc_map C k"

text \<open>The second: \<^verbatim>\<open>emplace\<close>, and only the first insertion of a key is queued for eviction.\<close>

definition cache_insert :: "block_cache \<Rightarrow> 64 word \<Rightarrow> bytes \<Rightarrow> block_cache" where
  "cache_insert C k raw =
     (if bc_map C k = None then
        let m = (bc_map C)(k \<mapsto> raw); q = bc_fifo C @ [k] in
        if length q > CacheCap then \<lparr>bc_map = m(hd q := None), bc_fifo = List.tl q\<rparr>
        else \<lparr>bc_map = m, bc_fifo = q\<rparr>
      else C)"

definition empty_cache :: block_cache where
  "empty_cache = \<lparr>bc_map = Map.empty, bc_fifo = []\<rparr>"

text \<open>One call of \<^verbatim>\<open>GetAddBlock\<close> run alone; \<open>fetch\<close> reads and decompresses a block.\<close>

definition GetAddBlock_cached ::
  "(nat \<Rightarrow> nat \<Rightarrow> bytes option res) \<Rightarrow> block_cache \<Rightarrow> nat \<Rightarrow> nat \<Rightarrow> bytes option res \<times> block_cache" where
  "GetAddBlock_cached fetch C addSrc blk =
     (let key = cache_key addSrc blk in
      case cache_find C key of
        Some raw \<Rightarrow> (Inr (Some raw), C)
      | None \<Rightarrow>
          (case fetch addSrc blk of
             Inr (Some raw) \<Rightarrow> (Inr (Some raw), cache_insert C key raw)
           | r \<Rightarrow> (r, C)))"

section \<open>Interleaved calls\<close>

text \<open>Where a thread is in \<^verbatim>\<open>GetAddBlock\<close>, with the block it asked for.\<close>

datatype phase =
    Asked nat nat
  | Missed nat nat
  | Decoded nat nat bytes
  | Returned nat nat "bytes option res"

inductive cache_step ::
  "(nat \<Rightarrow> nat \<Rightarrow> bytes option res) \<Rightarrow> block_cache \<times> (nat \<Rightarrow> phase option) \<Rightarrow>
   block_cache \<times> (nat \<Rightarrow> phase option) \<Rightarrow> bool" for fetch where
  call: "T t = None \<Longrightarrow> cache_step fetch (C, T) (C, T(t \<mapsto> Asked a b))"
| hit: "T t = Some (Asked a b) \<Longrightarrow> cache_find C (cache_key a b) = Some raw \<Longrightarrow>
    cache_step fetch (C, T) (C, T(t \<mapsto> Returned a b (Inr (Some raw))))"
| miss: "T t = Some (Asked a b) \<Longrightarrow> cache_find C (cache_key a b) = None \<Longrightarrow>
    cache_step fetch (C, T) (C, T(t \<mapsto> Missed a b))"
| decode: "T t = Some (Missed a b) \<Longrightarrow> fetch a b = Inr (Some raw) \<Longrightarrow>
    cache_step fetch (C, T) (C, T(t \<mapsto> Decoded a b raw))"
| fail: "T t = Some (Missed a b) \<Longrightarrow> fetch a b = r \<Longrightarrow> (\<forall>raw. r \<noteq> Inr (Some raw)) \<Longrightarrow>
    cache_step fetch (C, T) (C, T(t \<mapsto> Returned a b r))"
| insert: "T t = Some (Decoded a b raw) \<Longrightarrow>
    cache_step fetch (C, T) (cache_insert C (cache_key a b) raw, T(t \<mapsto> Returned a b (Inr (Some raw))))"
| leave: "T t = Some (Returned a b r) \<Longrightarrow> cache_step fetch (C, T) (C, T(t := None))"

inductive_cases cache_stepE: "cache_step fetch s s'"

section \<open>Keys\<close>

definition small_key :: "nat \<Rightarrow> nat \<Rightarrow> bool" where
  "small_key a b \<longleftrightarrow> a < 2 ^ 24 \<and> b < 2 ^ 40"

lemma key_split:
  assumes "small_key a b"
  shows "drop_bit 40 (cache_key a b) = of_nat a" and "take_bit 40 (cache_key a b) = of_nat b"
proof -
  have lt: "a < 2 ^ 24" "b < 2 ^ 40" using assms by (simp_all add: small_key_def)
  have b: "drop_bit 40 (of_nat b :: 64 word) = 0" "take_bit 40 (of_nat b :: 64 word) = of_nat b"
    using lt(2)
    by (simp_all only: word_unat_eq_iff unat_drop_bit_eq take_bit_of_nat)
      (simp_all add: unsigned_of_nat take_bit_nat_eq_self drop_bit_eq_div)
  define x where "x = a * 2 ^ 40"
  have x: "x < 2 ^ 64" "x div 2 ^ 40 = a" using lt(1) by (simp_all add: x_def)
  have "push_bit 40 (of_nat a :: 64 word) = of_nat x"
    by (simp add: push_bit_of_nat push_bit_eq_mult x_def)
  moreover have "drop_bit 40 (of_nat x :: 64 word) = of_nat a"
    using lt(1) x by (simp only: word_unat_eq_iff unat_drop_bit_eq)
      (simp add: unsigned_of_nat take_bit_nat_eq_self drop_bit_eq_div)
  ultimately have a: "drop_bit 40 (push_bit 40 (of_nat a :: 64 word)) = of_nat a"
    by simp
  have a': "take_bit 40 (push_bit 40 (of_nat a :: 64 word)) = 0"
    by (simp add: take_bit_push_bit)
  show "drop_bit 40 (cache_key a b) = of_nat a" "take_bit 40 (cache_key a b) = of_nat b"
    by (simp_all add: cache_key_def drop_bit_xor take_bit_xor a a' b)
qed

lemma cache_key_inj:
  assumes "small_key a b" "small_key a' b'"
  shows "cache_key a b = cache_key a' b' \<longleftrightarrow> a = a' \<and> b = b'"
proof
  assume eq: "cache_key a b = cache_key a' b'"
  then have "(of_nat a :: 64 word) = of_nat a'" "(of_nat b :: 64 word) = of_nat b'"
    using key_split [OF assms(1)] key_split [OF assms(2)] by simp_all
  then have "unat (of_nat a :: 64 word) = unat (of_nat a' :: 64 word)"
    "unat (of_nat b :: 64 word) = unat (of_nat b' :: 64 word)" by simp_all
  then show "a = a' \<and> b = b'"
    using assms by (simp add: small_key_def unsigned_of_nat take_bit_nat_eq_self)
qed simp

section \<open>The invariant\<close>

definition cache_ok :: "(nat \<Rightarrow> nat \<Rightarrow> bytes option res) \<Rightarrow> block_cache \<Rightarrow> bool" where
  "cache_ok fetch C \<longleftrightarrow> dom (bc_map C) = set (bc_fifo C) \<and> distinct (bc_fifo C) \<and>
     length (bc_fifo C) \<le> CacheCap \<and>
     (\<forall>k raw. bc_map C k = Some raw \<longrightarrow>
        (\<exists>a b. small_key a b \<and> k = cache_key a b \<and> fetch a b = Inr (Some raw)))"

lemma cache_ok_empty: "cache_ok fetch empty_cache"
  by (simp add: cache_ok_def empty_cache_def)

lemma cache_ok_find:
  "cache_ok fetch C \<Longrightarrow> small_key a b \<Longrightarrow> cache_find C (cache_key a b) = Some raw \<Longrightarrow> fetch a b = Inr (Some raw)"
  unfolding cache_ok_def cache_find_def by (metis cache_key_inj)

lemma cache_ok_insert:
  assumes ok: "cache_ok fetch C" and key: "small_key a b" "fetch a b = Inr (Some raw)"
  shows "cache_ok fetch (cache_insert C (cache_key a b) raw)"
proof (cases "bc_map C (cache_key a b)")
  case (Some r)
  then show ?thesis using ok by (simp add: cache_insert_def)
next
  case None
  define k where "k = cache_key a b"
  have fresh: "k \<notin> set (bc_fifo C)" using ok None by (auto simp: cache_ok_def k_def)
  show ?thesis
  proof (cases "bc_fifo C")
    case Nil
    then show ?thesis using ok None key
      by (auto simp: cache_insert_def cache_ok_def CacheCap_def split: if_splits)
  next
    case (Cons q qs)
    then have C: "dom (bc_map C) = insert q (set qs)" "q \<notin> set qs" "distinct qs" "length qs < CacheCap" "q \<noteq> k" "k \<notin> set qs"
      and vals: "\<forall>k raw. bc_map C k = Some raw \<longrightarrow> (\<exists>a b. small_key a b \<and> k = cache_key a b \<and> fetch a b = Inr (Some raw))"
      using ok fresh by (auto simp: cache_ok_def)
    have *: "cache_insert C k raw = (if CacheCap < Suc (Suc (length qs))
        then \<lparr>bc_map = (bc_map C)(k \<mapsto> raw, q := None), bc_fifo = qs @ [k]\<rparr>
        else \<lparr>bc_map = (bc_map C)(k \<mapsto> raw), bc_fifo = q # qs @ [k]\<rparr>)"
      using None Cons by (simp add: cache_insert_def k_def Let_def)
    show ?thesis
      unfolding k_def [symmetric] *
      using C vals key by (auto simp: cache_ok_def k_def)
  qed
qed

definition phase_ok :: "(nat \<Rightarrow> nat \<Rightarrow> bytes option res) \<Rightarrow> phase \<Rightarrow> bool" where
  "phase_ok fetch p = (case p of
     Asked a b \<Rightarrow> small_key a b | Missed a b \<Rightarrow> small_key a b
   | Decoded a b raw \<Rightarrow> small_key a b \<and> fetch a b = Inr (Some raw)
   | Returned a b r \<Rightarrow> small_key a b \<and> fetch a b = r)"

definition threads_ok :: "(nat \<Rightarrow> nat \<Rightarrow> bytes option res) \<Rightarrow> (nat \<Rightarrow> phase option) \<Rightarrow> bool" where
  "threads_ok fetch T \<longleftrightarrow> (\<forall>t p. T t = Some p \<longrightarrow> phase_ok fetch p)"

text \<open>Steps between calls for blocks the key can tell apart.\<close>

definition asks_small :: "(nat \<Rightarrow> phase option) \<Rightarrow> bool" where
  "asks_small T \<longleftrightarrow> (\<forall>t a b. T t = Some (Asked a b) \<longrightarrow> small_key a b)"

lemma cache_step_ok:
  assumes "cache_step fetch (C, T) (C', T')" "cache_ok fetch C" "threads_ok fetch T" "asks_small T'"
  shows "cache_ok fetch C' \<and> threads_ok fetch T'"
  using assms(1)
proof (cases rule: cache_step.cases)
  case (hit t a b raw)
  then have "fetch a b = Inr (Some raw)"
    using assms(2,3) cache_ok_find by (fastforce simp: threads_ok_def phase_ok_def)
  then show ?thesis using hit assms(2,3) by (fastforce simp: threads_ok_def phase_ok_def)
next
  case (insert t a b raw)
  then have "phase_ok fetch (Decoded a b raw)" using assms(3) by (auto simp: threads_ok_def)
  then show ?thesis
    using insert assms(2,3) cache_ok_insert by (fastforce simp: threads_ok_def phase_ok_def)
qed (use assms in \<open>auto simp: threads_ok_def phase_ok_def asks_small_def split: if_splits\<close>,
     (use assms in \<open>fastforce simp: threads_ok_def phase_ok_def asks_small_def\<close>)+)

inductive cache_run :: "(nat \<Rightarrow> nat \<Rightarrow> bytes option res) \<Rightarrow> block_cache \<times> (nat \<Rightarrow> phase option) \<Rightarrow> bool" for fetch where
  start: "cache_run fetch (empty_cache, Map.empty)"
| next_step: "cache_run fetch s \<Longrightarrow> cache_step fetch s s' \<Longrightarrow> asks_small (snd s') \<Longrightarrow> cache_run fetch s'"

lemma cache_run_ok: "cache_run fetch s \<Longrightarrow> cache_ok fetch (fst s) \<and> threads_ok fetch (snd s)"
proof (induction rule: cache_run.induct)
  case start
  then show ?case by (simp add: cache_ok_empty threads_ok_def)
next
  case (next_step s s')
  then show ?case using cache_step_ok by (cases s; cases s') auto
qed

section \<open>Properties\<close>

text \<open>
  C14: the cache is transparent and bounded under any interleaving of concurrent reads. In
  every reachable state each call that has returned gave exactly what reading and
  decompressing its block gives, the cache never holds more than \<^verbatim>\<open>CacheCap\<close> blocks, and every
  cached entry is queued for eviction exactly once.
\<close>

theorem cached_reads_are_transparent:
  assumes "cache_run fetch (C, T)"
  shows "(\<forall>t a b r. T t = Some (Returned a b r) \<longrightarrow> r = fetch a b) \<and>
    length (bc_fifo C) \<le> CacheCap \<and> card (dom (bc_map C)) = length (bc_fifo C)"
proof -
  have ok: "cache_ok fetch C" "threads_ok fetch T" using cache_run_ok [OF assms] by simp_all
  have "r = fetch a b" if "T t = Some (Returned a b r)" for t a b r
    using ok(2) that by (fastforce simp: threads_ok_def phase_ok_def)
  then show ?thesis using ok(1) by (auto simp: cache_ok_def distinct_card)
qed

theorem cached_reads_are_transparent_witness:
  "\<exists>C T. cache_run (\<lambda>a b. Inr (Some [of_nat b])) (C, T) \<and> T 0 = Some (Returned 1 7 (Inr (Some [7]))) \<and>
     length (bc_fifo C) \<le> CacheCap"
proof -
  let ?f = "\<lambda>a b. Inr (Some [of_nat b]) :: bytes option res"
  let ?C = "cache_insert empty_cache (cache_key 1 7) [7]"
  have "cache_run ?f (empty_cache, [0 \<mapsto> Asked 1 7])"
    by (rule next_step [OF start]) (auto intro!: call simp: asks_small_def small_key_def)
  then have "cache_run ?f (empty_cache, [0 \<mapsto> Missed 1 7])"
    by (rule next_step) (use miss [of "[0 \<mapsto> Asked 1 7]" 0 1 7 empty_cache ?f] in \<open>auto simp: asks_small_def cache_find_def empty_cache_def\<close>)
  then have "cache_run ?f (empty_cache, [0 \<mapsto> Decoded 1 7 [7]])"
    by (rule next_step) (use decode [of "[0 \<mapsto> Missed 1 7]" 0 1 7 ?f "[7]"] in \<open>auto simp: asks_small_def\<close>)
  then have run: "cache_run ?f (?C, [0 \<mapsto> Returned 1 7 (Inr (Some [7]))])"
    by (rule next_step) (use cache_step.insert [of "[0 \<mapsto> Decoded 1 7 [7]]" 0 1 7 "[7]" ?f] in \<open>auto simp: asks_small_def\<close>)
  have "length (bc_fifo ?C) \<le> CacheCap" using cached_reads_are_transparent [OF run] by blast
  then show ?thesis using run by (intro exI [of _ ?C] exI [of _ "[0 \<mapsto> Returned 1 7 (Inr (Some [7]))]"]) simp
qed

text \<open>
  One call run alone returns what the uncached read returns and keeps the cache sound, for
  the blocks the 24 + 40 bit key distinguishes.
\<close>

theorem GetAddBlock_cached_equals_uncached:
  assumes "cache_ok fetch C" and "small_key a b"
  shows "fst (GetAddBlock_cached fetch C a b) = fetch a b \<and> cache_ok fetch (snd (GetAddBlock_cached fetch C a b))"
  using assms
  by (auto simp: GetAddBlock_cached_def Let_def cache_ok_find cache_ok_insert split: option.split sum.split)

theorem GetAddBlock_cached_equals_uncached_witness:
  "fst (GetAddBlock_cached (\<lambda>a b. Inr (Some [of_nat b])) empty_cache 2 5) = Inr (Some [5])"
  using GetAddBlock_cached_equals_uncached [OF cache_ok_empty, of 2 5 "\<lambda>a b. Inr (Some [of_nat b])"]
  by (simp add: small_key_def)

end
