(* ===== verification/HostIO.thy ===== *)
theory HostIO
  imports Prelude
begin

text \<open>
  The host interface of \<^verbatim>\<open>hostio.h\<close> as a record of operations over an abstract host state
  \<open>'h\<close>, and its POSIX implementation \<^verbatim>\<open>hostio_posix.cpp\<close> over a record of system calls,
  which are the kernel's and so a parameter. An operation that only reads the host returns
  its result; one that may change it returns the result and the state after it. The two
  \<^verbatim>\<open>std::filesystem\<close> calls of the core that act on the host are part of the record.
\<close>

section \<open>The interface\<close>

type_synonym fd = nat
type_synonym flags = "32 word"
type_synonym mode = "32 word"

definition O_RDONLY :: flags where "O_RDONLY = 0"
definition O_WRONLY :: flags where "O_WRONLY = 1"
definition O_RDWR :: flags where "O_RDWR = 2"
definition O_CREAT :: flags where "O_CREAT = 0x40"
definition O_TRUNC :: flags where "O_TRUNC = 0x200"
definition O_NOFOLLOW :: flags where "O_NOFOLLOW = 0x20000"

lemmas open_flags = O_RDONLY_def O_WRONLY_def O_RDWR_def O_CREAT_def O_TRUNC_def O_NOFOLLOW_def

record hstat =
  st_mode :: mode
  st_size :: nat
  st_mtime :: int
  st_nlink :: nat
  st_isDir :: bool
  st_isSymlink :: bool
  st_isRegular :: bool

record statvfs_info =
  sv_bsize :: nat
  sv_blocks :: nat
  sv_bfree :: nat
  sv_bavail :: nat
  sv_files :: nat
  sv_ffree :: nat
  sv_namemax :: nat

record 'h host =
  Open :: "string \<Rightarrow> flags \<Rightarrow> mode \<Rightarrow> 'h \<Rightarrow> fd res \<times> 'h"
  Close :: "fd \<Rightarrow> 'h \<Rightarrow> unit res \<times> 'h"
  Pread :: "'h \<Rightarrow> fd \<Rightarrow> nat \<Rightarrow> nat \<Rightarrow> bytes res"
  Pwrite :: "fd \<Rightarrow> bytes \<Rightarrow> nat \<Rightarrow> 'h \<Rightarrow> nat res \<times> 'h"
  Read :: "fd \<Rightarrow> nat \<Rightarrow> 'h \<Rightarrow> bytes res \<times> 'h"
  Write :: "fd \<Rightarrow> bytes \<Rightarrow> 'h \<Rightarrow> nat res \<times> 'h"
  Fsync :: "fd \<Rightarrow> 'h \<Rightarrow> unit res \<times> 'h"
  Ftruncate :: "fd \<Rightarrow> nat \<Rightarrow> 'h \<Rightarrow> unit res \<times> 'h"
  Fstat :: "'h \<Rightarrow> fd \<Rightarrow> hstat res"
  Fchmod :: "fd \<Rightarrow> mode \<Rightarrow> 'h \<Rightarrow> unit res \<times> 'h"
  Lstat :: "'h \<Rightarrow> string \<Rightarrow> hstat res"
  StatFollow :: "'h \<Rightarrow> string \<Rightarrow> hstat res"
  Mkdir :: "string \<Rightarrow> mode \<Rightarrow> 'h \<Rightarrow> unit res \<times> 'h"
  Unlink :: "string \<Rightarrow> 'h \<Rightarrow> unit res \<times> 'h"
  Rmdir :: "string \<Rightarrow> 'h \<Rightarrow> unit res \<times> 'h"
  Rename :: "string \<Rightarrow> string \<Rightarrow> 'h \<Rightarrow> unit res \<times> 'h"
  Link :: "string \<Rightarrow> string \<Rightarrow> 'h \<Rightarrow> unit res \<times> 'h"
  Truncate :: "string \<Rightarrow> nat \<Rightarrow> 'h \<Rightarrow> unit res \<times> 'h"
  Chmod :: "string \<Rightarrow> mode \<Rightarrow> 'h \<Rightarrow> unit res \<times> 'h"
  Utimens :: "string \<Rightarrow> int \<Rightarrow> int \<Rightarrow> bool \<Rightarrow> 'h \<Rightarrow> unit res \<times> 'h"
  Readlink :: "'h \<Rightarrow> string \<Rightarrow> string res"
  Symlink :: "string \<Rightarrow> string \<Rightarrow> 'h \<Rightarrow> unit res \<times> 'h"
  Statvfs :: "'h \<Rightarrow> string \<Rightarrow> statvfs_info res"
  ReadDir :: "'h \<Rightarrow> string \<Rightarrow> string list"
  create_directories :: "string \<Rightarrow> 'h \<Rightarrow> unit res \<times> 'h"
  weakly_canonical :: "'h \<Rightarrow> string \<Rightarrow> string list res"

text \<open>
  \<^verbatim>\<open>FullWrite\<close>: loop over short writes and interrupted ones. A host that is interrupted for
  ever keeps the loop running; it is followed for \<open>fuel\<close> calls, and \<open>NoReturn\<close> says that it
  was still running then.
\<close>

fun FullWrite :: "'h host \<Rightarrow> nat \<Rightarrow> fd \<Rightarrow> bytes \<Rightarrow> 'h \<Rightarrow> unit res \<times> 'h" where
  "FullWrite H fuel fd buf h =
     (if buf = [] then (Inr (), h)
      else case fuel of
        0 \<Rightarrow> (Inl NoReturn, h)
      | Suc k \<Rightarrow>
          (case Write H fd buf h of
             (Inl e, h) \<Rightarrow> if e = EINTR then FullWrite H k fd buf h else (Inl e, h)
           | (Inr w, h) \<Rightarrow> if w = 0 then (Inl EIO, h) else FullWrite H k fd (drop w buf) h))"

declare FullWrite.simps [simp del]

section \<open>The POSIX implementation\<close>

record posix_stat =
  px_mode :: mode
  px_size :: nat
  px_mtime :: int
  px_nlink :: nat

definition S_IFMT :: mode where "S_IFMT = 0xF000"
definition S_IFDIR :: mode where "S_IFDIR = 0x4000"
definition S_IFREG :: mode where "S_IFREG = 0x8000"
definition S_IFLNK :: mode where "S_IFLNK = 0xA000"

definition S_ISDIR :: "mode \<Rightarrow> bool" where "S_ISDIR m \<longleftrightarrow> and m S_IFMT = S_IFDIR"
definition S_ISREG :: "mode \<Rightarrow> bool" where "S_ISREG m \<longleftrightarrow> and m S_IFMT = S_IFREG"
definition S_ISLNK :: "mode \<Rightarrow> bool" where "S_ISLNK m \<longleftrightarrow> and m S_IFMT = S_IFLNK"

definition FromStat :: "posix_stat \<Rightarrow> hstat" where
  "FromStat st = \<lparr>st_mode = px_mode st, st_size = px_size st, st_mtime = px_mtime st,
     st_nlink = px_nlink st, st_isDir = S_ISDIR (px_mode st), st_isSymlink = S_ISLNK (px_mode st),
     st_isRegular = S_ISREG (px_mode st)\<rparr>"

text \<open>
  The system calls. Each gives the call's return value and \<^verbatim>\<open>errno\<close>, and what it stores in its
  buffer; a directory is opened and read to its end in one piece.
\<close>

record 'h posix =
  px_open :: "string \<Rightarrow> flags \<Rightarrow> mode \<Rightarrow> 'h \<Rightarrow> (int \<times> nat) \<times> 'h"
  px_close :: "fd \<Rightarrow> 'h \<Rightarrow> (int \<times> nat) \<times> 'h"
  px_pread :: "'h \<Rightarrow> fd \<Rightarrow> nat \<Rightarrow> nat \<Rightarrow> (int \<times> nat) \<times> bytes"
  px_pwrite :: "fd \<Rightarrow> bytes \<Rightarrow> nat \<Rightarrow> 'h \<Rightarrow> (int \<times> nat) \<times> 'h"
  px_read :: "fd \<Rightarrow> nat \<Rightarrow> 'h \<Rightarrow> ((int \<times> nat) \<times> bytes) \<times> 'h"
  px_write :: "fd \<Rightarrow> bytes \<Rightarrow> 'h \<Rightarrow> (int \<times> nat) \<times> 'h"
  px_fsync :: "fd \<Rightarrow> 'h \<Rightarrow> (int \<times> nat) \<times> 'h"
  px_ftruncate :: "fd \<Rightarrow> nat \<Rightarrow> 'h \<Rightarrow> (int \<times> nat) \<times> 'h"
  px_fchmod :: "fd \<Rightarrow> mode \<Rightarrow> 'h \<Rightarrow> (int \<times> nat) \<times> 'h"
  px_fstat :: "'h \<Rightarrow> fd \<Rightarrow> (int \<times> nat) \<times> posix_stat"
  px_lstat :: "'h \<Rightarrow> string \<Rightarrow> (int \<times> nat) \<times> posix_stat"
  px_stat :: "'h \<Rightarrow> string \<Rightarrow> (int \<times> nat) \<times> posix_stat"
  px_mkdir :: "string \<Rightarrow> mode \<Rightarrow> 'h \<Rightarrow> (int \<times> nat) \<times> 'h"
  px_unlink :: "string \<Rightarrow> 'h \<Rightarrow> (int \<times> nat) \<times> 'h"
  px_rmdir :: "string \<Rightarrow> 'h \<Rightarrow> (int \<times> nat) \<times> 'h"
  px_rename :: "string \<Rightarrow> string \<Rightarrow> 'h \<Rightarrow> (int \<times> nat) \<times> 'h"
  px_link :: "string \<Rightarrow> string \<Rightarrow> 'h \<Rightarrow> (int \<times> nat) \<times> 'h"
  px_truncate :: "string \<Rightarrow> nat \<Rightarrow> 'h \<Rightarrow> (int \<times> nat) \<times> 'h"
  px_chmod :: "string \<Rightarrow> mode \<Rightarrow> 'h \<Rightarrow> (int \<times> nat) \<times> 'h"
  px_utimensat :: "string \<Rightarrow> int \<Rightarrow> int \<Rightarrow> bool \<Rightarrow> 'h \<Rightarrow> (int \<times> nat) \<times> 'h"
  px_readlink :: "'h \<Rightarrow> string \<Rightarrow> nat \<Rightarrow> (int \<times> nat) \<times> string"
  px_symlink :: "string \<Rightarrow> string \<Rightarrow> 'h \<Rightarrow> (int \<times> nat) \<times> 'h"
  px_statvfs :: "'h \<Rightarrow> string \<Rightarrow> (int \<times> nat) \<times> statvfs_info"
  px_readdir :: "'h \<Rightarrow> string \<Rightarrow> string list option"
  px_create_directories :: "string \<Rightarrow> 'h \<Rightarrow> unit res \<times> 'h"
  px_weakly_canonical :: "'h \<Rightarrow> string \<Rightarrow> string list res"

text \<open>Return codes: \<^verbatim>\<open>call == 0 ? 0 : -errno\<close> and \<^verbatim>\<open>r < 0 ? -errno : r\<close>.\<close>

definition status_rc :: "int \<times> nat \<Rightarrow> unit res" where
  "status_rc r = (if fst r = 0 then Inr () else Inl (Errno (snd r)))"

definition count_rc :: "int \<times> nat \<Rightarrow> nat res" where
  "count_rc r = (if fst r < 0 then Inl (Errno (snd r)) else Inr (nat (fst r)))"

definition bytes_rc :: "(int \<times> nat) \<times> 'b list \<Rightarrow> 'b list res" where
  "bytes_rc r = (case count_rc (fst r) of Inl e \<Rightarrow> Inl e | Inr n \<Rightarrow> Inr (take n (snd r)))"

definition stat_rc :: "(int \<times> nat) \<times> posix_stat \<Rightarrow> hstat res" where
  "stat_rc r = (if fst (fst r) \<noteq> 0 then Inl (Errno (snd (fst r))) else Inr (FromStat (snd r)))"

definition posix_readdir :: "string list option \<Rightarrow> string list" where
  "posix_readdir r = (case r of None \<Rightarrow> [] | Some ns \<Rightarrow> filter (\<lambda>n. n \<noteq> ''.'' \<and> n \<noteq> ''..'') ns)"

definition posix_host :: "'h posix \<Rightarrow> 'h host" where
  "posix_host P = \<lparr>
     Open = (\<lambda>p f m h. apfst count_rc (px_open P p f m h)),
     Close = (\<lambda>fd h. apfst status_rc (px_close P fd h)),
     Pread = (\<lambda>h fd n off. bytes_rc (px_pread P h fd n off)),
     Pwrite = (\<lambda>fd b off h. apfst count_rc (px_pwrite P fd b off h)),
     Read = (\<lambda>fd n h. apfst bytes_rc (px_read P fd n h)),
     Write = (\<lambda>fd b h. apfst count_rc (px_write P fd b h)),
     Fsync = (\<lambda>fd h. apfst status_rc (px_fsync P fd h)),
     Ftruncate = (\<lambda>fd n h. apfst status_rc (px_ftruncate P fd n h)),
     Fstat = (\<lambda>h fd. stat_rc (px_fstat P h fd)),
     Fchmod = (\<lambda>fd m h. apfst status_rc (px_fchmod P fd m h)),
     Lstat = (\<lambda>h p. stat_rc (px_lstat P h p)),
     StatFollow = (\<lambda>h p. stat_rc (px_stat P h p)),
     Mkdir = (\<lambda>p m h. apfst status_rc (px_mkdir P p m h)),
     Unlink = (\<lambda>p h. apfst status_rc (px_unlink P p h)),
     Rmdir = (\<lambda>p h. apfst status_rc (px_rmdir P p h)),
     Rename = (\<lambda>a b h. apfst status_rc (px_rename P a b h)),
     Link = (\<lambda>a b h. apfst status_rc (px_link P a b h)),
     Truncate = (\<lambda>p n h. apfst status_rc (px_truncate P p n h)),
     Chmod = (\<lambda>p m h. apfst status_rc (px_chmod P p m h)),
     Utimens = (\<lambda>p a m follow h. apfst status_rc (px_utimensat P p a m (\<not> follow) h)),
     Readlink = (\<lambda>h p. bytes_rc (px_readlink P h p 4095)),
     Symlink = (\<lambda>t p h. apfst status_rc (px_symlink P t p h)),
     Statvfs = (\<lambda>h p. (case px_statvfs P h p of (r, sv) \<Rightarrow>
       if fst r \<noteq> 0 then Inl (Errno (snd r)) else Inr sv)),
     ReadDir = (\<lambda>h p. posix_readdir (px_readdir P h p)),
     create_directories = px_create_directories P,
     weakly_canonical = px_weakly_canonical P\<rparr>"

end
