(* ===== verification/LayerSpec.thy ===== *)
theory LayerSpec
  imports Prelude "HOL-Library.List_Lexorder" "HOL-Library.Char_ord"
begin

text \<open>
  \<^verbatim>\<open>layerspec.h\<close> and \<^verbatim>\<open>layerspec.cpp\<close>: virtual paths and their normalisation, the layer
  specification, and \<^verbatim>\<open>ParseSpec\<close>. The JSON library is not part of the program: it is the
  parameter record \<open>json\<close>, whose operations return the exception text on the left.
\<close>

section \<open>Virtual paths\<close>

text \<open>The two loops of \<^verbatim>\<open>NormalizeVPath\<close>: \<open>a\<close> moves right over slashes, then \<open>b\<close> moves left.\<close>

function skip_front :: "string \<Rightarrow> nat \<Rightarrow> nat \<Rightarrow> nat" where
  "skip_front p a b = (if a < b \<and> p ! a = CHR ''/'' then skip_front p (a + 1) b else a)"
  by pat_completeness auto
termination
  by (relation "measure (\<lambda>(p, a, b). b - a)") auto

function skip_back :: "string \<Rightarrow> nat \<Rightarrow> nat \<Rightarrow> nat" where
  "skip_back p a b = (if b > a \<and> p ! (b - 1) = CHR ''/'' then skip_back p a (b - 1) else b)"
  by pat_completeness auto
termination
  by (relation "measure (\<lambda>(p, a, b). b)") auto

declare skip_front.simps [simp del] skip_back.simps [simp del]

definition NormalizeVPath :: "string \<Rightarrow> string" where
  "NormalizeVPath p =
     (let b = length p; a = skip_front p 0 b; b = skip_back p a b in take (b - a) (drop a p))"

section \<open>The specification\<close>

datatype LayerType = Dir | Zip | File | Delta

record layer_spec =
  ls_type :: LayerType
  ls_source :: string
  ls_target :: string
  ls_baseTargets :: "string list"
  ls_submounts :: "(string \<times> string) list"
  ls_rw :: bool

record spec =
  sp_mountpoint :: string
  sp_uid :: nat
  sp_gid :: nat
  sp_readOnly :: bool
  sp_writelayer :: string
  sp_layers :: "layer_spec list"
  sp_caseInsensitive :: bool

section \<open>ParseSpec\<close>

record 'j json =
  js_load :: "string \<Rightarrow> (string + 'j) option"
  js_at :: "'j \<Rightarrow> string \<Rightarrow> string + 'j"
  js_contains :: "'j \<Rightarrow> string \<Rightarrow> bool"
  js_get_string :: "'j \<Rightarrow> string + string"
  js_value_uint :: "'j \<Rightarrow> string \<Rightarrow> nat \<Rightarrow> string + nat"
  js_value_bool :: "'j \<Rightarrow> string \<Rightarrow> bool \<Rightarrow> string + bool"
  js_value_string :: "'j \<Rightarrow> string \<Rightarrow> string \<Rightarrow> string + string"
  js_is_null :: "'j \<Rightarrow> bool"
  js_is_array :: "'j \<Rightarrow> bool"
  js_is_string :: "'j \<Rightarrow> bool"
  js_items :: "'j \<Rightarrow> 'j list"

text \<open>
  What leaves the \<^verbatim>\<open>try\<close> block: an exception of the library, whose text is put behind
  ``spec field error'', or a \<^verbatim>\<open>return false\<close> with a message of its own.
\<close>

datatype spec_fail = Thrown string | Refused string

definition try_json :: "string + 'a \<Rightarrow> spec_fail + 'a" where
  "try_json r = (case r of Inl w \<Rightarrow> Inl (Thrown w) | Inr x \<Rightarrow> Inr x)"

definition parse_type :: "string \<Rightarrow> spec_fail + LayerType" where
  "parse_type t =
     (if t = ''dir'' then Inr Dir
      else if t = ''zip'' then Inr Zip
      else if t = ''file'' then Inr File
      else if t = ''delta'' then Inr Delta
      else Inl (Refused (''unknown layer type: '' @ t)))"

fun parse_bases :: "'j json \<Rightarrow> 'j list \<Rightarrow> string list \<Rightarrow> spec_fail + string list" where
  "parse_bases J [] acc = Inr acc"
| "parse_bases J (t # ts) acc =
     (if \<not> js_is_string J t then Inl (Refused ''layer baseTargets contains a non-string entry'')
      else bindE (try_json (js_get_string J t)) (\<lambda>s. parse_bases J ts (acc @ [NormalizeVPath s])))"

text \<open>A submount is split at its first colon; an entry that is no string or has no colon is ignored.\<close>

fun parse_submounts :: "'j json \<Rightarrow> 'j list \<Rightarrow> (string \<times> string) list \<Rightarrow> spec_fail + (string \<times> string) list" where
  "parse_submounts J [] acc = Inr acc"
| "parse_submounts J (e # es) acc =
     (if \<not> js_is_string J e then parse_submounts J es acc
      else bindE (try_json (js_get_string J e)) (\<lambda>s.
        (case find_first_of (CHR '':'') s of
           None \<Rightarrow> parse_submounts J es acc
         | Some c \<Rightarrow> parse_submounts J es
             (acc @ [(NormalizeVPath (take c s), NormalizeVPath (drop (c + 1) s))]))))"

definition parse_layer :: "'j json \<Rightarrow> 'j \<Rightarrow> spec_fail + layer_spec" where
  "parse_layer J l =
     bindE (try_json (js_at J l ''type'')) (\<lambda>jt. bindE (try_json (js_get_string J jt)) (\<lambda>t.
     bindE (parse_type t) (\<lambda>ty.
     bindE (try_json (js_at J l ''source'')) (\<lambda>js. bindE (try_json (js_get_string J js)) (\<lambda>src.
     bindE (try_json (js_value_string J l ''target'' [])) (\<lambda>tgt.
     bindE (if js_contains J l ''baseTargets'' then
              bindE (try_json (js_at J l ''baseTargets'')) (\<lambda>b.
                if \<not> js_is_array J b then Inl (Refused ''layer baseTargets must be an array'')
                else parse_bases J (js_items J b) [])
            else Inr []) (\<lambda>bases.
     bindE (try_json (js_value_bool J l ''rw'' False)) (\<lambda>rw.
     bindE (if js_contains J l ''submounts'' then
              bindE (try_json (js_at J l ''submounts'')) (\<lambda>s.
                if js_is_array J s then parse_submounts J (js_items J s) [] else Inr [])
            else Inr []) (\<lambda>subs.
     Inr \<lparr>ls_type = ty, ls_source = src, ls_target = NormalizeVPath tgt, ls_baseTargets = bases,
       ls_submounts = subs, ls_rw = rw\<rparr>)))))))))"

fun parse_layers :: "'j json \<Rightarrow> 'j list \<Rightarrow> layer_spec list \<Rightarrow> spec_fail + layer_spec list" where
  "parse_layers J [] acc = Inr acc"
| "parse_layers J (l # ls) acc = bindE (parse_layer J l) (\<lambda>x. parse_layers J ls (acc @ [x]))"

definition parse_fields :: "'j json \<Rightarrow> bool \<Rightarrow> 'j \<Rightarrow> spec_fail + spec" where
  "parse_fields J win j =
     bindE (try_json (js_at J j ''mountpoint'')) (\<lambda>jm. bindE (try_json (js_get_string J jm)) (\<lambda>mp.
     bindE (try_json (js_value_uint J j ''uid'' 1000)) (\<lambda>uid.
     bindE (try_json (js_value_uint J j ''gid'' 1000)) (\<lambda>gid.
     bindE (try_json (js_value_bool J j ''readonly'' False)) (\<lambda>ro.
     bindE (try_json (js_value_bool J j ''caseInsensitive'' win)) (\<lambda>ci.
     bindE (if \<not> ro \<and> js_contains J j ''writelayer'' then
              bindE (try_json (js_at J j ''writelayer'')) (\<lambda>w.
                if js_is_null J w then Inr [] else try_json (js_get_string J w))
            else Inr []) (\<lambda>wl.
     bindE (try_json (js_at J j ''layers'')) (\<lambda>jl.
     bindE (parse_layers J (js_items J jl) []) (\<lambda>ls.
     Inr \<lparr>sp_mountpoint = mp, sp_uid = uid, sp_gid = gid, sp_readOnly = ro, sp_writelayer = wl,
       sp_layers = ls, sp_caseInsensitive = ci\<rparr>)))))))))"

text \<open>\<open>win\<close> is the default of \<^verbatim>\<open>caseInsensitive\<close>: true in a Windows build only.\<close>

definition ParseSpec :: "'j json \<Rightarrow> bool \<Rightarrow> string \<Rightarrow> string + spec" where
  "ParseSpec J win path =
     (case js_load J path of
        None \<Rightarrow> Inl (''cannot open spec file: '' @ path)
      | Some (Inl w) \<Rightarrow> Inl (''spec JSON parse error: '' @ w)
      | Some (Inr j) \<Rightarrow>
          (case parse_fields J win j of
             Inl (Thrown w) \<Rightarrow> Inl (''spec field error: '' @ w)
           | Inl (Refused m) \<Rightarrow> Inl m
           | Inr s \<Rightarrow> if sp_mountpoint s = [] then Inl ''spec has empty mountpoint'' else Inr s))"

section \<open>Normalised paths\<close>

definition normal :: "string \<Rightarrow> bool" where
  "normal p \<longleftrightarrow> (p \<noteq> [] \<longrightarrow> hd p \<noteq> CHR ''/'' \<and> last p \<noteq> CHR ''/'')"

lemma skip_front_spec:
  "a \<le> b \<Longrightarrow> skip_front p a b \<le> b \<and> a \<le> skip_front p a b \<and>
    (skip_front p a b < b \<longrightarrow> p ! skip_front p a b \<noteq> CHR ''/'')"
proof (induction p a b rule: skip_front.induct)
  case (1 p a b)
  show ?case
  proof (cases "a < b \<and> p ! a = CHR ''/''")
    case True
    then have "skip_front p a b = skip_front p (a + 1) b" by (subst skip_front.simps) simp
    then show ?thesis using "1.IH" [OF True] True by auto
  next
    case False
    then have "skip_front p a b = a" by (subst skip_front.simps) auto
    then show ?thesis using False "1.prems" by auto
  qed
qed

lemma skip_back_spec:
  "a \<le> b \<Longrightarrow> skip_back p a b \<le> b \<and> a \<le> skip_back p a b \<and>
    (a < skip_back p a b \<longrightarrow> p ! (skip_back p a b - 1) \<noteq> CHR ''/'')"
proof (induction p a b rule: skip_back.induct)
  case (1 p a b)
  show ?case
  proof (cases "b > a \<and> p ! (b - 1) = CHR ''/''")
    case True
    then have "skip_back p a b = skip_back p a (b - 1)" by (subst skip_back.simps) simp
    moreover have "a \<le> b - 1" using True by linarith
    ultimately show ?thesis using "1.IH" [OF True] by (metis diff_le_self le_trans)
  next
    case False
    then have "skip_back p a b = b" by (subst skip_back.simps) auto
    then show ?thesis using False "1.prems" by auto
  qed
qed

lemma NormalizeVPath_normal: "normal (NormalizeVPath p)"
proof -
  define a where "a = skip_front p 0 (length p)"
  define b where "b = skip_back p a (length p)"
  have a: "a \<le> length p" "a < length p \<longrightarrow> p ! a \<noteq> CHR ''/''"
    using skip_front_spec [of 0 "length p" p] by (auto simp: a_def)
  have b: "b \<le> length p" "a \<le> b" "a < b \<longrightarrow> p ! (b - 1) \<noteq> CHR ''/''"
    using skip_back_spec [of a "length p" p] a(1) by (auto simp: b_def)
  have "NormalizeVPath p = take (b - a) (drop a p)" by (simp add: NormalizeVPath_def Let_def a_def b_def)
  then show ?thesis
    using a b by (auto simp: normal_def hd_conv_nth last_conv_nth)
qed

lemma NormalizeVPath_id: "normal p \<Longrightarrow> NormalizeVPath p = p"
proof (cases "p = []")
  case True
  then show ?thesis by (simp add: NormalizeVPath_def)
next
  case False
  moreover assume "normal p"
  ultimately have "skip_front p 0 (length p) = 0" "skip_back p 0 (length p) = length p"
    by (simp_all add: normal_def skip_front.simps [of p 0] skip_back.simps [of p 0] hd_conv_nth last_conv_nth)
  then show ?thesis by (simp add: NormalizeVPath_def)
qed

end
