(* ===== verification/ZipScan.thy ===== *)
theory ZipScan
  imports ByteSource LayerSpec
begin

text \<open>
  \<^verbatim>\<open>zipscan.cpp\<close>: the walk over a zip archive's central directory, with the end record
  found from the back, the ZIP64 fields, and a callback per record. The archive is a reader and
  its size. A callback's captured state is threaded through the walk; \<open>Inl\<close> is a read that
  does not return.
\<close>

definition str_of_bytes :: "bytes \<Rightarrow> string" where
  "str_of_bytes bs = map (\<lambda>b. char_of (unat b)) bs"

definition bytes_of_str :: "string \<Rightarrow> bytes" where
  "bytes_of_str s = map (\<lambda>c. of_nat (of_char c)) s"

definition EOCD_SIG :: "32 word" where "EOCD_SIG = 0x06054b50"
definition LOC64_SIG :: "32 word" where "LOC64_SIG = 0x07064b50"
definition EOCD64_SIG :: "32 word" where "EOCD64_SIG = 0x06064b50"
definition CD_SIG :: "32 word" where "CD_SIG = 0x02014b50"
definition LH_SIG :: "32 word" where "LH_SIG = 0x04034b50"

text \<open>The scan for the end record: from the last place it can start down to the first.\<close>

fun find_eocd :: "bytes \<Rightarrow> nat \<Rightarrow> nat option" where
  "find_eocd buf i =
     (if Rd32 (drop i buf) = EOCD_SIG then Some i
      else case i of 0 \<Rightarrow> None | Suc j \<Rightarrow> find_eocd buf j)"

declare find_eocd.simps [simp del]

text \<open>The ZIP64 extra field: the local-header offset follows the sizes that are sentinels.\<close>

function zip64_offset :: "bytes \<Rightarrow> nat \<Rightarrow> 32 word \<Rightarrow> 32 word \<Rightarrow> nat \<Rightarrow> nat" where
  "zip64_offset extra e uncompSize32 compSize32 lhOffset =
     (if e + 4 \<le> length extra then
        let i = Rd16 (drop e extra); sz = unat (Rd16 (drop (e + 2) extra)) in
        if e + 4 + sz > length extra then lhOffset
        else if i = 1 then
          let f = e + 4; fin = e + 4 + sz;
              f = (if uncompSize32 = 0xFFFFFFFF \<and> f + 8 \<le> fin then f + 8 else f);
              f = (if compSize32 = 0xFFFFFFFF \<and> f + 8 \<le> fin then f + 8 else f)
          in if f + 8 \<le> fin then unat (Rd64 (drop f extra)) else lhOffset
        else zip64_offset extra (e + (4 + sz)) uncompSize32 compSize32 lhOffset
      else lhOffset)"
  by pat_completeness auto
termination
  by (relation "measure (\<lambda>(extra, e, u, c, l). length extra - e)") auto

declare zip64_offset.simps [simp del]

text \<open>The end record, or its ZIP64 replacement: the number of records and where they start.\<close>

definition central_dir :: "reader \<Rightarrow> nat \<Rightarrow> (nat \<times> nat) option res" where
  "central_dir rd fsize =
     (if fsize < 22 then Inr None
      else
        let tail = min fsize (22 + 65535) in
        case preadAll rd tail (fsize - tail) of
          Inl x \<Rightarrow> Inl x
        | Inr None \<Rightarrow> Inr None
        | Inr (Some buf) \<Rightarrow>
            (case find_eocd buf (tail - 22) of
               None \<Rightarrow> Inr None
             | Some eocd \<Rightarrow>
                 let E = drop eocd buf;
                     totalEntries = unat (Rd16 (drop 10 E));
                     cdOffset = unat (Rd32 (drop 16 E));
                     eocdFileOff = fsize - tail + eocd
                 in if cdOffset = 0xFFFFFFFF \<or> totalEntries = 0xFFFF then
                      if eocdFileOff < 20 then Inr None
                      else case preadAll rd 20 (eocdFileOff - 20) of
                        Inl x \<Rightarrow> Inl x
                      | Inr None \<Rightarrow> Inr None
                      | Inr (Some loc) \<Rightarrow>
                          if Rd32 loc \<noteq> LOC64_SIG then Inr None
                          else case preadAll rd 56 (unat (Rd64 (drop 8 loc))) of
                            Inl x \<Rightarrow> Inl x
                          | Inr None \<Rightarrow> Inr None
                          | Inr (Some z64) \<Rightarrow>
                              if Rd32 z64 \<noteq> EOCD64_SIG then Inr None
                              else Inr (Some (unat (Rd64 (drop 32 z64)), unat (Rd64 (drop 48 z64))))
                    else Inr (Some (totalEntries, cdOffset))))"

text \<open>
  One record: name, method, local-header offset and the position of the next record. A ZIP64
  extra that cannot be read leaves the 32-bit offset.
\<close>

definition cd_record :: "reader \<Rightarrow> nat \<Rightarrow> (string \<times> nat \<times> nat \<times> nat) option res" where
  "cd_record rd pos =
     (case preadAll rd 46 pos of
        Inl x \<Rightarrow> Inl x
      | Inr None \<Rightarrow> Inr None
      | Inr (Some rec) \<Rightarrow>
          if Rd32 rec \<noteq> CD_SIG then Inr None
          else
            let meth = unat (Rd16 (drop 10 rec));
                nameLen = unat (Rd16 (drop 28 rec));
                extraLen = unat (Rd16 (drop 30 rec));
                commLen = unat (Rd16 (drop 32 rec));
                compSize32 = Rd32 (drop 20 rec);
                uncompSize32 = Rd32 (drop 24 rec);
                lhOffset = unat (Rd32 (drop 42 rec));
                nextPos = u64 (pos + (46 + nameLen + extraLen + commLen))
            in
            case (if nameLen \<noteq> 0 then preadAll rd nameLen (u64 (pos + 46)) else Inr (Some [])) of
              Inl x \<Rightarrow> Inl x
            | Inr None \<Rightarrow> Inr None
            | Inr (Some name) \<Rightarrow>
                if lhOffset = 0xFFFFFFFF \<and> extraLen \<noteq> 0 then
                  (case preadAll rd extraLen (u64 (pos + 46 + nameLen)) of
                     Inl x \<Rightarrow> Inl x
                   | Inr None \<Rightarrow> Inr (Some (str_of_bytes name, meth, lhOffset, nextPos))
                   | Inr (Some extra) \<Rightarrow>
                       Inr (Some (str_of_bytes name, meth,
                         zip64_offset extra 0 uncompSize32 compSize32 lhOffset, nextPos)))
                else Inr (Some (str_of_bytes name, meth, lhOffset, nextPos)))"

function walk_records ::
  "reader \<Rightarrow> (string \<Rightarrow> nat \<Rightarrow> nat \<Rightarrow> 's \<Rightarrow> bool \<times> 's) \<Rightarrow> nat \<Rightarrow> nat \<Rightarrow> nat \<Rightarrow> 's \<Rightarrow> (bool \<times> 's) res" where
  "walk_records rd cb totalEntries i pos s =
     (if i < totalEntries then
        case cd_record rd pos of
          Inl x \<Rightarrow> Inl x
        | Inr None \<Rightarrow> Inr (False, s)
        | Inr (Some (name, meth, lhOffset, nextPos)) \<Rightarrow>
            (case cb name meth lhOffset s of
               (go, s) \<Rightarrow> if \<not> go then Inr (True, s)
                 else walk_records rd cb totalEntries (i + 1) nextPos s)
      else Inr (True, s))"
  by pat_completeness auto
termination
  by (relation "measure (\<lambda>(rd, cb, totalEntries, i, pos, s). totalEntries - i)") auto

declare walk_records.simps [simp del]

definition WalkCentralDir ::
  "reader \<Rightarrow> nat \<Rightarrow> (string \<Rightarrow> nat \<Rightarrow> nat \<Rightarrow> 's \<Rightarrow> bool \<times> 's) \<Rightarrow> 's \<Rightarrow> (bool \<times> 's) res" where
  "WalkCentralDir rd fsize cb s =
     (case central_dir rd fsize of
        Inl x \<Rightarrow> Inl x
      | Inr None \<Rightarrow> Inr (False, s)
      | Inr (Some (totalEntries, cdOffset)) \<Rightarrow> walk_records rd cb totalEntries 0 cdOffset s)"

definition CentralDirOffsets :: "reader \<Rightarrow> nat \<Rightarrow> (string \<rightharpoonup> nat) res" where
  "CentralDirOffsets rd fsize =
     map_sum id snd (WalkCentralDir rd fsize
       (\<lambda>raw meth lhOffset out.
          let vrel = NormalizeVPath raw in
          (True, if vrel \<noteq> [] then out(vrel \<mapsto> lhOffset) else out)) Map.empty)"

definition FirstCompressedEntry :: "reader \<Rightarrow> nat \<Rightarrow> string res" where
  "FirstCompressedEntry rd fsize =
     map_sum id snd (WalkCentralDir rd fsize
       (\<lambda>raw meth lhOffset result.
          if meth = 0 then (True, result)
          else (False, if raw = [] then ''(entry)'' else raw)) [])"

text \<open>\<open>None\<close> is \<^verbatim>\<open>UINT64_MAX\<close>, the bad header; the sum can also wrap to that value.\<close>

definition UINT64_MAX :: nat where "UINT64_MAX = W64 - 1"

definition LocalDataOffset :: "reader \<Rightarrow> nat \<Rightarrow> nat res" where
  "LocalDataOffset rd lhOffset =
     (case preadAll rd 30 lhOffset of
        Inl x \<Rightarrow> Inl x
      | Inr None \<Rightarrow> Inr UINT64_MAX
      | Inr (Some lh) \<Rightarrow>
          if Rd32 lh \<noteq> LH_SIG then Inr UINT64_MAX
          else Inr (u64 (lhOffset + 30 + unat (Rd16 (drop 26 lh)) + unat (Rd16 (drop 28 lh)))))"

end
