(* ===== verification/ZipLayer.thy ===== *)
theory ZipLayer
  imports ZipScan Delta
begin

text \<open>
  \<^verbatim>\<open>ziplayer.cpp\<close>: the index of a zip layer, reads of its stored entries, and the chase of
  archive symlinks. libzip, which enumerates the entries, is a parameter: for a reader and its
  size it gives the entries' \<^verbatim>\<open>zip_stat\<close> in order, or nothing when it cannot open the archive.
\<close>

section \<open>Entries\<close>

record zip_entry =
  ze_name :: string
  ze_index :: nat
  ze_size :: nat
  ze_mtime :: int
  ze_isDir :: bool
  ze_symlink :: bool
  ze_stored :: bool
  ze_dataOffset :: nat

record zip_index =
  archivePath :: string
  z_src :: source
  byName :: "string \<rightharpoonup> zip_entry"
  dirChildren :: "string \<rightharpoonup> string set"

record zip_reader =
  zr_stored :: bool
  zr_src :: "source option"
  zr_dataOffset :: nat
  zr_size :: nat

text \<open>
  \<^verbatim>\<open>zip_stat_t\<close>: a field is \<open>None\<close> when its bit in \<^verbatim>\<open>valid\<close> is off; \<open>zs_attr\<close> is what
  \<^verbatim>\<open>zip_file_get_external_attributes\<close> gives (operating system and attributes).
\<close>

record zip_stat =
  zs_name :: "string option"
  zs_size :: "nat option"
  zs_mtime :: "int option"
  zs_method :: "nat option"
  zs_encryption :: "nat option"
  zs_attr :: "(nat \<times> 32 word) option"

type_synonym libzip = "reader \<Rightarrow> nat \<Rightarrow> zip_stat option list option"

definition ZIP_CM_STORE :: nat where "ZIP_CM_STORE = 0"
definition ZIP_EM_NONE :: nat where "ZIP_EM_NONE = 0"
definition ZIP_OPSYS_UNIX :: nat where "ZIP_OPSYS_UNIX = 3"

section \<open>The index\<close>

definition add_child :: "string \<Rightarrow> string \<Rightarrow> zip_index \<Rightarrow> zip_index" where
  "add_child parent child I = I\<lparr>dirChildren := (dirChildren I)(parent \<mapsto>
     Set.insert child (case dirChildren I parent of None \<Rightarrow> {} | Some cs \<Rightarrow> cs))\<rparr>"

lemma parent_shorter [termination_simp]: "find_last_of c s = Some i \<Longrightarrow> i < length s"
  by (simp add: find_last_of_SomeD)

function RegisterParents :: "zip_index \<Rightarrow> string \<Rightarrow> zip_index" where
  "RegisterParents I cur =
     (case find_last_of (CHR ''/'') cur of
        None \<Rightarrow> if cur = [] then I else add_child [] cur I
      | Some slash \<Rightarrow>
          let parent = take slash cur; child = drop (slash + 1) cur in
          if child = [] then I
          else let I = add_child parent child I in
               if parent = [] then I else RegisterParents I parent)"
  by pat_completeness auto
termination
  by (relation "measure (\<lambda>(I, cur). length cur)") (auto dest: parent_shorter)

declare RegisterParents.simps [simp del]

definition S_LNK_MASK :: "32 word" where "S_LNK_MASK = 0xF000"
definition S_LNK_BITS :: "32 word" where "S_LNK_BITS = 0xA000"

definition is_symlink_attr :: "(nat \<times> 32 word) option \<Rightarrow> bool" where
  "is_symlink_attr a = (case a of None \<Rightarrow> False
     | Some (opsys, ext) \<Rightarrow> opsys = ZIP_OPSYS_UNIX \<and> and (drop_bit 16 ext) S_LNK_MASK = S_LNK_BITS)"

text \<open>The data offset of a stored, unencrypted entry, from its local header.\<close>

definition stored_offset :: "reader \<Rightarrow> (string \<rightharpoonup> nat) \<Rightarrow> zip_stat \<Rightarrow> string \<Rightarrow> nat option res" where
  "stored_offset rd lhOffsets st vrel =
     (let storeMethod = (zs_method st = Some ZIP_CM_STORE);
          encrypted = (case zs_encryption st of None \<Rightarrow> False | Some m \<Rightarrow> m \<noteq> ZIP_EM_NONE)
      in if storeMethod \<and> \<not> encrypted then
           (case lhOffsets vrel of
              None \<Rightarrow> Inr None
            | Some lh \<Rightarrow>
                (case LocalDataOffset rd lh of
                   Inl x \<Rightarrow> Inl x
                 | Inr doff \<Rightarrow> Inr (if doff \<noteq> UINT64_MAX then Some doff else None)))
         else Inr None)"

definition index_entry ::
  "reader \<Rightarrow> (string \<rightharpoonup> nat) \<Rightarrow> nat \<Rightarrow> zip_stat option \<Rightarrow> zip_index \<Rightarrow> zip_index res" where
  "index_entry rd lhOffsets i st I =
     (case st of None \<Rightarrow> Inr I
      | Some st \<Rightarrow>
     (case zs_name st of None \<Rightarrow> Inr I
      | Some raw \<Rightarrow>
        let isDir = (raw \<noteq> [] \<and> last raw = CHR ''/''); vrel = NormalizeVPath raw in
        if vrel = [] then Inr I
        else
          let e = \<lparr>ze_name = vrel, ze_index = i, ze_size = 0,
                   ze_mtime = (case zs_mtime st of None \<Rightarrow> 0 | Some t \<Rightarrow> t), ze_isDir = isDir,
                   ze_symlink = False, ze_stored = False, ze_dataOffset = 0\<rparr> in
          if isDir then
            Inr (RegisterParents
              (I\<lparr>byName := (byName I)(vrel \<mapsto> e),
                 dirChildren := (if dirChildren I vrel = None then (dirChildren I)(vrel \<mapsto> {}) else dirChildren I)\<rparr>)
              vrel)
          else
            (case stored_offset rd lhOffsets st vrel of
               Inl x \<Rightarrow> Inl x
             | Inr d \<Rightarrow>
                 let e = e\<lparr>ze_size := (case zs_size st of None \<Rightarrow> 0 | Some n \<Rightarrow> n),
                           ze_symlink := is_symlink_attr (zs_attr st),
                           ze_stored := (d \<noteq> None), ze_dataOffset := (case d of None \<Rightarrow> 0 | Some o' \<Rightarrow> o')\<rparr>
                 in Inr (RegisterParents (I\<lparr>byName := (byName I)(vrel \<mapsto> e)\<rparr>) vrel))))"

fun index_entries ::
  "reader \<Rightarrow> (string \<rightharpoonup> nat) \<Rightarrow> nat \<Rightarrow> zip_stat option list \<Rightarrow> zip_index \<Rightarrow> zip_index res" where
  "index_entries rd lhOffsets i [] I = Inr I"
| "index_entries rd lhOffsets i (st # sts) I =
     bindE (index_entry rd lhOffsets i st I) (index_entries rd lhOffsets (i + 1) sts)"

text \<open>\<open>Inr None\<close> is the null pointer; \<open>Inl\<close> a read that does not return.\<close>

definition BuildZipIndex :: "zstd \<Rightarrow> libzip \<Rightarrow> source \<Rightarrow> string \<Rightarrow> zip_index option res" where
  "BuildZipIndex Z lib src name =
     (let rd = pread Z src in
      case lib rd (src_size src) of
        None \<Rightarrow> Inr None
      | Some sts \<Rightarrow>
          bindE (CentralDirOffsets rd (src_size src)) (\<lambda>lhOffsets.
            map_sum id Some (index_entries rd lhOffsets 0 sts
              \<lparr>archivePath = name, z_src = src, byName = Map.empty, dirChildren = Map.empty\<rparr>)))"

section \<open>Open and read\<close>

definition OpenZipEntry :: "zip_index \<Rightarrow> zip_entry \<Rightarrow> zip_reader res" where
  "OpenZipEntry I e =
     (if ze_stored e then
        Inr \<lparr>zr_stored = True, zr_src = Some (z_src I), zr_dataOffset = ze_dataOffset e, zr_size = ze_size e\<rparr>
      else Inl EIO)"

definition ReadZipEntry :: "zstd \<Rightarrow> zip_reader \<Rightarrow> nat \<Rightarrow> int \<Rightarrow> bytes res" where
  "ReadZipEntry Z r n off =
     (if off < 0 then Inl EINVAL
      else if \<not> zr_stored r then Inl EIO
      else case zr_src r of
        None \<Rightarrow> Inl EIO
      | Some src \<Rightarrow>
          if nat off \<ge> zr_size r then Inr []
          else let avail = zr_size r - nat off; want = (if n < avail then n else avail)
               in pread Z src want (u64 (zr_dataOffset r + nat off)))"

section \<open>Archive symlinks\<close>

text \<open>The segments of a path: the pieces between slashes, empty ones included.\<close>

fun segments :: "string \<Rightarrow> string \<Rightarrow> string list" where
  "segments acc [] = [acc]"
| "segments acc (c # cs) = (if c = CHR ''/'' then acc # segments [] cs else segments (acc @ [c]) cs)"

fun push_segs :: "string list \<Rightarrow> string list \<Rightarrow> string list option" where
  "push_segs xs [] = Some xs"
| "push_segs xs (s # ss) =
     (if s = ''..'' then (if xs = [] then None else push_segs (butlast xs) ss)
      else if s \<noteq> [] \<and> s \<noteq> ''.'' then push_segs (xs @ [s]) ss
      else push_segs xs ss)"

fun join_segs :: "string \<Rightarrow> string list \<Rightarrow> string" where
  "join_segs out [] = out"
| "join_segs out (s # ss) = join_segs ((if out \<noteq> [] then out @ ''/'' else out) @ s) ss"

definition JoinNormalized :: "string \<Rightarrow> string \<Rightarrow> string option" where
  "JoinNormalized base target =
     (case push_segs [] (segments [] base) of
        None \<Rightarrow> None
      | Some xs \<Rightarrow>
          (case push_segs xs (segments [] target) of
             None \<Rightarrow> None
           | Some xs \<Rightarrow> Some (join_segs [] xs)))"

text \<open>
  One hop: the entry the link names, if it stays in the archive. A read that fails, is short or
  does not return gives no entry.
\<close>

definition zip_hop :: "zstd \<Rightarrow> zip_index \<Rightarrow> zip_entry \<Rightarrow> zip_entry option" where
  "zip_hop Z I cur =
     (if \<not> ze_stored cur \<or> ze_size cur = 0 \<or> ze_size cur > 4096 then None
      else case pread Z (z_src I) (ze_size cur) (ze_dataOffset cur) of
        Inl _ \<Rightarrow> None
      | Inr bs \<Rightarrow>
          if length bs \<noteq> ze_size cur then None
          else
            let tgt = str_of_bytes bs in
            if tgt \<noteq> [] \<and> hd tgt = CHR ''/'' then None
            else
              let dir = (case find_last_of (CHR ''/'') (ze_name cur) of None \<Rightarrow> [] | Some i \<Rightarrow> take i (ze_name cur)) in
              case JoinNormalized dir tgt of
                None \<Rightarrow> None
              | Some resolved \<Rightarrow> byName I resolved)"

fun zip_hops :: "zstd \<Rightarrow> zip_index \<Rightarrow> nat \<Rightarrow> zip_entry \<Rightarrow> zip_entry option" where
  "zip_hops Z I n cur =
     (if n > 0 \<and> ze_symlink cur then
        (case zip_hop Z I cur of None \<Rightarrow> None | Some e \<Rightarrow> zip_hops Z I (n - 1) e)
      else if ze_symlink cur \<or> ze_isDir cur then None else Some cur)"

declare zip_hops.simps [simp del]

definition ResolveZipSymlink :: "zstd \<Rightarrow> zip_index \<Rightarrow> zip_entry \<Rightarrow> zip_entry option" where
  "ResolveZipSymlink Z I e = zip_hops Z I 8 e"

end
