(* ===== verification/Overlay.thy ===== *)
theory Overlay
  imports HostIO ZipLayer "HOL-Library.State_Monad"
begin

text \<open>
  The running filesystem state of \<^verbatim>\<open>overlay.h\<close> and what \<^verbatim>\<open>overlay.cpp\<close> computes from it
  without changing anything: path helpers, coverage, the deletion masks, letter case, and
  \<^verbatim>\<open>Resolve\<close>. Virtual paths are strings without leading or trailing slash, the root is
  empty. The masks are sets; the copy-on-write swap of a shared pointer is the update of the
  set, and the operations below are the sequential ones (\<^verbatim>\<open>maskWriteMtx\<close> orders the writers).
\<close>

section \<open>State\<close>

record kept_masks =
  deleted :: "string set"
  opaque :: "string set"

record layer =
  l_type :: LayerType
  l_source :: string
  l_target :: string
  l_subpath :: string
  l_rw :: bool
  maskedUnder :: "string list"
  priority :: int
  l_zip :: "zip_index option"
  fileVPath :: string
  fileBase :: string
  kept :: "kept_masks option"

record 'h vfs =
  writelayer :: string
  readOnly :: bool
  flattenSymlinks :: bool
  v_uid :: nat
  v_gid :: nat
  layers :: "layer list"
  implicitDirs :: "string set"
  caseInsensitive :: bool
  canonCase :: "(string \<times> string) list"
  whiteoutSet :: "string set"
  opaqueSet :: "string set"
  host_state :: 'h

text \<open>
  What the operations are run with: the host, zstd, and the number of turns a loop over host
  calls is followed before it counts as not returning.
\<close>

record 'h env =
  io :: "'h host"
  zs :: zstd
  turns :: nat

datatype HitKind = HitNone | ImplicitDir | WriteLayer | DirLayer | FileLayer | ZipHit

record resolve_result =
  r_kind :: HitKind
  r_hostPath :: string
  r_layer :: "layer option"
  r_zipEntry :: "zip_entry option"
  r_rwPassthrough :: bool

definition no_hit :: resolve_result where
  "no_hit = \<lparr>r_kind = HitNone, r_hostPath = [], r_layer = None, r_zipEntry = None, r_rwPassthrough = False\<rparr>"

section \<open>Paths\<close>

definition ParentVRel :: "string \<Rightarrow> string" where
  "ParentVRel v = (case find_last_of (CHR ''/'') v of None \<Rightarrow> [] | Some s \<Rightarrow> take s v)"

definition BaseName :: "string \<Rightarrow> string" where
  "BaseName p = (case find_last_of (CHR ''/'') p of None \<Rightarrow> p | Some s \<Rightarrow> drop (s + 1) p)"

definition WLPath :: "'h vfs \<Rightarrow> string \<Rightarrow> string" where
  "WLPath S v = (if v = [] then writelayer S else writelayer S @ ''/'' @ v)"

text \<open>\<^verbatim>\<open>rfind(pfx, 0) == 0\<close> is \<open>prefix pfx\<close>.\<close>

definition Within :: "string \<Rightarrow> string \<Rightarrow> bool" where
  "Within v root \<longleftrightarrow> root = [] \<or> v = root \<or> prefix (root @ ''/'') v"

definition LayerCovers :: "layer \<Rightarrow> string \<Rightarrow> bool" where
  "LayerCovers L v =
     (if l_type L = File then v = fileVPath L
      else if l_target L = [] then True
      else v = l_target L \<or> prefix (l_target L @ ''/'') v)"

definition LayerMasked :: "layer \<Rightarrow> string \<Rightarrow> bool" where
  "LayerMasked L v = list_ex (\<lambda>m. Within v m) (maskedUnder L)"

definition RelUnder :: "layer \<Rightarrow> string \<Rightarrow> string" where
  "RelUnder L v =
     (if l_target L = [] then v else if v = l_target L then [] else drop (length (l_target L) + 1) v)"

definition SourceRel :: "layer \<Rightarrow> string \<Rightarrow> string" where
  "SourceRel L v =
     (let rel = RelUnder L v in
      if l_subpath L = [] then rel
      else if rel = [] then l_subpath L
      else l_subpath L @ ''/'' @ rel)"

definition source_path :: "layer \<Rightarrow> string \<Rightarrow> string" where
  "source_path L rel = (if rel = [] then l_source L else l_source L @ ''/'' @ rel)"

lemma ParentVRel_shorter: "v \<noteq> [] \<Longrightarrow> length (ParentVRel v) < length v"
  by (auto simp: ParentVRel_def split: option.split dest: parent_shorter)

text \<open>The canonical path of the target has the canonical root's components in front.\<close>

definition SymlinkContained :: "'h host \<Rightarrow> 'h \<Rightarrow> string \<Rightarrow> string \<Rightarrow> bool" where
  "SymlinkContained H h path layerSource =
     (case weakly_canonical H h path of
        Inl _ \<Rightarrow> False
      | Inr resolved \<Rightarrow>
          (case weakly_canonical H h layerSource of
             Inl _ \<Rightarrow> False
           | Inr rootc \<Rightarrow> prefix rootc resolved))"

section \<open>Deletion masks of the writelayer\<close>

definition WhiteoutPath :: "'h vfs \<Rightarrow> string \<Rightarrow> string" where
  "WhiteoutPath S v = WLPath S (ParentVRel v) @ ''/.wh.'' @ BaseName v"

definition OpaqueMarker :: "'h vfs \<Rightarrow> string \<Rightarrow> string" where
  "OpaqueMarker S v = WLPath S v @ ''/.wh..wh..opq''"

definition IsWhiteouted :: "'h vfs \<Rightarrow> string \<Rightarrow> bool" where
  "IsWhiteouted S v = (if writelayer S = [] \<or> v = [] then False else v \<in> whiteoutSet S)"

text \<open>The ancestor loop: from the given directory up, the root excluded.\<close>

function any_up :: "string set \<Rightarrow> string \<Rightarrow> bool" where
  "any_up m cur = (if cur = [] then False else if cur \<in> m then True else any_up m (ParentVRel cur))"
  by pat_completeness auto
termination
  by (relation "measure (\<lambda>(m, cur). length cur)") (auto simp: ParentVRel_shorter)

declare any_up.simps [simp del]

definition IsUnderWhiteout :: "'h vfs \<Rightarrow> string \<Rightarrow> bool" where
  "IsUnderWhiteout S v =
     (if writelayer S = [] then False
      else if whiteoutSet S = {} then False
      else any_up (whiteoutSet S) (ParentVRel v))"

definition IsUnderOpaque :: "'h vfs \<Rightarrow> string \<Rightarrow> bool" where
  "IsUnderOpaque S v =
     (if writelayer S = [] then False
      else if opaqueSet S = {} then False
      else any_up (opaqueSet S) (ParentVRel v) \<or> [] \<in> opaqueSet S)"

section \<open>Kept folders\<close>

definition kept_for :: "string \<Rightarrow> layer \<Rightarrow> bool" where
  "kept_for v L \<longleftrightarrow> l_type L = Dir \<and> l_rw L \<and> LayerCovers L v"

definition PassthroughHost :: "'h vfs \<Rightarrow> string \<Rightarrow> string option" where
  "PassthroughHost S v =
     (case List.find (kept_for v) (rev (layers S)) of
        None \<Rightarrow> None
      | Some L \<Rightarrow> Some (source_path L (SourceRel L v)))"

text \<open>The layer is given by its index, because its masks change.\<close>

definition KeptLayerFor :: "'h vfs \<Rightarrow> string \<Rightarrow> nat option" where
  "KeptLayerFor S v = List.find (\<lambda>i. kept_for v (layers S ! i)) (rev [0..<length (layers S)])"

definition KeptMarker :: "layer \<Rightarrow> string \<Rightarrow> string" where
  "KeptMarker L rel =
     (if rel = [] then [] else source_path L (ParentVRel rel) @ ''/.wh.'' @ BaseName rel)"

definition in_deleted :: "layer \<Rightarrow> string \<Rightarrow> bool" where
  "in_deleted L rel = (case kept L of None \<Rightarrow> False | Some k \<Rightarrow> rel \<in> deleted k)"

definition in_opaque :: "layer \<Rightarrow> string \<Rightarrow> bool" where
  "in_opaque L rel = (case kept L of None \<Rightarrow> False | Some k \<Rightarrow> rel \<in> opaque k)"

definition KeptHidden :: "'h vfs \<Rightarrow> string \<Rightarrow> bool" where
  "KeptHidden S v = (case KeptLayerFor S v of None \<Rightarrow> False
     | Some i \<Rightarrow> in_deleted (layers S ! i) (SourceRel (layers S ! i) v))"

definition KeptOpaqueDir :: "layer \<Rightarrow> string \<Rightarrow> bool" where
  "KeptOpaqueDir L v = in_opaque L (SourceRel L v)"

function kept_up :: "kept_masks \<Rightarrow> string \<Rightarrow> bool" where
  "kept_up k cur =
     (if cur \<noteq> [] \<and> cur \<in> deleted k then True
      else if cur \<in> opaque k then True
      else if cur = [] then False
      else kept_up k (ParentVRel cur))"
  by pat_completeness auto
termination
  by (relation "measure (\<lambda>(k, cur). length cur)") (auto simp: ParentVRel_shorter)

declare kept_up.simps [simp del]

definition KeptMasked :: "layer \<Rightarrow> string \<Rightarrow> bool" where
  "KeptMasked L v =
     (case kept L of None \<Rightarrow> False
      | Some k \<Rightarrow>
          if deleted k = {} \<and> opaque k = {} then False
          else let rel = SourceRel L v in
            if rel = [] then False
            else if rel \<in> deleted k then True
            else kept_up k (ParentVRel rel))"

section \<open>Letter case\<close>

definition fold_char :: "char \<Rightarrow> char" where
  "fold_char c = (if CHR ''A'' \<le> c \<and> c \<le> CHR ''Z'' then char_of (of_char c - of_char (CHR ''A'') + of_char (CHR ''a'') :: nat) else c)"

definition FoldCase :: "string \<Rightarrow> string" where
  "FoldCase s = map fold_char s"

text \<open>
  The loop of \<^verbatim>\<open>CanonicalCase\<close>: \<^verbatim>\<open>F.rfind('/', Cut - 1)\<close> is the last slash in the first
  \<open>k\<close> characters.
\<close>

function canonical_loop :: "(string \<times> string) list \<Rightarrow> string \<Rightarrow> string \<Rightarrow> nat \<Rightarrow> string" where
  "canonical_loop canon F v k =
     (case map_of canon (take k F) of
        Some c \<Rightarrow> c @ drop k v
      | None \<Rightarrow>
          (case find_last_of (CHR ''/'') (take k F) of
             None \<Rightarrow> v
           | Some slash \<Rightarrow> if slash = 0 then v else canonical_loop canon F v slash))"
  by pat_completeness auto
termination
  by (relation "measure (\<lambda>(canon, F, v, k). k)") (auto dest: parent_shorter)

declare canonical_loop.simps [simp del]

definition CanonicalCase :: "'h vfs \<Rightarrow> string \<Rightarrow> string" where
  "CanonicalCase S v =
     (if \<not> caseInsensitive S \<or> canonCase S = [] \<or> v = [] then v
      else let F = FoldCase v in canonical_loop (canonCase S) F v (length F))"

section \<open>Resolution\<close>

text \<open>
  One layer's answer: \<open>Hit\<close> returns from \<^verbatim>\<open>Resolve\<close> (with the empty result for a name
  deleted in a kept folder), \<open>Next\<close> goes on to the layer below.
\<close>

datatype answer = Hit resolve_result | Next

definition resolve_dir :: "'h env \<Rightarrow> 'h vfs \<Rightarrow> layer \<Rightarrow> string \<Rightarrow> answer" where
  "resolve_dir E S L v =
     (let path = source_path L (SourceRel L v) in
      case Lstat (io E) (host_state S) path of
        Inr st \<Rightarrow>
          if flattenSymlinks S \<and> \<not> l_rw L \<and> st_isSymlink st \<and>
             (isl (StatFollow (io E) (host_state S) path) \<or>
              \<not> SymlinkContained (io E) (host_state S) path (l_source L))
          then Next
          else Hit \<lparr>r_kind = DirLayer, r_hostPath = path, r_layer = Some L, r_zipEntry = None,
                 r_rwPassthrough = l_rw L\<rparr>
      | Inl _ \<Rightarrow> if l_rw L \<and> KeptMasked L v then Hit no_hit else Next)"

definition resolve_file :: "'h env \<Rightarrow> 'h vfs \<Rightarrow> layer \<Rightarrow> answer" where
  "resolve_file E S L =
     (case Lstat (io E) (host_state S) (l_source L) of
        Inl _ \<Rightarrow> Next
      | Inr st \<Rightarrow>
          if flattenSymlinks S \<and> st_isSymlink st \<and>
             isl (StatFollow (io E) (host_state S) (l_source L))
          then Next
          else Hit \<lparr>r_kind = FileLayer, r_hostPath = l_source L, r_layer = Some L, r_zipEntry = None,
                 r_rwPassthrough = False\<rparr>)"

definition zip_hit :: "layer \<Rightarrow> zip_entry option \<Rightarrow> answer" where
  "zip_hit L e = Hit \<lparr>r_kind = ZipHit, r_hostPath = [], r_layer = Some L, r_zipEntry = e,
     r_rwPassthrough = False\<rparr>"

definition resolve_zip :: "'h env \<Rightarrow> 'h vfs \<Rightarrow> layer \<Rightarrow> string \<Rightarrow> answer" where
  "resolve_zip E S L v =
     (case l_zip L of
        None \<Rightarrow> Next
      | Some I \<Rightarrow>
          let rel = SourceRel L v in
          (case byName I rel of
             None \<Rightarrow> if dirChildren I rel \<noteq> None then zip_hit L None else Next
           | Some e \<Rightarrow>
               if flattenSymlinks S \<and> ze_symlink e then
                 (case ResolveZipSymlink (zs E) I e of
                    Some t \<Rightarrow> zip_hit L (Some t)
                  | None \<Rightarrow> if ze_size e > 4096 \<or> \<not> ze_stored e then Next else zip_hit L (Some e))
               else zip_hit L (Some e)))"

definition resolve_layer :: "'h env \<Rightarrow> 'h vfs \<Rightarrow> layer \<Rightarrow> string \<Rightarrow> answer" where
  "resolve_layer E S L v =
     (if \<not> LayerCovers L v \<or> LayerMasked L v then Next
      else if l_type L = Dir then resolve_dir E S L v
      else if l_type L = File then resolve_file E S L
      else resolve_zip E S L v)"

fun resolve_layers :: "'h env \<Rightarrow> 'h vfs \<Rightarrow> string \<Rightarrow> layer list \<Rightarrow> resolve_result" where
  "resolve_layers E S v [] =
     (if v \<in> implicitDirs S then no_hit\<lparr>r_kind := ImplicitDir\<rparr> else no_hit)"
| "resolve_layers E S v (L # Ls) =
     (case resolve_layer E S L v of Hit r \<Rightarrow> r | Next \<Rightarrow> resolve_layers E S v Ls)"

definition Resolve :: "'h env \<Rightarrow> 'h vfs \<Rightarrow> string \<Rightarrow> resolve_result" where
  "Resolve E S v =
     (if writelayer S \<noteq> [] then
        if IsWhiteouted S v then no_hit
        else let wp = WLPath S v in
          case Lstat (io E) (host_state S) wp of
            Inr _ \<Rightarrow> no_hit\<lparr>r_kind := WriteLayer, r_hostPath := wp\<rparr>
          | Inl _ \<Rightarrow>
              if IsUnderOpaque S v \<or> IsUnderWhiteout S v then no_hit
              else resolve_layers E S v (rev (layers S))
      else resolve_layers E S v (rev (layers S)))"

end
