(* ===== verification/OverlayOps.thy ===== *)
theory OverlayOps
  imports Overlay
begin

text \<open>
  The operations of \<^verbatim>\<open>overlay.cpp\<close> that change the state: the masks of the writelayer and
  of the kept folders, on disk and in memory, and copy-up. The filesystem state and the host
  state inside it are threaded by the state monad; a result is \<open>Inr\<close> for 0 and \<open>Inl\<close> for a
  negative errno.
\<close>

section \<open>Sequencing\<close>

type_synonym ('h, 'a) op = "('h vfs, 'a) state"

text \<open>A host call on the host state, and \<^verbatim>\<open>if (int e = m; e != 0) return e;\<close>.\<close>

definition host_do :: "('h \<Rightarrow> 'a \<times> 'h) \<Rightarrow> ('h, 'a) op" where
  "host_do f = State (\<lambda>S. case f (host_state S) of (r, h) \<Rightarrow> (r, S\<lparr>host_state := h\<rparr>))"

definition trym :: "('h, 'a res) op \<Rightarrow> ('a \<Rightarrow> ('h, 'b res) op) \<Rightarrow> ('h, 'b res) op" where
  "trym m f = do {
     r \<leftarrow> m;
     (case r of Inl e \<Rightarrow> State_Monad.return (Inl e) | Inr x \<Rightarrow> f x)
   }"

abbreviation ret :: "'a \<Rightarrow> ('h, 'a) op" where "ret \<equiv> State_Monad.return"
abbreviation ok :: "unit res" where "ok \<equiv> Inr ()"

text \<open>The result of a call the code ignores.\<close>

definition ignore :: "('h, 'a) op \<Rightarrow> ('h, unit) op" where
  "ignore m = do { _ \<leftarrow> m; ret () }"

text \<open>\<^verbatim>\<open>e != 0 && e != -ENOENT\<close>.\<close>

definition hard_error :: "unit res \<Rightarrow> bool" where
  "hard_error e \<longleftrightarrow> e \<noteq> ok \<and> e \<noteq> Inl ENOENT"

fun each :: "('a \<Rightarrow> ('h, unit) op) \<Rightarrow> 'a list \<Rightarrow> ('h, unit) op" where
  "each f [] = ret ()"
| "each f (x # xs) = do { f x; each f xs }"

section \<open>Masks of the writelayer\<close>

definition touch :: "'h env \<Rightarrow> string \<Rightarrow> ('h, unit) op" where
  "touch E path = do {
     fd \<leftarrow> host_do (Open (io E) path (or O_CREAT O_WRONLY) 0x1A4);
     (case fd of Inl _ \<Rightarrow> ret () | Inr fd \<Rightarrow> ignore (host_do (Close (io E) fd)))
   }"

definition MutateWhiteouts :: "(string set \<Rightarrow> string set) \<Rightarrow> ('h, unit) op" where
  "MutateWhiteouts f = State_Monad.update (\<lambda>S. S\<lparr>whiteoutSet := f (whiteoutSet S)\<rparr>)"

definition MutateOpaques :: "(string set \<Rightarrow> string set) \<Rightarrow> ('h, unit) op" where
  "MutateOpaques f = State_Monad.update (\<lambda>S. S\<lparr>opaqueSet := f (opaqueSet S)\<rparr>)"

definition CreateWhiteout :: "'h env \<Rightarrow> string \<Rightarrow> ('h, unit) op" where
  "CreateWhiteout E v = do {
     S \<leftarrow> State_Monad.get;
     if writelayer S = [] then ret ()
     else do {
       _ \<leftarrow> host_do (create_directories (io E) (WLPath S (ParentVRel v)));
       touch E (WhiteoutPath S v);
       MutateWhiteouts (Set.insert v)
     }
   }"

definition RemoveWhiteout :: "'h env \<Rightarrow> string \<Rightarrow> ('h, unit) op" where
  "RemoveWhiteout E v = do {
     S \<leftarrow> State_Monad.get;
     if writelayer S = [] then ret ()
     else do {
       _ \<leftarrow> host_do (Unlink (io E) (WhiteoutPath S v));
       MutateWhiteouts (\<lambda>m. m - {v})
     }
   }"

definition MarkOpaque :: "'h env \<Rightarrow> string \<Rightarrow> ('h, unit) op" where
  "MarkOpaque E v = do {
     S \<leftarrow> State_Monad.get;
     if writelayer S = [] then ret ()
     else do { touch E (OpaqueMarker S v); MutateOpaques (Set.insert v) }
   }"

definition UnmarkOpaque :: "string \<Rightarrow> ('h, unit) op" where
  "UnmarkOpaque v = do {
     S \<leftarrow> State_Monad.get;
     if writelayer S = [] then ret () else MutateOpaques (\<lambda>m. m - {v})
   }"

text \<open>A directory rename moves every entry at or below the old name to the new one.\<close>

definition moved_name :: "string \<Rightarrow> string \<Rightarrow> string \<Rightarrow> string" where
  "moved_name oldv newv x = (if x = oldv then newv else newv @ ''/'' @ drop (length oldv + 1) x)"

definition rename_mask :: "string \<Rightarrow> string \<Rightarrow> string set \<Rightarrow> string set" where
  "rename_mask oldv newv m =
     (let under = (\<lambda>x. x = oldv \<or> prefix (oldv @ ''/'') x) in
      Set.filter (\<lambda>x. \<not> under x) m \<union> moved_name oldv newv ` Set.filter under m)"

definition RenameMaskPrefix :: "string \<Rightarrow> string \<Rightarrow> ('h, unit) op" where
  "RenameMaskPrefix oldv newv = do {
     S \<leftarrow> State_Monad.get;
     if writelayer S = [] \<or> oldv = newv then ret ()
     else do { MutateWhiteouts (rename_mask oldv newv); MutateOpaques (rename_mask oldv newv) }
   }"

section \<open>Masks of a kept folder\<close>

definition MutateKept :: "nat \<Rightarrow> (kept_masks \<Rightarrow> kept_masks) \<Rightarrow> ('h, unit) op" where
  "MutateKept i f = State_Monad.update (\<lambda>S. S\<lparr>layers :=
     (layers S)[i := (layers S ! i)\<lparr>kept := map_option f (kept (layers S ! i))\<rparr>]\<rparr>)"

text \<open>\<^verbatim>\<open>std::filesystem::path::parent_path\<close>.\<close>

definition parent_path :: "string \<Rightarrow> string" where
  "parent_path p = (case find_last_of (CHR ''/'') p of
     None \<Rightarrow> []
   | Some i \<Rightarrow> let d = rev (dropWhile (\<lambda>c. c = CHR ''/'') (rev (take i p))) in
       if d = [] then ''/'' else d)"

definition TouchMarker :: "'h env \<Rightarrow> string \<Rightarrow> ('h, unit res) op" where
  "TouchMarker E path =
     trym (host_do (create_directories (io E) (parent_path path))) (\<lambda>_.
     trym (host_do (Open (io E) path (or O_CREAT O_WRONLY) 0x1A4)) (\<lambda>fd.
     do { _ \<leftarrow> host_do (Close (io E) fd); ret ok }))"

definition HideLower :: "'h env \<Rightarrow> string \<Rightarrow> ('h, unit res) op" where
  "HideLower E v = do {
     S \<leftarrow> State_Monad.get;
     let whiteout = do { CreateWhiteout E v; ret ok };
     (case KeptLayerFor S v of
        None \<Rightarrow> whiteout
      | Some i \<Rightarrow>
          let L = layers S ! i; rel = SourceRel L v in
          if rel = [] then whiteout
          else trym (TouchMarker E (KeptMarker L rel)) (\<lambda>_.
            do { MutateKept i (\<lambda>k. k\<lparr>deleted := Set.insert rel (deleted k)\<rparr>); ret ok }))
   }"

definition UnhideLower :: "'h env \<Rightarrow> string \<Rightarrow> ('h, unit res) op" where
  "UnhideLower E v = do {
     S \<leftarrow> State_Monad.get;
     let whiteout = do { RemoveWhiteout E v; ret ok };
     (case KeptLayerFor S v of
        None \<Rightarrow> whiteout
      | Some i \<Rightarrow>
          let L = layers S ! i; rel = SourceRel L v in
          if rel \<noteq> [] \<and> in_deleted L rel then do {
            e \<leftarrow> host_do (Unlink (io E) (KeptMarker L rel));
            if hard_error e then ret e
            else do { MutateKept i (\<lambda>k. k\<lparr>deleted := deleted k - {rel}\<rparr>); whiteout }
          }
          else whiteout)
   }"

definition KeptMarkOpaque :: "'h env \<Rightarrow> string \<Rightarrow> ('h, unit res) op" where
  "KeptMarkOpaque E v = do {
     S \<leftarrow> State_Monad.get;
     (case KeptLayerFor S v of
        None \<Rightarrow> ret (Inl EINVAL)
      | Some i \<Rightarrow>
          let L = layers S ! i; rel = SourceRel L v in
          trym (TouchMarker E (source_path L rel @ ''/.wh..wh..opq'')) (\<lambda>_.
            do { MutateKept i (\<lambda>k. k\<lparr>opaque := Set.insert rel (opaque k)\<rparr>); ret ok }))
   }"

definition rewrite_prefix :: "string \<Rightarrow> string \<Rightarrow> string set \<Rightarrow> string set" where
  "rewrite_prefix old new m =
     (\<lambda>x. if x = old then new
          else if prefix (old @ ''/'') x then new @ drop (length old) x else x) ` m"

definition KeptRenamePrefix :: "string \<Rightarrow> string \<Rightarrow> ('h, unit) op" where
  "KeptRenamePrefix oldv newv = do {
     S \<leftarrow> State_Monad.get;
     (case KeptLayerFor S oldv of
        None \<Rightarrow> ret ()
      | Some i \<Rightarrow>
          if KeptLayerFor S newv \<noteq> Some i then ret ()
          else let L = layers S ! i; old = SourceRel L oldv; new = SourceRel L newv in
            do {
              MutateKept i (\<lambda>k. k\<lparr>deleted := rewrite_prefix old new (deleted k)\<rparr>);
              MutateKept i (\<lambda>k. k\<lparr>opaque := rewrite_prefix old new (opaque k)\<rparr>)
            })
   }"

definition is_marker :: "string \<Rightarrow> bool" where
  "is_marker n = prefix ''.wh.'' n"

text \<open>The names directly inside the directory \<open>rel\<close>.\<close>

definition directly_under :: "string \<Rightarrow> string \<Rightarrow> bool" where
  "directly_under rel x =
     (if rel = [] then x \<noteq> [] \<and> CHR ''/'' \<notin> set x
      else prefix (rel @ ''/'') x \<and> CHR ''/'' \<notin> set (drop (length rel + 1) x))"

definition KeptDropMarkersUnder :: "'h env \<Rightarrow> string \<Rightarrow> ('h, unit) op" where
  "KeptDropMarkersUnder E v = do {
     S \<leftarrow> State_Monad.get;
     (case KeptLayerFor S v of
        None \<Rightarrow> ret ()
      | Some i \<Rightarrow>
          let L = layers S ! i; rel = SourceRel L v; path = source_path L rel in
          do {
            each (\<lambda>n. if is_marker n then ignore (host_do (Unlink (io E) (path @ ''/'' @ n))) else ret ())
              (ReadDir (io E) (host_state S) path);
            MutateKept i (\<lambda>k. k\<lparr>deleted := Set.filter (\<lambda>x. \<not> directly_under rel x) (deleted k)\<rparr>);
            MutateKept i (\<lambda>k. k\<lparr>opaque := opaque k - {rel}\<rparr>)
          })
   }"

section \<open>Copy-up\<close>

definition EnsureWriteParent :: "'h env \<Rightarrow> string \<Rightarrow> ('h, unit res) op" where
  "EnsureWriteParent E v = do {
     S \<leftarrow> State_Monad.get;
     e \<leftarrow> host_do (create_directories (io E) (WLPath S (ParentVRel v)));
     ret (case e of Inl _ \<Rightarrow> Inl EIO | Inr _ \<Rightarrow> ok)
   }"

definition BUF :: nat where "BUF = 256 * 1024"

primrec copy_zip_loop :: "nat \<Rightarrow> 'h env \<Rightarrow> zip_reader \<Rightarrow> fd \<Rightarrow> nat \<Rightarrow> ('h, unit res) op" where
  "copy_zip_loop 0 E zr out off = ret (Inl NoReturn)"
| "copy_zip_loop (Suc k) E zr out off =
     (case ReadZipEntry (zs E) zr BUF (int off) of
        Inl e \<Rightarrow> ret (Inl e)
      | Inr bs \<Rightarrow>
          if bs = [] then ret ok
          else trym (host_do (FullWrite (io E) (turns E) out bs)) (\<lambda>_.
            copy_zip_loop k E zr out (off + length bs)))"

primrec copy_host_loop :: "nat \<Rightarrow> 'h env \<Rightarrow> fd \<Rightarrow> fd \<Rightarrow> ('h, unit res) op" where
  "copy_host_loop 0 E inp out = ret (Inl NoReturn)"
| "copy_host_loop (Suc k) E inp out = do {
     got \<leftarrow> host_do (Read (io E) inp BUF);
     (case got of
        Inl e \<Rightarrow> ret (Inl e)
      | Inr bs \<Rightarrow>
          if bs = [] then ret ok
          else trym (host_do (FullWrite (io E) (turns E) out bs)) (\<lambda>_. copy_host_loop k E inp out))
   }"

text \<open>An archive link's target: the entry's content, or the error.\<close>

definition zip_link_target :: "'h env \<Rightarrow> resolve_result \<Rightarrow> zip_entry \<Rightarrow> string res" where
  "zip_link_target E rr e =
     (if ze_size e > 4096 then Inl ENAMETOOLONG
      else bindE (OpenZipEntry (the (l_zip (the (r_layer rr)))) e) (\<lambda>zr.
           bindE (ReadZipEntry (zs E) zr (ze_size e) 0) (\<lambda>bs. Inr (str_of_bytes bs))))"

definition copy_is_dir :: "'h env \<Rightarrow> 'h vfs \<Rightarrow> resolve_result \<Rightarrow> bool" where
  "copy_is_dir E S rr =
     (let followSyms = (flattenSymlinks S \<and> \<not> r_rwPassthrough rr \<and> r_kind rr = DirLayer);
          dirStat = (\<lambda>p. case (if followSyms then StatFollow (io E) (host_state S) p
                               else Lstat (io E) (host_state S) p) of
                      Inl _ \<Rightarrow> False | Inr st \<Rightarrow> st_isDir st)
      in r_kind rr = ImplicitDir \<or>
         (r_kind rr = DirLayer \<and> dirStat (r_hostPath rr)) \<or>
         (r_kind rr = ZipHit \<and> (case r_zipEntry rr of None \<Rightarrow> True | Some e \<Rightarrow> ze_isDir e)))"

definition copy_file :: "'h env \<Rightarrow> resolve_result \<Rightarrow> string \<Rightarrow> ('h, unit res) op" where
  "copy_file E rr dst =
     trym (host_do (Open (io E) dst (or O_CREAT (or O_WRONLY O_TRUNC)) 0x1A4)) (\<lambda>out. do {
       rc \<leftarrow> (case (r_kind rr, r_zipEntry rr) of
          (ZipHit, Some e) \<Rightarrow>
            trym (ret (OpenZipEntry (the (l_zip (the (r_layer rr)))) e)) (\<lambda>zr.
            trym (copy_zip_loop (turns E) E zr out 0) (\<lambda>_. do {
              _ \<leftarrow> host_do (Fchmod (io E) out (or 0x16D 0x80));
              ret ok
            }))
        | _ \<Rightarrow>
            trym (host_do (Open (io E) (r_hostPath rr) O_RDONLY 0)) (\<lambda>inp. do {
              rc \<leftarrow> copy_host_loop (turns E) E inp out;
              _ \<leftarrow> host_do (Close (io E) inp);
              S \<leftarrow> State_Monad.get;
              (case Lstat (io E) (host_state S) (r_hostPath rr) of
                 Inl _ \<Rightarrow> ret ()
               | Inr st \<Rightarrow> ignore (host_do (Fchmod (io E) out (or (and (st_mode st) 0x1FF) 0x80))));
              ret rc
            }));
       _ \<leftarrow> host_do (Close (io E) out);
       if rc \<noteq> ok then do { _ \<leftarrow> host_do (Unlink (io E) dst); ret rc } else ret rc
     })"

definition CopyUp :: "'h env \<Rightarrow> string \<Rightarrow> resolve_result \<Rightarrow> ('h, unit res) op" where
  "CopyUp E v rr = do {
     S \<leftarrow> State_Monad.get;
     if writelayer S = [] then ret (Inl EROFS)
     else if r_kind rr = WriteLayer then ret ok
     else if r_rwPassthrough rr then ret ok
     else
       let pass = PassthroughHost S v;
           dst = (case pass of Some p \<Rightarrow> p | None \<Rightarrow> WLPath S v) in
       (case Lstat (io E) (host_state S) dst of
          Inr _ \<Rightarrow> ret ok
        | Inl _ \<Rightarrow>
            trym (case pass of
                    Some _ \<Rightarrow> do {
                      e \<leftarrow> host_do (create_directories (io E) (parent_path dst));
                      ret (case e of Inl _ \<Rightarrow> Inl EIO | Inr _ \<Rightarrow> ok)
                    }
                  | None \<Rightarrow> EnsureWriteParent E v) (\<lambda>_. do {
              S \<leftarrow> State_Monad.get;
              if copy_is_dir E S rr then do {
                e \<leftarrow> host_do (create_directories (io E) dst);
                ret (case e of Inl _ \<Rightarrow> Inl EIO | Inr _ \<Rightarrow> ok)
              }
              else
                (case (r_kind rr, r_zipEntry rr) of
                   (ZipHit, Some e) \<Rightarrow>
                     if ze_symlink e then
                       trym (ret (zip_link_target E rr e)) (\<lambda>tgt. host_do (Symlink (io E) tgt dst))
                     else copy_file E rr dst
                 | _ \<Rightarrow>
                     if \<not> flattenSymlinks S \<and> (r_kind rr = DirLayer \<or> r_kind rr = FileLayer) \<and>
                        (case Lstat (io E) (host_state S) (r_hostPath rr) of
                           Inl _ \<Rightarrow> False | Inr st \<Rightarrow> st_isSymlink st)
                     then trym (ret (Readlink (io E) (host_state S) (r_hostPath rr)))
                            (\<lambda>tgt. host_do (Symlink (io E) tgt dst))
                     else copy_file E rr dst)
            }))
   }"

end
