(* ===== verification/OverlayInit.thy ===== *)
theory OverlayInit
  imports OverlayOps
begin

text \<open>
  \<^verbatim>\<open>VfsState::Init\<close>: from a specification to the layers of the running filesystem. A
  chain of deltas at one target is folded into its top delta, a delta masks the layers it was
  built over, submounts fan out into one layer each, the structural directories and the
  letter-case table are derived, and the deletion masks are seeded from the markers on disk.
  Descriptors are read as they are when a layer is opened: an archive does not change while it
  is mounted, and its descriptor stays open.
\<close>

section \<open>Seeding the masks from disk\<close>

text \<open>
  The walk collects the deleted names and the opaque directories below a directory. It
  descends at most \<open>n\<close> levels; \<open>None\<close> says that the tree is deeper.
\<close>

definition child_path :: "string \<Rightarrow> string \<Rightarrow> string" where
  "child_path d n = (if d = [] then n else d @ ''/'' @ n)"

fun walk_names :: "('a \<Rightarrow> 'b \<Rightarrow> 'b option) \<Rightarrow> 'a list \<Rightarrow> 'b \<Rightarrow> 'b option" where
  "walk_names f [] acc = Some acc"
| "walk_names f (n # ns) acc = (case f n acc of None \<Rightarrow> None | Some acc \<Rightarrow> walk_names f ns acc)"

primrec seed_walk ::
  "nat \<Rightarrow> 'h host \<Rightarrow> 'h \<Rightarrow> (string \<Rightarrow> string) \<Rightarrow> string \<Rightarrow> string set \<times> string set \<Rightarrow> (string set \<times> string set) option" where
  "seed_walk 0 H h path vdir acc = None"
| "seed_walk (Suc k) H h path vdir acc =
     walk_names (\<lambda>n acc.
       if n = ''.wh..wh..opq'' then Some (fst acc, Set.insert vdir (snd acc))
       else if is_marker n then Some (Set.insert (child_path vdir (drop 4 n)) (fst acc), snd acc)
       else (case Lstat H h (path vdir @ ''/'' @ n) of
               Inr st \<Rightarrow> if st_isDir st then seed_walk k H h path (child_path vdir n) acc else Some acc
             | Inl _ \<Rightarrow> Some acc))
     (ReadDir H h (path vdir)) acc"

definition SeedMasksFromWritelayer :: "'h env \<Rightarrow> 'h vfs \<Rightarrow> 'h vfs res" where
  "SeedMasksFromWritelayer E S =
     (if writelayer S = [] then Inr S
      else case seed_walk (turns E) (io E) (host_state S) (WLPath S) [] ({}, {}) of
        None \<Rightarrow> Inl NoReturn
      | Some (wh, opq) \<Rightarrow> Inr (S\<lparr>whiteoutSet := wh, opaqueSet := opq\<rparr>))"

definition SeedKeptMasks :: "'h env \<Rightarrow> 'h \<Rightarrow> layer \<Rightarrow> layer res" where
  "SeedKeptMasks E h L =
     (case seed_walk (turns E) (io E) h (source_path L) (l_subpath L) ({}, {}) of
        None \<Rightarrow> Inl NoReturn
      | Some (del, opq) \<Rightarrow> Inr (L\<lparr>kept := Some \<lparr>deleted = del, opaque = opq\<rparr>\<rparr>))"

section \<open>Delta chains\<close>

definition BuiltOverOwnTarget :: "layer_spec \<Rightarrow> bool" where
  "BuiltOverOwnTarget D \<longleftrightarrow> ls_baseTargets D = [] \<or> ls_target D \<in> set (ls_baseTargets D)"

definition extends_chain :: "layer_spec list \<Rightarrow> nat \<Rightarrow> bool" where
  "extends_chain ls g \<longleftrightarrow> ls_type (ls ! g) = Delta \<and> BuiltOverOwnTarget (ls ! g)"

text \<open>The runs among one target's layers; the layers of a run get its last delta as their top.\<close>

function chain_fill :: "layer_spec list \<Rightarrow> nat list \<Rightarrow> (nat \<rightharpoonup> nat) \<Rightarrow> (nat \<rightharpoonup> nat)" where
  "chain_fill ls [] tops = tops"
| "chain_fill ls (x # xs) tops =
     (let ds = takeWhile (extends_chain ls) xs; rest = dropWhile (extends_chain ls) xs in
      if ls_type (ls ! x) = Zip \<and> ds = [] then chain_fill ls xs tops
      else chain_fill ls rest (fold (\<lambda>k tops. tops(k \<mapsto> last (x # ds))) (x # ds) tops))"
  by pat_completeness auto
termination
  by (relation "measure (\<lambda>(ls, xs, tops). length xs)") (auto simp: length_dropWhile_le le_imp_less_Suc)

definition zip_like :: "layer_spec \<Rightarrow> bool" where
  "zip_like l \<longleftrightarrow> ls_type l = Zip \<or> ls_type l = Delta"

definition chainTop :: "layer_spec list \<Rightarrow> nat \<rightharpoonup> nat" where
  "chainTop ls =
     fold (\<lambda>t tops. chain_fill ls
         (filter (\<lambda>g. zip_like (ls ! g) \<and> ls_target (ls ! g) = t) [0..<length ls]) tops)
       (remdups (map ls_target (filter zip_like ls))) Map.empty"

section \<open>The layer loop\<close>

record 'h init =
  in_layers :: "layer list"
  baseByTarget :: "string \<rightharpoonup> source"
  baseLayersByTarget :: "string \<rightharpoonup> nat list"
  mountedAs :: "nat \<Rightarrow> nat list"
  chainSeen :: "string set"
  in_prio :: int
  in_host :: 'h

text \<open>The composed views a delta is built over, and the layers behind them; \<open>None\<close> when one is missing.\<close>

fun collect_bases :: "'h init \<Rightarrow> string list \<Rightarrow> source list \<Rightarrow> nat list \<Rightarrow> (source list \<times> nat list) option" where
  "collect_bases I [] bs behind = Some (bs, behind)"
| "collect_bases I (t # ts) bs behind =
     (case baseByTarget I t of
        None \<Rightarrow> None
      | Some b \<Rightarrow> collect_bases I ts (bs @ [b])
          (behind @ (case baseLayersByTarget I t of None \<Rightarrow> [] | Some B \<Rightarrow> B)))"

text \<open>
  The byte view of a zip or delta layer and the layers behind it: \<open>Inr None\<close> skips the layer.
\<close>

definition byte_view ::
  "'h env \<Rightarrow> 'h init \<Rightarrow> nat \<Rightarrow> layer_spec \<Rightarrow> source \<Rightarrow> (source \<times> nat list) option res" where
  "byte_view E I gi l src =
     (if ls_type l = Delta then
        let baseTgts = (if ls_baseTargets l = [] then [ls_target l] else ls_baseTargets l) in
        case collect_bases I baseTgts [] [gi] of
          None \<Rightarrow> Inr None
        | Some (bs, behind) \<Rightarrow>
            let base = (if length bs = 1 then bs ! 0 else mk_concat (map Some bs)) in
            (case Create (zs E) src (Some base) False of
               Inl Stuck \<Rightarrow> Inl NoReturn
             | Inl (Err _) \<Rightarrow> Inr None
             | Inr ds \<Rightarrow> Inr (Some (ds, behind)))
      else Inr (Some (src, [gi])))"

definition mounts_of :: "layer_spec \<Rightarrow> (string \<times> string) list" where
  "mounts_of l = (if ls_submounts l = [] \<or> ls_type l = File then [([], ls_target l)] else ls_submounts l)"

definition new_layer :: "layer_spec \<Rightarrow> zip_index option \<Rightarrow> int \<Rightarrow> string \<times> string \<Rightarrow> layer" where
  "new_layer l zi prio mnt =
     (let base = BaseName (ls_source l); tgt = snd mnt in
      \<lparr>l_type = (if ls_type l = Delta then Zip else ls_type l), l_source = ls_source l,
       l_target = tgt, l_subpath = fst mnt, l_rw = ls_rw l, maskedUnder = [], priority = prio, l_zip = zi,
       fileVPath = (if ls_type l = File then (if tgt = [] then base else tgt @ ''/'' @ base) else []),
       fileBase = (if ls_type l = File then base else []), kept = None\<rparr>)"

fun add_mounts :: "nat \<Rightarrow> layer_spec \<Rightarrow> zip_index option \<Rightarrow> (string \<times> string) list \<Rightarrow> 'h init \<Rightarrow> 'h init" where
  "add_mounts gi l zi [] I = I"
| "add_mounts gi l zi (m # ms) I = add_mounts gi l zi ms
     (I\<lparr>in_layers := in_layers I @ [new_layer l zi (in_prio I) m],
        mountedAs := (mountedAs I)(gi := mountedAs I gi @ [length (in_layers I)]),
        in_prio := in_prio I + 1\<rparr>)"

definition mask_layer :: "string \<Rightarrow> layer \<Rightarrow> layer" where
  "mask_layer t L = L\<lparr>maskedUnder := maskedUnder L @ [t]\<rparr>"

text \<open>A delta hides its bases, wherever they surfaced, under each place it surfaced itself.\<close>

definition hide_bases :: "nat \<Rightarrow> nat list \<Rightarrow> 'h init \<Rightarrow> 'h init" where
  "hide_bases gi bases I = I\<lparr>in_layers :=
     fold (\<lambda>b. fold (\<lambda>Li. fold (\<lambda>Di Ls. Ls[Li := mask_layer (l_target (Ls ! Di)) (Ls ! Li)]) (mountedAs I gi))
         (mountedAs I b))
       bases (in_layers I)\<rparr>"

definition mount_layer ::
  "nat \<Rightarrow> layer_spec \<Rightarrow> zip_index option \<Rightarrow> nat list \<Rightarrow> 'h init \<Rightarrow> 'h init" where
  "mount_layer gi l zi behind I =
     (let I = add_mounts gi l zi (mounts_of l) I in
      if ls_type l = Delta then hide_bases gi (List.tl behind) I else I)"

definition step_layer ::
  "'h env \<Rightarrow> libzip \<Rightarrow> (nat \<rightharpoonup> nat) \<Rightarrow> nat \<Rightarrow> layer_spec \<Rightarrow> 'h init \<Rightarrow> 'h init res" where
  "step_layer E lib tops gi l I =
     (if zip_like l then
        (case Open (io E) (ls_source l) O_RDONLY 0 (in_host I) of
           (Inl _, h) \<Rightarrow> Inr (I\<lparr>in_host := h\<rparr>)
         | (Inr fd, h) \<Rightarrow>
             (case Fstat (io E) h fd of
                Inl _ \<Rightarrow> Inr (I\<lparr>in_host := snd (Close (io E) fd h)\<rparr>)
              | Inr st \<Rightarrow>
                  let I = I\<lparr>in_host := h\<rparr>; src = FdSource (Pread (io E) h fd) (st_size st) in
                  (case byte_view E I gi l src of
                     Inl x \<Rightarrow> Inl x
                   | Inr None \<Rightarrow> Inr I
                   | Inr (Some (src, behind)) \<Rightarrow>
                       let inChain = (tops gi \<noteq> None);
                           I = (if inChain then I\<lparr>chainSeen := Set.insert (ls_target l) (chainSeen I)\<rparr> else I);
                           I = (if inChain \<or> ls_target l \<notin> chainSeen I
                                then I\<lparr>baseByTarget := (baseByTarget I)(ls_target l \<mapsto> src),
                                       baseLayersByTarget := (baseLayersByTarget I)(ls_target l \<mapsto> behind)\<rparr>
                                else I)
                       in if inChain \<and> tops gi \<noteq> Some gi then Inr I
                          else (case BuildZipIndex (zs E) lib src (ls_source l) of
                             Inl x \<Rightarrow> Inl x
                           | Inr None \<Rightarrow> Inr I
                           | Inr (Some zi) \<Rightarrow> Inr (mount_layer gi l (Some zi) behind I)))))
      else Inr (mount_layer gi l None [gi] I))"

fun init_loop ::
  "'h env \<Rightarrow> libzip \<Rightarrow> (nat \<rightharpoonup> nat) \<Rightarrow> nat \<Rightarrow> layer_spec list \<Rightarrow> 'h init \<Rightarrow> 'h init res" where
  "init_loop E lib tops gi [] I = Inr I"
| "init_loop E lib tops gi (l # ls) I =
     bindE (step_layer E lib tops gi l I) (init_loop E lib tops (gi + 1) ls)"

section \<open>Derived tables\<close>

function ancestors :: "string \<Rightarrow> string set" where
  "ancestors cur = (if cur = [] then {} else Set.insert cur (ancestors (ParentVRel cur)))"
  by pat_completeness auto
termination
  by (relation "measure length") (auto simp: ParentVRel_shorter)

declare ancestors.simps [simp del]

definition AddAncestors :: "string set \<Rightarrow> string \<Rightarrow> string set" where
  "AddAncestors dst leaf = dst \<union> ancestors (ParentVRel leaf)"

definition layer_leaf :: "layer \<Rightarrow> string" where
  "layer_leaf L = (if l_type L = File then fileVPath L else l_target L)"

definition implicit_dirs :: "layer list \<Rightarrow> string set" where
  "implicit_dirs Ls =
     fold (\<lambda>L dst. if LayerMasked L (layer_leaf L) then dst
        else if l_type L = File then AddAncestors dst (fileVPath L)
        else AddAncestors dst (if l_target L = [] then [char_of (1 :: nat)] else l_target L)) Ls {}
     - {[char_of (1 :: nat)], []}"

definition try_emplace :: "string \<Rightarrow> (string \<times> string) list \<Rightarrow> (string \<times> string) list" where
  "try_emplace v canon = (if map_of canon (FoldCase v) = None then canon @ [(FoldCase v, v)] else canon)"

definition canon_add :: "layer \<Rightarrow> string \<Rightarrow> (string \<times> string) list \<Rightarrow> (string \<times> string) list" where
  "canon_add L v canon = (if v \<noteq> [] \<and> \<not> LayerMasked L v then try_emplace v canon else canon)"

text \<open>A zip name as the layer shows it; \<open>None\<close> when the submount leaves it out.\<close>

definition zip_vpath :: "layer \<Rightarrow> string \<Rightarrow> string option" where
  "zip_vpath L rel =
     (let under = (if l_subpath L = [] then Some rel
                   else if rel \<noteq> l_subpath L \<and> \<not> prefix (l_subpath L @ ''/'') rel then None
                   else Some (if length rel > length (l_subpath L) then drop (length (l_subpath L) + 1) rel else []))
      in map_option (\<lambda>u. if l_target L = [] then u else if u = [] then l_target L else l_target L @ ''/'' @ u) under)"

text \<open>\<open>names\<close> gives the keys of the two hash maps of an index in their iteration order.\<close>

definition canon_layer :: "(zip_index \<Rightarrow> string list) \<Rightarrow> layer \<Rightarrow> (string \<times> string) list \<Rightarrow> (string \<times> string) list" where
  "canon_layer names L canon =
     (if l_type L = File then canon_add L (fileVPath L) canon
      else
        let canon = canon_add L (l_target L) canon in
        case l_zip L of
          None \<Rightarrow> canon
        | Some I \<Rightarrow>
            if l_type L \<noteq> Zip then canon
            else fold (\<lambda>rel canon. case zip_vpath L rel of None \<Rightarrow> canon | Some v \<Rightarrow> canon_add L v canon)
              (names I) canon)"

definition canon_table :: "(zip_index \<Rightarrow> string list) \<Rightarrow> layer list \<Rightarrow> string set \<Rightarrow> (string \<times> string) list" where
  "canon_table names Ls dirs =
     fold try_emplace (sorted_list_of_set dirs) (fold (canon_layer names) Ls [])"

fun seed_layers :: "'h env \<Rightarrow> 'h \<Rightarrow> layer list \<Rightarrow> layer list res" where
  "seed_layers E h [] = Inr []"
| "seed_layers E h (L # Ls) =
     bindE (if l_type L = Dir \<and> l_rw L then SeedKeptMasks E h L else Inr L) (\<lambda>L'.
       bindE (seed_layers E h Ls) (\<lambda>Ls'. Inr (L' # Ls')))"

definition Init ::
  "'h env \<Rightarrow> libzip \<Rightarrow> (zip_index \<Rightarrow> string list) \<Rightarrow> bool \<Rightarrow> spec \<Rightarrow> 'h \<Rightarrow> 'h vfs res" where
  "Init E lib names flatten Sp h =
     (let h = (if sp_writelayer Sp \<noteq> [] then snd (create_directories (io E) (sp_writelayer Sp) h) else h);
          S = \<lparr>writelayer = sp_writelayer Sp, readOnly = sp_readOnly Sp, flattenSymlinks = flatten,
               v_uid = sp_uid Sp, v_gid = sp_gid Sp, layers = [], implicitDirs = {}, caseInsensitive = False,
               canonCase = [], whiteoutSet = {}, opaqueSet = {}, host_state = h\<rparr>
      in bindE (SeedMasksFromWritelayer E S) (\<lambda>S.
         bindE (init_loop E lib (chainTop (sp_layers Sp)) 0 (sp_layers Sp)
           \<lparr>in_layers = [], baseByTarget = Map.empty, baseLayersByTarget = Map.empty, mountedAs = (\<lambda>_. []),
            chainSeen = {}, in_prio = 0, in_host = host_state S\<rparr>) (\<lambda>I.
         let dirs = implicit_dirs (in_layers I) in
         bindE (seed_layers E (in_host I) (in_layers I)) (\<lambda>Ls.
           Inr (S\<lparr>layers := Ls, implicitDirs := dirs, caseInsensitive := sp_caseInsensitive Sp,
             canonCase := (if sp_caseInsensitive Sp then canon_table names Ls dirs else []),
             host_state := in_host I\<rparr>)))))"

end
