(* ===== verification/VfsOps.thy ===== *)
theory VfsOps
  imports OverlayInit
begin

text \<open>
  The filesystem operations of \<^verbatim>\<open>vfsops.cpp\<close>, each a whole handler in the order of the code:
  its guards, the state it changes and the error it returns.
\<close>

section \<open>Directory listings\<close>

definition SegmentAfter :: "string \<Rightarrow> string \<Rightarrow> string" where
  "SegmentAfter v path =
     (let rest = (if v = [] then path else if prefix (v @ ''/'') path then drop (length v + 1) path else [])
      in case find_first_of (CHR ''/'') rest of None \<Rightarrow> rest | Some s \<Rightarrow> take s rest)"

text \<open>The names a directory of the writelayer gives: own names, deleted names, the opaque mark.\<close>

definition opaque_prio :: "'h vfs \<Rightarrow> string \<Rightarrow> int" where
  "opaque_prio S v =
     fold (\<lambda>L p. if l_type L = Dir \<and> l_rw L \<and> LayerCovers L v \<and> priority L > p \<and> KeptOpaqueDir L v
            then priority L else p) (layers S) (- 1)"

record listing =
  li_out :: "string set"
  li_keptWhiteouts :: "string set"
  li_keptOwn :: "string set"

definition marker_names :: "string list \<Rightarrow> string set" where
  "marker_names ns = set (map (drop 4) (filter (\<lambda>n. is_marker n \<and> n \<noteq> ''.wh..wh..opq'') ns))"

definition plain_names :: "string list \<Rightarrow> string set" where
  "plain_names ns = set (filter (\<lambda>n. \<not> is_marker n) ns)"

definition list_dir_layer :: "'h env \<Rightarrow> 'h vfs \<Rightarrow> layer \<Rightarrow> string \<Rightarrow> listing \<Rightarrow> listing" where
  "list_dir_layer E S L v li =
     (let ns = ReadDir (io E) (host_state S) (source_path L (SourceRel L v)) in
      if l_rw L then
        li\<lparr>li_out := li_out li \<union> plain_names ns,
           li_keptWhiteouts := li_keptWhiteouts li \<union> marker_names ns,
           li_keptOwn := li_keptOwn li \<union> plain_names ns\<rparr>
      else li\<lparr>li_out := li_out li \<union> set ns\<rparr>)"

definition zip_listed :: "'h env \<Rightarrow> 'h vfs \<Rightarrow> zip_index \<Rightarrow> string \<Rightarrow> string \<Rightarrow> bool" where
  "zip_listed E S I rel c =
     (case byName I (child_path rel c) of
        None \<Rightarrow> True
      | Some e \<Rightarrow> \<not> (flattenSymlinks S \<and> ze_symlink e \<and> (ze_size e > 4096 \<or> \<not> ze_stored e) \<and>
          ResolveZipSymlink (zs E) I e = None))"

definition list_zip_layer :: "'h env \<Rightarrow> 'h vfs \<Rightarrow> layer \<Rightarrow> string \<Rightarrow> listing \<Rightarrow> listing" where
  "list_zip_layer E S L v li =
     (case l_zip L of None \<Rightarrow> li
      | Some I \<Rightarrow>
          let rel = SourceRel L v in
          (case dirChildren I rel of
             None \<Rightarrow> li
           | Some cs \<Rightarrow> li\<lparr>li_out := li_out li \<union> Set.filter (zip_listed E S I rel) cs\<rparr>))"

definition nonempty :: "string \<Rightarrow> string set" where
  "nonempty s = (if s = [] then {} else {s})"

definition list_structure :: "layer \<Rightarrow> string \<Rightarrow> listing \<Rightarrow> listing" where
  "list_structure L v li =
     (let own = (if l_type L = File \<and> SegmentAfter v (fileVPath L) = fileBase L then {fileBase L} else {});
          pp = (if l_type L = File then fileVPath L else l_target L)
      in li\<lparr>li_out := li_out li \<union> own \<union> nonempty (SegmentAfter v pp)\<rparr>)"

definition list_layer :: "'h env \<Rightarrow> 'h vfs \<Rightarrow> string \<Rightarrow> bool \<Rightarrow> layer \<Rightarrow> listing \<Rightarrow> listing" where
  "list_layer E S v opq L li =
     (if priority L < opaque_prio S v then li
      else if LayerMasked L v then li
      else if opq then li
      else
        let li = (if LayerCovers L v then
                    (if l_type L = Dir then list_dir_layer E S L v li
                     else if l_type L = Zip then list_zip_layer E S L v li else li)
                  else li)
        in list_structure L v li)"

definition CollectChildren :: "'h env \<Rightarrow> 'h vfs \<Rightarrow> string \<Rightarrow> string set" where
  "CollectChildren E S v =
     (let wl = (if writelayer S = [] then [] else ReadDir (io E) (host_state S) (WLPath S v));
          opq = (''.wh..wh..opq'' \<in> set wl);
          li = fold (list_layer E S v opq) (layers S)
            \<lparr>li_out = plain_names wl, li_keptWhiteouts = {}, li_keptOwn = {}\<rparr>;
          out = (if opq then li_out li
                 else li_out li \<union> \<Union> ((\<lambda>d. nonempty (SegmentAfter v d)) ` implicitDirs S))
      in (out - marker_names wl) - (li_keptWhiteouts li - li_keptOwn li))"

section \<open>Helpers\<close>

definition MarkerName :: "string \<Rightarrow> bool" where
  "MarkerName v = prefix ''.wh.'' (case find_last_of (CHR ''/'') v of None \<Rightarrow> v | Some s \<Rightarrow> drop (s + 1) v)"

definition EnsureHostParent :: "'h env \<Rightarrow> string \<Rightarrow> ('h, unit res) op" where
  "EnsureHostParent E path =
     (case find_last_of (CHR ''/'') path of
        None \<Rightarrow> ret ok
      | Some s \<Rightarrow> do {
          e \<leftarrow> host_do (create_directories (io E) (take s path));
          ret (case e of Inl _ \<Rightarrow> Inl EIO | Inr _ \<Rightarrow> ok)
        })"

text \<open>A zip hit without an entry, or with a directory's, and a structural directory.\<close>

definition virtual_dir :: "resolve_result \<Rightarrow> bool" where
  "virtual_dir rr \<longleftrightarrow> r_kind rr = ImplicitDir \<or>
     (r_kind rr = ZipHit \<and> (case r_zipEntry rr of None \<Rightarrow> True | Some e \<Rightarrow> ze_isDir e))"

definition lstat_dir :: "'h env \<Rightarrow> 'h vfs \<Rightarrow> string \<Rightarrow> bool" where
  "lstat_dir E S p = (case Lstat (io E) (host_state S) p of Inl _ \<Rightarrow> False | Inr st \<Rightarrow> st_isDir st)"

fun each_res :: "('a \<Rightarrow> ('h, unit res) op) \<Rightarrow> 'a list \<Rightarrow> ('h, unit res) op" where
  "each_res f [] = ret ok"
| "each_res f (x # xs) = trym (f x) (\<lambda>_. each_res f xs)"

text \<open>The recursion follows the merged tree, at most \<open>n\<close> levels deep.\<close>

primrec DeepCopyUp :: "nat \<Rightarrow> 'h env \<Rightarrow> string \<Rightarrow> ('h, unit res) op" where
  "DeepCopyUp 0 E v = ret (Inl NoReturn)"
| "DeepCopyUp (Suc k) E v = do {
     S \<leftarrow> State_Monad.get;
     let rr = Resolve E S v;
     if r_kind rr = HitNone then ret (Inl ENOENT)
     else trym (CopyUp E v rr) (\<lambda>_. do {
       S \<leftarrow> State_Monad.get;
       let isDir = (virtual_dir rr \<or>
         ((r_kind rr = WriteLayer \<or> r_kind rr = DirLayer) \<and> lstat_dir E S (r_hostPath rr)));
       if \<not> isDir then ret ok
       else each_res (\<lambda>c. DeepCopyUp k E (v @ ''/'' @ c)) (sorted_list_of_set (CollectChildren E S v))
     })
   }"

section \<open>Attributes and listings\<close>

record vfs_attr =
  a_isDir :: bool
  a_isSymlink :: bool
  a_perms :: "32 word"
  a_size :: nat
  a_mtime :: int
  a_nlink :: nat
  a_uid :: nat
  a_gid :: nat

definition VfsGetattr :: "'h env \<Rightarrow> 'h vfs \<Rightarrow> string \<Rightarrow> vfs_attr res" where
  "VfsGetattr E S v =
     (let blank = \<lparr>a_isDir = False, a_isSymlink = False, a_perms = 0, a_size = 0, a_mtime = 0,
                   a_nlink = 1, a_uid = v_uid S, a_gid = v_gid S\<rparr>;
          dir = (\<lambda>p. blank\<lparr>a_isDir := True, a_perms := p, a_nlink := 2\<rparr>)
      in if v = [] then Inr (dir 0x1ED)
      else
        let rr = Resolve E S v in
        case r_kind rr of
          HitNone \<Rightarrow> Inl ENOENT
        | ImplicitDir \<Rightarrow> Inr (dir 0x1ED)
        | ZipHit \<Rightarrow>
            (case r_zipEntry rr of
               None \<Rightarrow> Inr (dir 0x16D)
             | Some e \<Rightarrow>
                 if ze_isDir e then Inr (dir 0x16D)
                 else Inr (blank\<lparr>a_isSymlink := ze_symlink e,
                   a_perms := (if ze_symlink e then 0x1FF else 0x16D),
                   a_size := ze_size e, a_mtime := ze_mtime e, a_nlink := 1\<rparr>))
        | _ \<Rightarrow>
            let follow = (flattenSymlinks S \<and> r_kind rr \<noteq> WriteLayer \<and> \<not> r_rwPassthrough rr) in
            bindE (if follow then StatFollow (io E) (host_state S) (r_hostPath rr)
                   else Lstat (io E) (host_state S) (r_hostPath rr)) (\<lambda>st.
              Inr (blank\<lparr>a_isDir := st_isDir st, a_isSymlink := st_isSymlink st,
                a_perms := and (st_mode st) 0x1FF, a_size := st_size st, a_mtime := st_mtime st,
                a_nlink := st_nlink st\<rparr>)))"

text \<open>The names and attributes handed to the filler, in order.\<close>

definition VfsReaddir :: "'h env \<Rightarrow> 'h vfs \<Rightarrow> string \<Rightarrow> string list" where
  "VfsReaddir E S v = sorted_list_of_set (CollectChildren E S v)"

definition VfsReaddirTyped :: "'h env \<Rightarrow> 'h vfs \<Rightarrow> string \<Rightarrow> (string \<times> vfs_attr) list" where
  "VfsReaddirTyped E S v =
     List.map_filter (\<lambda>n. case VfsGetattr E S (child_path v n) of Inl _ \<Rightarrow> None | Inr a \<Rightarrow> Some (n, a))
       (sorted_list_of_set (CollectChildren E S v))"

section \<open>Open files\<close>

text \<open>\<^verbatim>\<open>OpenFile\<close>: a host descriptor (\<open>None\<close> for -1) or a reader of a zip entry.\<close>

record open_file =
  of_fd :: "fd option"
  of_zip :: "zip_reader option"

text \<open>The result is the handle; \<open>None\<close> is the null handle of a directory.\<close>

definition VfsOpen :: "'h env \<Rightarrow> string \<Rightarrow> flags \<Rightarrow> ('h, open_file option res) op" where
  "VfsOpen E v flags = do {
     S \<leftarrow> State_Monad.get;
     let rr = Resolve E S v;
     let wantWrite = (and flags (or O_WRONLY O_RDWR) \<noteq> 0 \<or> and flags O_TRUNC \<noteq> 0);
     let isDir = (virtual_dir rr \<or>
       ((r_kind rr = WriteLayer \<or> r_kind rr = DirLayer \<or> r_kind rr = FileLayer) \<and>
        lstat_dir E S (r_hostPath rr)));
     if r_kind rr = HitNone then ret (Inl ENOENT)
     else if isDir then ret (if wantWrite then Inl EISDIR else Inr None)
     else if wantWrite \<and> readOnly S then ret (Inl EROFS)
     else
       let via_host = (\<lambda>path. trym (host_do (Open (io E) path flags 0)) (\<lambda>fd.
             ret (Inr (Some \<lparr>of_fd = Some fd, of_zip = None\<rparr>)))) in
       if wantWrite then
         trym (if \<not> r_rwPassthrough rr \<and> r_kind rr \<noteq> WriteLayer then CopyUp E v rr else ret ok) (\<lambda>_. do {
           S \<leftarrow> State_Monad.get;
           via_host (if r_rwPassthrough rr then r_hostPath rr
             else case PassthroughHost S v of Some p \<Rightarrow> p | None \<Rightarrow> WLPath S v)
         })
       else
         (case (r_kind rr, r_zipEntry rr) of
            (ZipHit, Some e) \<Rightarrow>
              (case OpenZipEntry (the (l_zip (the (r_layer rr)))) e of
                 Inl x \<Rightarrow> ret (Inl x)
               | Inr zr \<Rightarrow> ret (Inr (Some \<lparr>of_fd = None, of_zip = Some zr\<rparr>)))
          | _ \<Rightarrow> via_host (r_hostPath rr))
   }"

definition VfsCreate :: "'h env \<Rightarrow> string \<Rightarrow> mode \<Rightarrow> flags \<Rightarrow> ('h, open_file option res) op" where
  "VfsCreate E v mode flags = do {
     S \<leftarrow> State_Monad.get;
     let flags' = and (or flags O_CREAT) (not O_NOFOLLOW);
     if readOnly S then ret (Inl EROFS)
     else
       (case PassthroughHost S v of
          Some path \<Rightarrow>
            if MarkerName v then ret (Inl EINVAL)
            else do {
              _ \<leftarrow> EnsureHostParent E path;
              trym (host_do (Open (io E) path flags' mode)) (\<lambda>fd. do {
                _ \<leftarrow> UnhideLower E v;
                ret (Inr (Some \<lparr>of_fd = Some fd, of_zip = None\<rparr>))
              })
            }
        | None \<Rightarrow> do {
            RemoveWhiteout E v;
            trym (EnsureWriteParent E v) (\<lambda>_. do {
              S \<leftarrow> State_Monad.get;
              trym (host_do (Open (io E) (WLPath S v) flags' mode)) (\<lambda>fd.
                ret (Inr (Some \<lparr>of_fd = Some fd, of_zip = None\<rparr>)))
            })
          })
   }"

definition VfsRead :: "'h env \<Rightarrow> 'h vfs \<Rightarrow> open_file option \<Rightarrow> nat \<Rightarrow> nat \<Rightarrow> bytes res" where
  "VfsRead E S f n off =
     (case f of
        None \<Rightarrow> Inl EBADF
      | Some f \<Rightarrow>
          (case of_zip f of
             Some zr \<Rightarrow> ReadZipEntry (zs E) zr n (sint (of_nat off :: 64 word))
           | None \<Rightarrow>
               (case of_fd f of
                  Some fd \<Rightarrow> Pread (io E) (host_state S) fd n off
                | None \<Rightarrow> Inl EBADF)))"

definition VfsWrite :: "'h env \<Rightarrow> open_file option \<Rightarrow> bytes \<Rightarrow> nat \<Rightarrow> ('h, nat res) op" where
  "VfsWrite E f buf off = do {
     S \<leftarrow> State_Monad.get;
     if readOnly S then ret (Inl EROFS)
     else
       (case f of
          None \<Rightarrow> ret (Inl EBADF)
        | Some f \<Rightarrow>
            (case of_fd f of
               None \<Rightarrow> ret (Inl EBADF)
             | Some fd \<Rightarrow> host_do (Pwrite (io E) fd buf off)))
   }"

definition VfsRelease :: "'h env \<Rightarrow> open_file option \<Rightarrow> ('h, unit) op" where
  "VfsRelease E f =
     (case f of
        None \<Rightarrow> ret ()
      | Some f \<Rightarrow>
          (case of_fd f of None \<Rightarrow> ret () | Some fd \<Rightarrow> ignore (host_do (Close (io E) fd))))"

section \<open>Directories and removal\<close>

text \<open>The kept folder's own root.\<close>

definition at_kept_root :: "'h vfs \<Rightarrow> string \<Rightarrow> bool" where
  "at_kept_root S v = (case KeptLayerFor S v of None \<Rightarrow> False | Some i \<Rightarrow> SourceRel (layers S ! i) v = [])"

definition VfsMkdir :: "'h env \<Rightarrow> string \<Rightarrow> mode \<Rightarrow> ('h, unit res) op" where
  "VfsMkdir E v mode = do {
     S \<leftarrow> State_Monad.get;
     if readOnly S then ret (Inl EROFS)
     else
       (case PassthroughHost S v of
          Some path \<Rightarrow>
            if MarkerName v then ret (Inl EINVAL)
            else if at_kept_root S v \<and> IsWhiteouted S v then do { RemoveWhiteout E v; ret ok }
            else do {
              let overDeleted = KeptHidden S v;
              _ \<leftarrow> EnsureHostParent E path;
              trym (host_do (Mkdir (io E) path mode)) (\<lambda>_. do {
                e \<leftarrow> (if overDeleted then KeptMarkOpaque E v else ret ok);
                if e \<noteq> ok then do { _ \<leftarrow> host_do (Rmdir (io E) path); ret e }
                else do { _ \<leftarrow> UnhideLower E v; ret ok }
              })
            }
        | None \<Rightarrow> do {
            let recreateOverLower = IsWhiteouted S v;
            RemoveWhiteout E v;
            trym (EnsureWriteParent E v) (\<lambda>_.
            trym (host_do (Mkdir (io E) (WLPath S v) mode)) (\<lambda>_.
              if recreateOverLower then do { MarkOpaque E v; ret ok } else ret ok))
          })
   }"

definition VfsUnlink :: "'h env \<Rightarrow> string \<Rightarrow> ('h, unit res) op" where
  "VfsUnlink E v = do {
     S \<leftarrow> State_Monad.get;
     if readOnly S then ret (Inl EROFS)
     else
       (case PassthroughHost S v of
          Some path \<Rightarrow> do {
            e \<leftarrow> host_do (Unlink (io E) path);
            if hard_error e then ret e
            else do {
              S \<leftarrow> State_Monad.get;
              if r_kind (Resolve E S v) \<noteq> HitNone then HideLower E v else ret e
            }
          }
        | None \<Rightarrow> do {
            e \<leftarrow> (if writelayer S \<noteq> [] then host_do (Unlink (io E) (WLPath S v)) else ret ok);
            if hard_error e then ret e
            else do {
              S \<leftarrow> State_Monad.get;
              if r_kind (Resolve E S v) \<noteq> HitNone then do { CreateWhiteout E v; ret ok } else ret ok
            }
          })
   }"

definition VfsRmdir :: "'h env \<Rightarrow> string \<Rightarrow> ('h, unit res) op" where
  "VfsRmdir E v = do {
     S \<leftarrow> State_Monad.get;
     if readOnly S then ret (Inl EROFS)
     else if CollectChildren E S v \<noteq> {} then ret (Inl ENOTEMPTY)
     else
       (case PassthroughHost S v of
          Some path \<Rightarrow> do {
            KeptDropMarkersUnder E v;
            S \<leftarrow> State_Monad.get;
            if at_kept_root S v then
              trym (KeptMarkOpaque E v) (\<lambda>_. do { CreateWhiteout E v; ret ok })
            else do {
              e \<leftarrow> host_do (Rmdir (io E) path);
              if hard_error e then ret e
              else do {
                S \<leftarrow> State_Monad.get;
                if r_kind (Resolve E S v) \<noteq> HitNone then HideLower E v else ret e
              }
            }
          }
        | None \<Rightarrow> do {
            (if writelayer S \<noteq> [] then do {
               let wl = WLPath S v;
               each (\<lambda>n. if \<not> is_marker n then ret ()
                         else if n = ''.wh..wh..opq''
                         then do { _ \<leftarrow> host_do (Unlink (io E) (wl @ ''/'' @ n)); UnmarkOpaque v }
                         else RemoveWhiteout E (child_path v (drop 4 n)))
                 (ReadDir (io E) (host_state S) wl);
               ignore (host_do (Rmdir (io E) wl))
             } else ret ());
            S \<leftarrow> State_Monad.get;
            if r_kind (Resolve E S v) \<noteq> HitNone then do { CreateWhiteout E v; ret ok } else ret ok
          })
   }"

section \<open>Rename and link\<close>

definition VfsRename :: "'h env \<Rightarrow> string \<Rightarrow> string \<Rightarrow> ('h, unit res) op" where
  "VfsRename E vf vt = do {
     S \<leftarrow> State_Monad.get;
     if readOnly S then ret (Inl EROFS)
     else do {
       let rr = Resolve E S vf;
       if r_kind rr = HitNone then ret (Inl ENOENT)
       else do {
         let isDir = (virtual_dir rr \<or>
           ((r_kind rr = DirLayer \<or> r_kind rr = WriteLayer) \<and> lstat_dir E S (r_hostPath rr)));
         trym (if isDir then DeepCopyUp (turns E) E vf
               else if \<not> r_rwPassthrough rr \<and> r_kind rr \<noteq> WriteLayer then CopyUp E vf rr
               else ret ok) (\<lambda>_. do {
           S \<leftarrow> State_Monad.get;
           let src = (if r_rwPassthrough rr then r_hostPath rr
                      else case PassthroughHost S vf of Some p \<Rightarrow> p | None \<Rightarrow> WLPath S vf);
           let pass = PassthroughHost S vt;
           let dstKept = (pass \<noteq> None);
           if dstKept \<and> MarkerName vt then ret (Inl EINVAL)
           else do {
             let dstOverDeleted = (dstKept \<and> KeptHidden S vt);
             let dst = (case pass of Some p \<Rightarrow> p | None \<Rightarrow> WLPath S vt);
             trym (if dstKept then do { _ \<leftarrow> EnsureHostParent E dst; ret ok }
                   else trym (EnsureWriteParent E vt) (\<lambda>_. do { RemoveWhiteout E vt; ret ok })) (\<lambda>_.
             trym (host_do (Rename (io E) src dst)) (\<lambda>_. do {
               (if isDir then KeptRenamePrefix vf vt else ret ());
               trym (if dstKept \<and> isDir \<and> dstOverDeleted then KeptMarkOpaque E vt else ret ok) (\<lambda>_. do {
                 _ \<leftarrow> (if dstKept then UnhideLower E vt else ret ok);
                 (if isDir then RenameMaskPrefix vf vt else ret ());
                 S \<leftarrow> State_Monad.get;
                 if r_kind (Resolve E S vf) \<noteq> HitNone then HideLower E vf else ret ok
               })
             }))
           }
         })
       }
     }
   }"

definition VfsLink :: "'h env \<Rightarrow> string \<Rightarrow> string \<Rightarrow> ('h, unit res) op" where
  "VfsLink E vf vt = do {
     S \<leftarrow> State_Monad.get;
     if readOnly S then ret (Inl EROFS)
     else do {
       let rr = Resolve E S vf;
       if r_kind rr = HitNone then ret (Inl ENOENT)
       else if virtual_dir rr then ret (Inl EPERM)
       else if r_kind (Resolve E S vt) \<noteq> HitNone then ret (Inl EEXIST)
       else trym (if \<not> r_rwPassthrough rr \<and> r_kind rr \<noteq> WriteLayer then CopyUp E vf rr else ret ok) (\<lambda>_. do {
         S \<leftarrow> State_Monad.get;
         let src = (if r_rwPassthrough rr then r_hostPath rr
                    else case PassthroughHost S vf of Some p \<Rightarrow> p | None \<Rightarrow> WLPath S vf);
         let link = (\<lambda>dst. trym (host_do (Link (io E) src dst)) (\<lambda>_. do { _ \<leftarrow> UnhideLower E vt; ret ok }));
         (case PassthroughHost S vt of
            Some dst \<Rightarrow>
              if MarkerName vt then ret (Inl EINVAL)
              else do { _ \<leftarrow> EnsureHostParent E dst; link dst }
          | None \<Rightarrow> trym (EnsureWriteParent E vt) (\<lambda>_. link (WLPath S vt)))
       })
     }
   }"

section \<open>Attributes that change, and links\<close>

text \<open>The host path of a path made writable: the shared tail of truncate and chmod.\<close>

definition writable_host :: "'h env \<Rightarrow> string \<Rightarrow> resolve_result \<Rightarrow> ('h, string res) op" where
  "writable_host E v rr =
     trym (if r_kind rr \<noteq> WriteLayer \<and> \<not> r_rwPassthrough rr then CopyUp E v rr else ret ok) (\<lambda>_. do {
       S \<leftarrow> State_Monad.get;
       ret (Inr (if r_rwPassthrough rr then r_hostPath rr
         else case PassthroughHost S v of Some p \<Rightarrow> p | None \<Rightarrow> WLPath S v))
     })"

definition VfsTruncate :: "'h env \<Rightarrow> string \<Rightarrow> open_file option \<Rightarrow> nat \<Rightarrow> ('h, unit res) op" where
  "VfsTruncate E v f n = do {
     S \<leftarrow> State_Monad.get;
     if readOnly S then ret (Inl EROFS)
     else
       (case (case f of None \<Rightarrow> None | Some f \<Rightarrow> of_fd f) of
          Some fd \<Rightarrow> host_do (Ftruncate (io E) fd n)
        | None \<Rightarrow> do {
            let rr = Resolve E S v;
            if r_kind rr = HitNone then ret (Inl ENOENT)
            else trym (writable_host E v rr) (\<lambda>path. host_do (Truncate (io E) path n))
          })
   }"

definition VfsChmod :: "'h env \<Rightarrow> string \<Rightarrow> mode \<Rightarrow> ('h, unit res) op" where
  "VfsChmod E v mode = do {
     S \<leftarrow> State_Monad.get;
     if readOnly S then ret (Inl EROFS)
     else do {
       let rr = Resolve E S v;
       if r_kind rr = HitNone then ret (Inl ENOENT)
       else trym (writable_host E v rr) (\<lambda>path. host_do (Chmod (io E) path mode))
     }
   }"

definition VfsUtimens :: "'h env \<Rightarrow> string \<Rightarrow> int \<Rightarrow> int \<Rightarrow> ('h, unit res) op" where
  "VfsUtimens E v atimeSec mtimeSec = do {
     S \<leftarrow> State_Monad.get;
     if readOnly S then ret (Inl EROFS)
     else do {
       let rr = Resolve E S v;
       if r_kind rr = HitNone then ret (Inl ENOENT)
       else if r_kind rr \<noteq> WriteLayer \<and> \<not> r_rwPassthrough rr then ret ok
       else host_do (Utimens (io E) (if r_rwPassthrough rr then r_hostPath rr else WLPath S v)
         atimeSec mtimeSec False)
     }
   }"

definition VfsReadlink :: "'h env \<Rightarrow> 'h vfs \<Rightarrow> string \<Rightarrow> string res" where
  "VfsReadlink E S v =
     (let rr = Resolve E S v in
      if r_kind rr = WriteLayer \<or> r_rwPassthrough rr \<or>
         (\<not> flattenSymlinks S \<and> (r_kind rr = DirLayer \<or> r_kind rr = FileLayer))
      then Readlink (io E) (host_state S) (r_hostPath rr)
      else
        (case (r_kind rr, r_zipEntry rr) of
           (ZipHit, Some e) \<Rightarrow> if ze_symlink e then zip_link_target E rr e else Inl EINVAL
         | _ \<Rightarrow> Inl EINVAL))"

definition VfsSymlink :: "'h env \<Rightarrow> string \<Rightarrow> string \<Rightarrow> ('h, unit res) op" where
  "VfsSymlink E target v = do {
     S \<leftarrow> State_Monad.get;
     if readOnly S then ret (Inl EROFS)
     else
       (case PassthroughHost S v of
          Some path \<Rightarrow>
            if MarkerName v then ret (Inl EINVAL)
            else do {
              _ \<leftarrow> EnsureHostParent E path;
              trym (host_do (Symlink (io E) target path)) (\<lambda>_. do { _ \<leftarrow> UnhideLower E v; ret ok })
            }
        | None \<Rightarrow> do {
            RemoveWhiteout E v;
            trym (EnsureWriteParent E v) (\<lambda>_. host_do (Symlink (io E) target (WLPath S v)))
          })
   }"

definition VfsFsync :: "'h env \<Rightarrow> open_file option \<Rightarrow> ('h, unit res) op" where
  "VfsFsync E f =
     (case (case f of None \<Rightarrow> None | Some f \<Rightarrow> of_fd f) of
        None \<Rightarrow> ret ok
      | Some fd \<Rightarrow> host_do (Fsync (io E) fd))"

definition VfsStatfs :: "'h env \<Rightarrow> 'h vfs \<Rightarrow> statvfs_info res" where
  "VfsStatfs E S =
     (let ref = (if writelayer S \<noteq> [] then writelayer S
                 else if layers S \<noteq> [] then l_source (hd (layers S)) else ''/'')
      in Statvfs (io E) (host_state S) ref)"

end
