(* ===== verification/FuseOps.thy ===== *)
theory FuseOps
  imports VfsOps
begin

text \<open>
  The FUSE backend \<^verbatim>\<open>fuseops.cpp\<close>: every callback as a request, its marshalling to the
  neutral operations and back, and \<^verbatim>\<open>serve\<close>, the table of \<^verbatim>\<open>VidyagodfsOps\<close>. A file
  handle is the pointer kept in \<^verbatim>\<open>fuse_file_info::fh\<close>, \<open>None\<close> when it is null. Also the
  command line of \<^verbatim>\<open>main.cpp\<close>.
\<close>

section \<open>Attributes\<close>

record fuse_stat =
  f_mode :: "32 word"
  f_nlink :: nat
  f_size :: nat
  f_mtime :: int
  f_uid :: nat
  f_gid :: nat

definition ToStat :: "vfs_attr \<Rightarrow> fuse_stat" where
  "ToStat a = \<lparr>f_mode = or (if a_isDir a then S_IFDIR else if a_isSymlink a then S_IFLNK else S_IFREG)
       (and (a_perms a) 0xFFF),
     f_nlink = (if a_nlink a \<noteq> 0 then a_nlink a else 1), f_size = a_size a, f_mtime = a_mtime a,
     f_uid = a_uid a, f_gid = a_gid a\<rparr>"

section \<open>Requests\<close>

text \<open>
  \<^verbatim>\<open>op_opendir\<close> tells the kernel to cache the listing and to keep it over the next open:
  \<open>CachedDir\<close> holds \<^verbatim>\<open>cache_readdir\<close> and \<^verbatim>\<open>keep_cache\<close>.
\<close>

datatype request =
    Getattr string
  | Opendir string
  | Readdir string
  | OpenReq string flags
  | CreateReq string mode flags
  | ReadReq "open_file option" nat nat
  | WriteReq "open_file option" bytes nat
  | Release "open_file option"
  | MkdirReq string mode
  | UnlinkReq string
  | RmdirReq string
  | RenameReq string string nat
  | TruncateReq string nat "open_file option"
  | ChmodReq string mode
  | Chown string
  | UtimensReq string int int
  | ReadlinkReq string nat
  | SymlinkReq string string
  | LinkReq string string
  | Flush
  | FsyncReq "open_file option"
  | StatfsReq

datatype reply =
    Status "unit res"
  | Attr "fuse_stat res"
  | CachedDir bool bool
  | Names "(string \<times> fuse_stat option) list"
  | Handle "open_file option res"
  | Data "bytes res"
  | Count "nat res"
  | Target "string res"
  | Space "statvfs_info res"

abbreviation V :: "string \<Rightarrow> string" where "V \<equiv> NormalizeVPath"

text \<open>\<^verbatim>\<open>op_readlink\<close> copies at most \<open>n - 1\<close> characters.\<close>

definition op_readlink :: "nat \<Rightarrow> string \<Rightarrow> string" where
  "op_readlink n tgt = take (if n \<noteq> 0 then n - 1 else 0) tgt"

definition reading :: "('h vfs \<Rightarrow> reply) \<Rightarrow> ('h, reply) op" where
  "reading f = do { S \<leftarrow> State_Monad.get; ret (f S) }"

definition status :: "('h, unit res) op \<Rightarrow> ('h, reply) op" where
  "status m = do { r \<leftarrow> m; ret (Status r) }"

fun serve :: "'h env \<Rightarrow> request \<Rightarrow> ('h, reply) op" where
  "serve E (Getattr p) = reading (\<lambda>S. Attr (map_sum id ToStat (VfsGetattr E S (V p))))"
| "serve E (Opendir p) = ret (CachedDir True True)"
| "serve E (Readdir p) = reading (\<lambda>S.
     Names ([(''.'', None), (''..'', None)] @ map (apsnd (Some \<circ> ToStat)) (VfsReaddirTyped E S (V p))))"
| "serve E (OpenReq p flags) = do { r \<leftarrow> VfsOpen E (V p) flags; ret (Handle r) }"
| "serve E (CreateReq p mode flags) = do { r \<leftarrow> VfsCreate E (V p) mode flags; ret (Handle r) }"
| "serve E (ReadReq f n off) = reading (\<lambda>S. Data (VfsRead E S f n off))"
| "serve E (WriteReq f buf off) = do { r \<leftarrow> VfsWrite E f buf off; ret (Count r) }"
| "serve E (Release f) = do { VfsRelease E f; ret (Status ok) }"
| "serve E (MkdirReq p mode) = status (VfsMkdir E (V p) mode)"
| "serve E (UnlinkReq p) = status (VfsUnlink E (V p))"
| "serve E (RmdirReq p) = status (VfsRmdir E (V p))"
| "serve E (RenameReq from to' fl) =
     (if fl \<noteq> 0 then ret (Status (Inl EINVAL)) else status (VfsRename E (V from) (V to')))"
| "serve E (TruncateReq p n f) = status (VfsTruncate E (V p) f n)"
| "serve E (ChmodReq p mode) = status (VfsChmod E (V p) mode)"
| "serve E (Chown p) = reading (\<lambda>S. Status (if readOnly S then Inl EROFS else ok))"
| "serve E (UtimensReq p a m) = status (VfsUtimens E (V p) a m)"
| "serve E (ReadlinkReq p n) = reading (\<lambda>S. Target (map_sum id (op_readlink n) (VfsReadlink E S (V p))))"
| "serve E (SymlinkReq tgt p) = status (VfsSymlink E tgt (V p))"
| "serve E (LinkReq from to') = status (VfsLink E (V from) (V to'))"
| "serve E Flush = ret (Status ok)"
| "serve E (FsyncReq f) = status (VfsFsync E f)"
| "serve E StatfsReq = reading (\<lambda>S. Space (VfsStatfs E S))"

text \<open>A session: the requests served one after the other.\<close>

fun serve_all :: "'h env \<Rightarrow> request list \<Rightarrow> 'h vfs \<Rightarrow> reply list \<times> 'h vfs" where
  "serve_all E [] S = ([], S)"
| "serve_all E (q # qs) S =
     (case run_state (serve E q) S of (r, S) \<Rightarrow>
        (case serve_all E qs S of (rs, S) \<Rightarrow> (r # rs, S)))"

section \<open>The command line\<close>

text \<open>\<^verbatim>\<open>std::stoll\<close>: blanks, a sign, digits; \<open>None\<close> is the exception.\<close>

definition is_digit :: "char \<Rightarrow> bool" where
  "is_digit c \<longleftrightarrow> CHR ''0'' \<le> c \<and> c \<le> CHR ''9''"

definition digits_value :: "string \<Rightarrow> int" where
  "digits_value ds = fold (\<lambda>c n. n * 10 + (of_char c - 48)) ds 0"

definition stoll :: "string \<Rightarrow> int option" where
  "stoll s =
     (let t = dropWhile (\<lambda>c. c \<in> set [CHR '' '', char_of (9::nat), char_of (10::nat), char_of (11::nat),
            char_of (12::nat), char_of (13::nat)]) s;
          neg = (t \<noteq> [] \<and> hd t = CHR ''-'');
          u = (if t \<noteq> [] \<and> (hd t = CHR ''-'' \<or> hd t = CHR ''+'') then List.tl t else t);
          ds = takeWhile is_digit u;
          n = (if neg then - digits_value ds else digits_value ds)
      in if ds = [] \<or> n < - (2 ^ 63) \<or> n \<ge> 2 ^ 63 then None else Some n)"

record options =
  watchPid :: int
  keepSymlinks :: bool
  backendArgs :: "string list"

fun parse_args :: "string list \<Rightarrow> options \<Rightarrow> options option" where
  "parse_args [] opt = Some opt"
| "parse_args [a] opt =
     Some (if a = ''keep-symlinks'' then opt\<lparr>keepSymlinks := True\<rparr>
           else opt\<lparr>backendArgs := backendArgs opt @ [a]\<rparr>)"
| "parse_args (a # b # as) opt =
     (if a = ''--watch-pid'' then
        (case stoll b of None \<Rightarrow> None | Some n \<Rightarrow> parse_args as (opt\<lparr>watchPid := n\<rparr>))
      else if a = ''-o'' \<and> b = ''keep-symlinks'' then parse_args as (opt\<lparr>keepSymlinks := True\<rparr>)
      else if a = ''keep-symlinks'' then parse_args (b # as) (opt\<lparr>keepSymlinks := True\<rparr>)
      else parse_args (b # as) (opt\<lparr>backendArgs := backendArgs opt @ [a]\<rparr>))"

text \<open>What \<^verbatim>\<open>main\<close> does: exit with a code and a message, die on an exception, or hand over to the backend.\<close>

datatype 'h outcome =
    Exit nat string
  | Uncaught
  | Hangs
  | RunMount "'h vfs" string int "string list"

definition main ::
  "'h env \<Rightarrow> libzip \<Rightarrow> (zip_index \<Rightarrow> string list) \<Rightarrow> 'j json \<Rightarrow> bool \<Rightarrow> string list \<Rightarrow> 'h \<Rightarrow> 'h outcome" where
  "main E lib names J win args h =
     (case args of
        specPath # mountpoint # rest \<Rightarrow>
          (case parse_args rest \<lparr>watchPid = 0, keepSymlinks = False, backendArgs = []\<rparr> of
             None \<Rightarrow> Uncaught
           | Some opt \<Rightarrow>
               (case ParseSpec J win specPath of
                  Inl err \<Rightarrow> Exit 1 err
                | Inr sp \<Rightarrow>
                    let sp = (if sp_mountpoint sp = [] then sp\<lparr>sp_mountpoint := mountpoint\<rparr> else sp) in
                    (case Init E lib names (\<not> keepSymlinks opt) sp h of
                       Inl _ \<Rightarrow> Hangs
                     | Inr S \<Rightarrow> RunMount S mountpoint (watchPid opt) (backendArgs opt))))
      | _ \<Rightarrow> Exit 2 ''usage: vidyagodfs <spec.json> <mountpoint> [--watch-pid <pid>] [backend opts...]'')"

end
