(* ===== verification/Guard.thy ===== *)
theory Guard
  imports FuseOps
begin

text \<open>
  What the operations may do to the host. The locale \<open>guarded\<close> states, for a predicate on
  host states, that the calls which change a path keep it when the path lies under a
  permitted root and that calls on descriptors and reading opens keep it; every operation of
  the filesystem is then shown to keep it, by rules that follow the structure of the monad.
\<close>

section \<open>Preservation\<close>

definition keeps :: "('s \<Rightarrow> bool) \<Rightarrow> ('s, 'a) state \<Rightarrow> bool" where
  "keeps P m \<longleftrightarrow> (\<forall>S. P S \<longrightarrow> P (snd (run_state m S)))"

lemma keepsD: "keeps P m \<Longrightarrow> P S \<Longrightarrow> P (snd (run_state m S))"
  by (simp add: keeps_def)

lemma keeps_ret: "keeps P (State_Monad.return x)"
  by (simp add: keeps_def)

lemma keeps_bind: "keeps P m \<Longrightarrow> (\<And>x. keeps P (f x)) \<Longrightarrow> keeps P (State_Monad.bind m f)"
  by (auto simp: keeps_def State_Monad.bind_def split: prod.split)

lemma keeps_get: "(\<And>S. P S \<Longrightarrow> keeps P (f S)) \<Longrightarrow> keeps P (State_Monad.bind State_Monad.get f)"
  by (auto simp: keeps_def State_Monad.bind_def State_Monad.get_def)

lemma keeps_update: "(\<And>S. P S \<Longrightarrow> P (f S)) \<Longrightarrow> keeps P (State_Monad.update f)"
  by (simp add: keeps_def State_Monad.update_def State_Monad.bind_def State_Monad.get_def State_Monad.set_def)

lemma keeps_if: "(b \<Longrightarrow> keeps P m) \<Longrightarrow> (\<not> b \<Longrightarrow> keeps P m') \<Longrightarrow> keeps P (if b then m else m')"
  by simp

lemma keeps_option:
  "(x = None \<Longrightarrow> keeps P m) \<Longrightarrow> (\<And>y. x = Some y \<Longrightarrow> keeps P (f y)) \<Longrightarrow>
   keeps P (case x of None \<Rightarrow> m | Some y \<Rightarrow> f y)"
  by (cases x) simp_all

lemma keeps_sum:
  "(\<And>y. x = Inl y \<Longrightarrow> keeps P (f y)) \<Longrightarrow> (\<And>y. x = Inr y \<Longrightarrow> keeps P (g y)) \<Longrightarrow>
   keeps P (case x of Inl y \<Rightarrow> f y | Inr y \<Rightarrow> g y)"
  by (cases x) simp_all

lemma keeps_prod: "(\<And>a b. x = (a, b) \<Longrightarrow> keeps P (f a b)) \<Longrightarrow> keeps P (case x of (a, b) \<Rightarrow> f a b)"
  by (cases x) simp

lemma keeps_kind:
  "(k = ZipHit \<Longrightarrow> keeps P m) \<Longrightarrow> (k \<noteq> ZipHit \<Longrightarrow> keeps P m') \<Longrightarrow>
   keeps P (case k of HitNone \<Rightarrow> m' | ImplicitDir \<Rightarrow> m' | WriteLayer \<Rightarrow> m' | DirLayer \<Rightarrow> m' | FileLayer \<Rightarrow> m' | ZipHit \<Rightarrow> m)"
  by (cases k) simp_all

lemma keeps_trym: "keeps P m \<Longrightarrow> (\<And>x. keeps P (f x)) \<Longrightarrow> keeps P (trym m f)"
  unfolding trym_def by (intro keeps_bind keeps_sum keeps_ret)

lemma keeps_ignore: "keeps P m \<Longrightarrow> keeps P (ignore m)"
  unfolding ignore_def by (intro keeps_bind keeps_ret)

lemma keeps_each: "(\<And>x. keeps P (f x)) \<Longrightarrow> keeps P (each f xs)"
  by (induction xs) (auto intro: keeps_ret keeps_bind)

lemma keeps_each_res: "(\<And>x. keeps P (f x)) \<Longrightarrow> keeps P (each_res f xs)"
  by (induction xs) (auto intro: keeps_ret keeps_trym)

lemma keeps_status: "keeps P m \<Longrightarrow> keeps P (status m)"
  unfolding status_def by (intro keeps_bind keeps_ret)

lemma keeps_reading: "keeps P (reading f)"
  unfolding reading_def by (intro keeps_get keeps_ret)

lemmas keeps_rules = keeps_ret keeps_get keeps_if keeps_option keeps_sum keeps_prod keeps_trym keeps_ignore
  keeps_each keeps_each_res keeps_status keeps_reading keeps_bind

section \<open>Roots\<close>

text \<open>A path under a root: the root itself or anything below it.\<close>

definition under :: "string \<Rightarrow> string \<Rightarrow> bool" where
  "under r p \<longleftrightarrow> p = r \<or> prefix (r @ ''/'') p"

definition clean :: "string \<Rightarrow> bool" where
  "clean r \<longleftrightarrow> r \<noteq> [] \<and> last r \<noteq> CHR ''/''"

definition in_root :: "string set \<Rightarrow> string \<Rightarrow> bool" where
  "in_root R p \<longleftrightarrow> (\<exists>r \<in> R. under r p)"

text \<open>Where directories may be made: under a root, or in front of one.\<close>

definition dir_root :: "string set \<Rightarrow> string \<Rightarrow> bool" where
  "dir_root R p \<longleftrightarrow> in_root R p \<or> (\<exists>r \<in> R. prefix p r)"

text \<open>The roots a mount may write to: the writelayer and the sources of its kept folders.\<close>

definition rooted :: "string set \<Rightarrow> 'h vfs \<Rightarrow> bool" where
  "rooted R S \<longleftrightarrow> writelayer S \<in> R \<and> writelayer S \<noteq> [] \<and> (\<forall>r \<in> R. clean r) \<and>
     (\<forall>L \<in> set (layers S). l_type L = Dir \<and> l_rw L \<longrightarrow> l_source L \<in> R)"

lemma under_join [simp]: "under r (r @ CHR ''/'' # x)"
  by (simp add: under_def)

lemma under_append: "under r p \<Longrightarrow> under r (p @ CHR ''/'' # x)"
  by (auto simp: under_def prefix_def)

lemma under_refl [simp]: "under r r"
  by (simp add: under_def)

lemma under_WLPath: "under (writelayer S) (WLPath S v)"
  by (simp add: WLPath_def)

lemma under_source: "under (l_source L) (source_path L rel)"
  by (simp add: source_path_def)

lemma in_rootI: "r \<in> R \<Longrightarrow> under r p \<Longrightarrow> in_root R p"
  by (auto simp: in_root_def)

lemma in_root_append: "in_root R p \<Longrightarrow> in_root R (p @ CHR ''/'' # x)"
  by (auto simp: in_root_def intro: under_append)

lemma in_root_source: "l_source L \<in> R \<Longrightarrow> in_root R (source_path L rel)"
  by (rule in_rootI [OF _ under_source])

lemma in_root_WLPath: "rooted R S \<Longrightarrow> in_root R (WLPath S v)"
  by (rule in_rootI [OF _ under_WLPath]) (simp add: rooted_def)

lemma in_root_whiteout: "rooted R S \<Longrightarrow> in_root R (WhiteoutPath S v)"
  using in_root_append [OF in_root_WLPath [of R S "ParentVRel v"]] by (simp add: WhiteoutPath_def)

lemma in_root_opaque: "rooted R S \<Longrightarrow> in_root R (OpaqueMarker S v)"
  using in_root_append [OF in_root_WLPath [of R S v]] by (simp add: OpaqueMarker_def)

lemma kept_layer_root:
  "rooted R S \<Longrightarrow> KeptLayerFor S v = Some i \<Longrightarrow> i < length (layers S) \<and> l_source (layers S ! i) \<in> R"
  using nth_mem [of i "layers S"]
  by (auto simp: KeptLayerFor_def kept_for_def rooted_def dest!: find_SomeD)

lemma passthrough_root: "rooted R S \<Longrightarrow> PassthroughHost S v = Some p \<Longrightarrow> in_root R p"
  by (auto simp: PassthroughHost_def kept_for_def rooted_def split: option.splits dest!: find_SomeD)
    (blast intro: in_root_source)

text \<open>The kept layers of a listing of layers, with their masks left out of account.\<close>

lemma rooted_update [simp]:
  "rooted R (S\<lparr>host_state := h\<rparr>) = rooted R S" "rooted R (S\<lparr>whiteoutSet := w\<rparr>) = rooted R S"
  "rooted R (S\<lparr>opaqueSet := q\<rparr>) = rooted R S"
  by (simp_all add: rooted_def)

lemma rooted_kept:
  "rooted R S \<Longrightarrow> rooted R (S\<lparr>layers := (layers S)[i := (layers S ! i)\<lparr>kept := k\<rparr>]\<rparr>)"
proof -
  let ?L = "(layers S ! i)\<lparr>kept := k\<rparr>"
  assume r: "rooted R S"
  show ?thesis
  proof (cases "i < length (layers S)")
    case True
    then have "l_type ?L = Dir \<and> l_rw ?L \<longrightarrow> l_source ?L \<in> R" using r by (simp add: rooted_def)
    then show ?thesis
      using r set_update_subset_insert [of "layers S" i ?L] by (auto simp: rooted_def)
  qed (use r in \<open>simp add: rooted_def list_update_beyond\<close>)
qed

text \<open>A hit that is written through lies under a root; so does a hit in the writelayer.\<close>

lemma resolve_layer_hit:
  assumes "resolve_layer E S L v = Hit r"
  shows "r_kind r \<noteq> WriteLayer"
    and "r_rwPassthrough r \<Longrightarrow> l_type L = Dir \<and> l_rw L \<and> r_hostPath r = source_path L (SourceRel L v)"
proof -
  consider (d) "l_type L = Dir" "resolve_dir E S L v = Hit r"
    | (f) "resolve_file E S L = Hit r" | (z) "resolve_zip E S L v = Hit r"
    using assms by (auto simp: resolve_layer_def split: if_splits)
  then have "r_kind r \<noteq> WriteLayer \<and>
      (r_rwPassthrough r \<longrightarrow> l_type L = Dir \<and> l_rw L \<and> r_hostPath r = source_path L (SourceRel L v))"
  proof cases
    case d
    then show ?thesis by (auto simp: resolve_dir_def no_hit_def Let_def split: sum.splits if_splits)
  next
    case f
    then show ?thesis by (auto simp: resolve_file_def split: sum.splits if_splits)
  next
    case z
    then show ?thesis by (auto simp: resolve_zip_def zip_hit_def Let_def split: option.splits if_splits)
  qed
  then show "r_kind r \<noteq> WriteLayer"
    "r_rwPassthrough r \<Longrightarrow> l_type L = Dir \<and> l_rw L \<and> r_hostPath r = source_path L (SourceRel L v)"
    by auto
qed

lemma resolve_layers_pass:
  assumes "r_rwPassthrough (resolve_layers E S v Ls)" "\<forall>L \<in> set Ls. l_type L = Dir \<and> l_rw L \<longrightarrow> l_source L \<in> R"
  shows "in_root R (r_hostPath (resolve_layers E S v Ls))"
  using assms
proof (induction Ls)
  case (Cons L Ls)
  show ?case
  proof (cases "resolve_layer E S L v")
    case (Hit r)
    then show ?thesis using resolve_layer_hit(2) [OF Hit] Cons.prems by (auto intro: in_root_source)
  next
    case Next
    then show ?thesis using Cons by simp
  qed
qed (auto simp: no_hit_def split: if_splits)

lemma resolve_layers_kind: "r_kind (resolve_layers E S v Ls) \<noteq> WriteLayer"
proof (induction Ls)
  case (Cons L Ls)
  then show ?case by (auto split: answer.split dest: resolve_layer_hit(1))
qed (auto simp: no_hit_def)

lemma Resolve_pass:
  "rooted R S \<Longrightarrow> r_rwPassthrough (Resolve E S v) \<Longrightarrow> in_root R (r_hostPath (Resolve E S v))"
  using resolve_layers_pass [of E S v "rev (layers S)" R]
  by (auto simp: Resolve_def rooted_def no_hit_def Let_def split: if_splits sum.splits)

text \<open>The parent directory of a path under a root is under the root or in front of it.\<close>

lemma prefix_strip: "prefix (rev (dropWhile P (rev a))) a"
  by (metis prefix_def rev_append rev_rev_ident takeWhile_dropWhile_id)

lemma strip_clean: "a = r \<Longrightarrow> clean r \<Longrightarrow> rev (dropWhile (\<lambda>c. c = CHR ''/'') (rev a)) = r"
  by (cases r rule: rev_cases) (auto simp: clean_def)

lemma under_strip:
  assumes "clean r" "under r a" shows "under r (rev (dropWhile (\<lambda>c. c = CHR ''/'') (rev a)))"
proof (cases "a = r")
  case True
  then show ?thesis using strip_clean [OF True assms(1)] by simp
next
  case False
  then obtain w where a: "a = r @ CHR ''/'' # w" using assms(2) by (auto simp: under_def prefix_def)
  have stop: "dropWhile (\<lambda>c. c = CHR ''/'') (rev r) = rev r"
    using strip_clean [OF refl assms(1)] by (metis rev_rev_ident)
  show ?thesis
  proof (cases "\<forall>c \<in> set w. c = CHR ''/''")
    case True
    then show ?thesis by (simp add: a dropWhile_append stop)
  next
    case False
    then have "rev (dropWhile (\<lambda>c. c = CHR ''/'') (rev a)) = r @ CHR ''/'' # rev (dropWhile (\<lambda>c. c = CHR ''/'') (rev w))"
      by (auto simp: a dropWhile_append)
    then show ?thesis by simp
  qed
qed

lemma under_front:
  assumes "under r (a @ CHR ''/'' # b)" "CHR ''/'' \<notin> set b" shows "under r a \<or> prefix a r"
proof (cases "a @ CHR ''/'' # b = r")
  case True
  then show ?thesis by (auto simp: prefix_def)
next
  case False
  then obtain y where "a @ CHR ''/'' # b = r @ CHR ''/'' # y" using assms(1) by (auto simp: under_def prefix_def)
  then consider (low) us where "a = r @ us" "us @ CHR ''/'' # b = CHR ''/'' # y"
    | (high) us where "r = a @ us" "CHR ''/'' # b = us @ CHR ''/'' # y"
    by (auto simp: append_eq_append_conv2)
  then show ?thesis
  proof cases
    case low
    then show ?thesis by (cases us) (auto simp: under_def prefix_def)
  next
    case high
    then show ?thesis by (auto simp: prefix_def)
  qed
qed

lemma dir_root_front:
  "in_root R (a @ CHR ''/'' # b) \<Longrightarrow> CHR ''/'' \<notin> set b \<Longrightarrow> dir_root R a"
  by (auto simp: in_root_def dir_root_def dest: under_front)

lemma dir_root_strip:
  assumes "dir_root R a" "\<forall>r \<in> R. clean r"
  shows "dir_root R (rev (dropWhile (\<lambda>c. c = CHR ''/'') (rev a)))"
  using assms prefix_strip [of "\<lambda>c. c = CHR ''/''" a]
  by (auto simp: dir_root_def in_root_def intro: under_strip) (meson prefix_order.trans)

lemma dir_root_parent:
  assumes p: "in_root R p" and R: "\<forall>r \<in> R. clean r"
  shows "dir_root R (parent_path p)"
proof (cases rule: find_last_of_cases [of "CHR ''/''" p])
  case none
  then show ?thesis using p by (auto simp: parent_path_def dir_root_def in_root_def)
next
  case (found a b)
  define d where "d = rev (dropWhile (\<lambda>c. c = CHR ''/'') (rev a))"
  have d: "dir_root R d" unfolding d_def
    by (rule dir_root_strip [OF dir_root_front R]) (use p found in auto)
  show ?thesis
  proof (cases "d = []")
    case False
    then have "parent_path p = d" using found by (simp add: parent_path_def d_def [symmetric])
    then show ?thesis using d by simp
  next
    case True
    then have "\<forall>c \<in> set a. c = CHR ''/''" by (auto simp: d_def dropWhile_eq_Nil_conv)
    then have "prefix ''/'' p" using found(1) by (cases a) auto
    moreover obtain r where "r \<in> R" "under r p" using p by (auto simp: in_root_def)
    ultimately have "prefix ''/'' r" using R by (cases r) (auto simp: under_def clean_def prefix_def)
    then show ?thesis using True \<open>r \<in> R\<close> found by (auto simp: parent_path_def d_def Let_def dir_root_def)
  qed
qed

lemma dir_root_take:
  "in_root R p \<Longrightarrow> find_last_of (CHR ''/'') p = Some s \<Longrightarrow> dir_root R (take s p)"
  by (cases rule: find_last_of_cases [of "CHR ''/''" p]) (auto intro: dir_root_front)

section \<open>The guarded host\<close>

text \<open>Open flags that can change what is at the path.\<close>

definition writes :: "flags \<Rightarrow> bool" where
  "writes flags \<longleftrightarrow> and flags (or (or O_WRONLY O_RDWR) (or O_TRUNC O_CREAT)) \<noteq> 0"

lemma open_mode:
  "and fl (or O_WRONLY O_RDWR) = 0 \<Longrightarrow> and fl O_TRUNC = 0 \<Longrightarrow> and fl O_CREAT = 0 \<Longrightarrow> writes fl \<longleftrightarrow> False"
  by (simp add: writes_def bit.conj_disj_distrib)

text \<open>
  \<open>Q\<close> is kept by descriptor calls and reading opens, by changing calls under a root, and by
  creating the directories of a path under a root or the parent directory of a root.
\<close>

locale guarded =
  fixes E :: "'h env" and R :: "string set" and Q :: "'h \<Rightarrow> bool"
  assumes host_open_read: "\<not> writes fl \<Longrightarrow> Q h \<Longrightarrow> Q (snd (Open (io E) p fl m h))"
    and host_open_write: "in_root R p \<Longrightarrow> Q h \<Longrightarrow> Q (snd (Open (io E) p fl m h))"
    and host_close: "Q h \<Longrightarrow> Q (snd (Close (io E) fd h))"
    and host_pwrite: "Q h \<Longrightarrow> Q (snd (Pwrite (io E) fd b off h))"
    and host_read: "Q h \<Longrightarrow> Q (snd (Read (io E) fd n h))"
    and host_write: "Q h \<Longrightarrow> Q (snd (Write (io E) fd b h))"
    and host_fsync: "Q h \<Longrightarrow> Q (snd (Fsync (io E) fd h))"
    and host_ftruncate: "Q h \<Longrightarrow> Q (snd (Ftruncate (io E) fd n h))"
    and host_fchmod: "Q h \<Longrightarrow> Q (snd (Fchmod (io E) fd m h))"
    and host_mkdir: "in_root R p \<Longrightarrow> Q h \<Longrightarrow> Q (snd (Mkdir (io E) p m h))"
    and host_unlink: "in_root R p \<Longrightarrow> Q h \<Longrightarrow> Q (snd (Unlink (io E) p h))"
    and host_rmdir: "in_root R p \<Longrightarrow> Q h \<Longrightarrow> Q (snd (Rmdir (io E) p h))"
    and host_rename: "in_root R p \<Longrightarrow> in_root R p' \<Longrightarrow> Q h \<Longrightarrow> Q (snd (Rename (io E) p p' h))"
    and host_link: "in_root R p \<Longrightarrow> in_root R p' \<Longrightarrow> Q h \<Longrightarrow> Q (snd (Link (io E) p p' h))"
    and host_truncate: "in_root R p \<Longrightarrow> Q h \<Longrightarrow> Q (snd (Truncate (io E) p n h))"
    and host_chmod: "in_root R p \<Longrightarrow> Q h \<Longrightarrow> Q (snd (Chmod (io E) p m h))"
    and host_utimens: "in_root R p \<Longrightarrow> Q h \<Longrightarrow> Q (snd (Utimens (io E) p at mt nf h))"
    and host_symlink: "in_root R p \<Longrightarrow> Q h \<Longrightarrow> Q (snd (Symlink (io E) tgt p h))"
    and host_dirs: "dir_root R p \<Longrightarrow> Q h \<Longrightarrow> Q (snd (create_directories (io E) p h))"
begin

definition good :: "'h vfs \<Rightarrow> bool" where
  "good S \<longleftrightarrow> rooted R S \<and> Q (host_state S)"

lemma goodD: "good S \<Longrightarrow> rooted R S" "good S \<Longrightarrow> Q (host_state S)"
  by (simp_all add: good_def)

lemma keeps_host: "(\<And>h. Q h \<Longrightarrow> Q (snd (f h))) \<Longrightarrow> keeps good (host_do f)"
  by (auto simp: keeps_def host_do_def good_def split: prod.split) (metis snd_conv)

lemma keeps_full_write: "keeps good (host_do (FullWrite (io E) k fd b))"
proof (rule keeps_host)
  show "Q h \<Longrightarrow> Q (snd (FullWrite (io E) k fd b h))" for h
  proof (induction k arbitrary: b h)
    case 0
    then show ?case by (subst FullWrite.simps) simp
  next
    case (Suc k)
    have "Q (snd (Write (io E) fd b h))" by (rule host_write [OF Suc.prems])
    then show ?case using Suc.prems
      by (subst FullWrite.simps) (auto split: prod.split sum.split intro: Suc.IH)
  qed
qed

end

end
