(* ===== verification/VfsGuard.thy ===== *)
theory VfsGuard
  imports Guard
begin

text \<open>
  Every operation of the filesystem keeps a predicate that a guarded host keeps: the
  writelayer and the kept folders are the only trees it changes.
\<close>

section \<open>The operations keep it\<close>

context guarded
begin

lemma good_updates:
  "good S \<Longrightarrow> good (S\<lparr>whiteoutSet := w\<rparr>)" "good S \<Longrightarrow> good (S\<lparr>opaqueSet := w\<rparr>)"
  by (simp_all add: good_def)

lemma good_kept: "good S \<Longrightarrow> good (S\<lparr>layers := (layers S)[i := (layers S ! i)\<lparr>kept := k\<rparr>]\<rparr>)"
  by (simp add: good_def rooted_kept)

lemma keeps_masks: "keeps good (MutateWhiteouts f)" "keeps good (MutateOpaques f)" "keeps good (MutateKept i g)"
  unfolding MutateWhiteouts_def MutateOpaques_def MutateKept_def
  by (auto intro!: keeps_update good_updates good_kept)

lemma keeps_calls:
  "keeps good (host_do (Close (io E) fd))" "keeps good (host_do (Pwrite (io E) fd b off))" "keeps good (host_do (Read (io E) fd n))"
  "keeps good (host_do (Fsync (io E) fd))" "keeps good (host_do (Ftruncate (io E) fd n))" "keeps good (host_do (Fchmod (io E) fd m))"
  "keeps good (host_do (FullWrite (io E) k fd b))" "keeps good (host_do (Open (io E) q O_RDONLY m))"
  by (auto intro!: keeps_host keeps_full_write host_close host_pwrite host_read host_fsync host_ftruncate
      host_fchmod host_open_read simp: writes_def open_flags)

lemma keeps_paths:
  assumes "in_root R p"
  shows "keeps good (host_do (Open (io E) p fl m))" "keeps good (host_do (Mkdir (io E) p m))"
    "keeps good (host_do (Unlink (io E) p))" "keeps good (host_do (Rmdir (io E) p))"
    "keeps good (host_do (Truncate (io E) p n))" "keeps good (host_do (Chmod (io E) p m))"
    "keeps good (host_do (Utimens (io E) p a b nf))" "keeps good (host_do (Symlink (io E) tgt p))"
    "keeps good (host_do (create_directories (io E) p))"
  using assms
  by (auto intro!: keeps_host host_open_write host_mkdir host_unlink host_rmdir host_truncate host_chmod
      host_utimens host_symlink host_dirs simp: dir_root_def)

lemma keeps_two:
  assumes "in_root R p" "in_root R p'"
  shows "keeps good (host_do (Rename (io E) p p'))" "keeps good (host_do (Link (io E) p p'))"
  using assms by (auto intro!: keeps_host host_rename host_link)

lemmas good_paths = in_root_WLPath [OF goodD(1)] in_root_whiteout [OF goodD(1)] in_root_opaque [OF goodD(1)]
  passthrough_root [OF goodD(1)] Resolve_pass [OF goodD(1)]

lemma touch_keeps: "in_root R p \<Longrightarrow> keeps good (touch E p)"
  unfolding touch_def
  by (auto intro!: keeps_rules keeps_calls keeps_paths)

lemma CreateWhiteout_keeps: "keeps good (CreateWhiteout E v)"
  unfolding CreateWhiteout_def
  by (rule keeps_get) (auto intro!: keeps_ret keeps_bind keeps_paths keeps_masks touch_keeps good_paths)

lemma RemoveWhiteout_keeps: "keeps good (RemoveWhiteout E v)"
  unfolding RemoveWhiteout_def
  by (rule keeps_get) (auto intro!: keeps_ret keeps_bind keeps_paths keeps_masks good_paths)

lemma MarkOpaque_keeps: "keeps good (MarkOpaque E v)"
  unfolding MarkOpaque_def
  by (rule keeps_get) (auto intro!: keeps_ret keeps_bind keeps_masks touch_keeps good_paths)

lemma UnmarkOpaque_keeps: "keeps good (UnmarkOpaque v)"
  unfolding UnmarkOpaque_def by (auto intro!: keeps_get keeps_ret keeps_masks)

lemma RenameMaskPrefix_keeps: "keeps good (RenameMaskPrefix v w)"
  unfolding RenameMaskPrefix_def
  by (rule keeps_get) (auto intro!: keeps_ret keeps_bind keeps_masks)

lemma KeptRenamePrefix_keeps: "keeps good (KeptRenamePrefix v w)"
  unfolding KeptRenamePrefix_def Let_def
  by (rule keeps_get) (auto intro!: keeps_ret keeps_bind keeps_masks keeps_option)

lemma keeps_dirs: "dir_root R p \<Longrightarrow> keeps good (host_do (create_directories (io E) p))"
  by (auto intro!: keeps_host host_dirs)

lemma good_clean: "good S \<Longrightarrow> \<forall>r \<in> R. clean r"
  by (simp add: good_def rooted_def)

lemmas keeps_prim = keeps_masks keeps_calls keeps_paths keeps_two keeps_dirs touch_keeps CreateWhiteout_keeps
  RemoveWhiteout_keeps MarkOpaque_keeps UnmarkOpaque_keeps RenameMaskPrefix_keeps KeptRenamePrefix_keeps

lemma TouchMarker_keeps:
  "in_root R p \<Longrightarrow> \<forall>r \<in> R. clean r \<Longrightarrow> keeps good (TouchMarker E p)"
  unfolding TouchMarker_def
  by (intro keeps_trym keeps_bind keeps_ret keeps_dirs keeps_paths keeps_calls dir_root_parent)

lemma in_root_marker:
  "l_source L \<in> R \<Longrightarrow> rel \<noteq> [] \<Longrightarrow> in_root R (KeptMarker L rel)"
  using in_root_append [OF in_root_source [of L R "ParentVRel rel"]] by (simp add: KeptMarker_def)

lemma good_kept_layer: "good S \<Longrightarrow> KeptLayerFor S v = Some i \<Longrightarrow> l_source (layers S ! i) \<in> R"
  using kept_layer_root [OF goodD(1)] by blast

lemma HideLower_keeps: "keeps good (HideLower E v)"
  unfolding HideLower_def Let_def
  by (rule keeps_get, intro keeps_option keeps_if keeps_bind keeps_ret keeps_trym keeps_prim TouchMarker_keeps)
    (auto intro: in_root_marker good_kept_layer dest: good_clean)

lemma UnhideLower_keeps: "keeps good (UnhideLower E v)"
  unfolding UnhideLower_def Let_def
  by (rule keeps_get, intro keeps_option keeps_if keeps_bind keeps_ret keeps_prim)
    (auto intro: in_root_marker good_kept_layer)

lemma KeptMarkOpaque_keeps: "keeps good (KeptMarkOpaque E v)"
  unfolding KeptMarkOpaque_def Let_def
  by (rule keeps_get, intro keeps_option keeps_bind keeps_ret keeps_trym keeps_prim TouchMarker_keeps)
    (auto intro: in_root_append in_root_source good_kept_layer dest: good_clean)

lemma KeptDropMarkersUnder_keeps: "keeps good (KeptDropMarkersUnder E v)"
  unfolding KeptDropMarkersUnder_def Let_def
  by (rule keeps_get, intro keeps_option keeps_bind keeps_ret keeps_each keeps_if keeps_ignore keeps_prim)
    (auto intro: in_root_append in_root_source good_kept_layer)

lemma EnsureWriteParent_keeps: "keeps good (EnsureWriteParent E v)"
  unfolding EnsureWriteParent_def
  by (rule keeps_get, intro keeps_bind keeps_ret keeps_paths good_paths)

lemma copy_zip_loop_keeps: "keeps good (copy_zip_loop k E zr out off)"
  by (induction k arbitrary: off) (auto intro!: keeps_ret keeps_sum keeps_trym keeps_calls)

lemma copy_host_loop_keeps: "keeps good (copy_host_loop k E inp out)"
  by (induction k) (auto intro!: keeps_ret keeps_bind keeps_sum keeps_trym keeps_calls)

lemma copy_file_keeps: "in_root R dst \<Longrightarrow> keeps good (copy_file E rr dst)"
  unfolding copy_file_def
  by (auto intro!: keeps_trym keeps_bind keeps_ret keeps_paths keeps_calls copy_zip_loop_keeps copy_host_loop_keeps
      keeps_get keeps_ignore split: HitKind.split option.split sum.split)

lemma CopyUp_keeps: "keeps good (CopyUp E v rr)"
proof -
  have main: "keeps good (trym (case PassthroughHost S v of
          Some _ \<Rightarrow> do {
            e \<leftarrow> host_do (create_directories (io E) (parent_path dst));
            ret (case e of Inl _ \<Rightarrow> Inl EIO | Inr _ \<Rightarrow> ok)
          }
        | None \<Rightarrow> EnsureWriteParent E v) f)"
    if "good S" "in_root R dst" "\<And>x. keeps good (f x)" for S dst f
    by (intro keeps_trym keeps_option keeps_bind keeps_ret keeps_dirs EnsureWriteParent_keeps dir_root_parent that
        good_clean [OF that(1)])
  have tail: "keeps good (do {
        S \<leftarrow> State_Monad.get;
        if copy_is_dir E S rr then do {
          e \<leftarrow> host_do (create_directories (io E) dst);
          ret (case e of Inl _ \<Rightarrow> Inl EIO | Inr _ \<Rightarrow> ok)
        }
        else (case (r_kind rr, r_zipEntry rr) of
             (ZipHit, Some e) \<Rightarrow>
               if ze_symlink e then trym (ret (zip_link_target E rr e)) (\<lambda>tgt. host_do (Symlink (io E) tgt dst))
               else copy_file E rr dst
           | _ \<Rightarrow>
               if \<not> flattenSymlinks S \<and> (r_kind rr = DirLayer \<or> r_kind rr = FileLayer) \<and>
                  (case Lstat (io E) (host_state S) (r_hostPath rr) of Inl _ \<Rightarrow> False | Inr st \<Rightarrow> st_isSymlink st)
               then trym (ret (Readlink (io E) (host_state S) (r_hostPath rr))) (\<lambda>tgt. host_do (Symlink (io E) tgt dst))
               else copy_file E rr dst)
      })" if "in_root R dst" for dst
    by (auto intro!: keeps_get keeps_bind keeps_ret keeps_trym keeps_paths copy_file_keeps that
        split: HitKind.split option.split)
  show ?thesis
    unfolding CopyUp_def Let_def
    by (rule keeps_get, intro keeps_if keeps_ret keeps_sum main tail)
      (auto split: option.split intro: good_paths)
qed

lemmas keeps_mid = HideLower_keeps UnhideLower_keeps KeptMarkOpaque_keeps KeptDropMarkersUnder_keeps
  EnsureWriteParent_keeps CopyUp_keeps

lemma EnsureHostParent_keeps: "in_root R p \<Longrightarrow> keeps good (EnsureHostParent E p)"
  unfolding EnsureHostParent_def
  by (intro keeps_option keeps_ret keeps_bind keeps_dirs) (rule dir_root_take)

lemma DeepCopyUp_keeps: "keeps good (DeepCopyUp k E v)"
  by (induction k arbitrary: v)
    (auto simp: Let_def intro!: keeps_ret keeps_get keeps_trym keeps_mid keeps_each_res)

lemmas keeps_all = keeps_prim keeps_mid EnsureHostParent_keeps DeepCopyUp_keeps

lemma keeps_open_read: "\<not> writes fl \<Longrightarrow> keeps good (host_do (Open (io E) p fl m))"
  by (auto intro!: keeps_host host_open_read)

text \<open>Where a path made writable is opened.\<close>

lemma in_root_target:
  assumes "good S" "rr = Resolve E' S' v'" "good S'"
  shows "in_root R (if r_rwPassthrough rr then r_hostPath rr
    else case PassthroughHost S v of Some p \<Rightarrow> p | None \<Rightarrow> WLPath S v)"
  using assms by (auto split: option.split intro: good_paths)

lemma VfsOpen_keeps: "and fl O_CREAT = 0 \<Longrightarrow> keeps good (VfsOpen E v fl)"
  unfolding VfsOpen_def Let_def
  by (rule keeps_get, intro keeps_if keeps_ret keeps_trym keeps_get keeps_all in_root_target refl keeps_prod)
    (auto intro!: keeps_trym keeps_ret keeps_open_read simp: open_mode split: HitKind.split option.split sum.split)

lemma VfsCreate_keeps: "keeps good (VfsCreate E v md fl)"
  unfolding VfsCreate_def Let_def
  by (rule keeps_get, intro keeps_if keeps_ret keeps_option keeps_get keeps_bind keeps_trym keeps_all) (auto intro: good_paths)

lemma VfsWrite_keeps: "keeps good (VfsWrite E f b off)"
  unfolding VfsWrite_def by (rule keeps_get, intro keeps_if keeps_ret keeps_option keeps_all)

lemma VfsRelease_keeps: "keeps good (VfsRelease E f)"
  unfolding VfsRelease_def by (intro keeps_ret keeps_option keeps_ignore keeps_all)

lemma VfsMkdir_keeps: "keeps good (VfsMkdir E v md)"
  unfolding VfsMkdir_def Let_def
  by (rule keeps_get, intro keeps_if keeps_ret keeps_option keeps_bind keeps_trym keeps_all) (auto intro: good_paths)

lemma VfsUnlink_keeps: "keeps good (VfsUnlink E v)"
  unfolding VfsUnlink_def Let_def
  by (rule keeps_get, intro keeps_if keeps_ret keeps_option keeps_get keeps_bind keeps_all) (auto intro: good_paths)

lemma VfsRmdir_keeps: "keeps good (VfsRmdir E v)"
  unfolding VfsRmdir_def Let_def
  by (rule keeps_get, intro keeps_if keeps_ret keeps_option keeps_get keeps_bind keeps_trym keeps_each keeps_ignore keeps_all)
    (auto intro: good_paths in_root_append)

lemma VfsSymlink_keeps: "keeps good (VfsSymlink E tgt v)"
  unfolding VfsSymlink_def Let_def
  by (rule keeps_get, intro keeps_if keeps_ret keeps_option keeps_bind keeps_trym keeps_all) (auto intro: good_paths)

lemma VfsFsync_keeps: "keeps good (VfsFsync E f)"
  unfolding VfsFsync_def by (intro keeps_ret keeps_option keeps_all)

lemma VfsRename_keeps: "keeps good (VfsRename E v w)"
  unfolding VfsRename_def Let_def
  by (rule keeps_get, intro keeps_if keeps_ret keeps_get keeps_bind keeps_trym keeps_all in_root_target refl)
    (auto intro: good_paths split: option.split)

lemma VfsLink_keeps: "keeps good (VfsLink E v w)"
  unfolding VfsLink_def Let_def
  by (rule keeps_get, intro keeps_if keeps_ret keeps_option keeps_get keeps_bind keeps_trym keeps_all in_root_target refl)
    (auto intro: good_paths)

lemma writable_host_then:
  assumes "good S" "rr = Resolve E S v" "\<And>p. in_root R p \<Longrightarrow> keeps good (f p)"
  shows "keeps good (trym (writable_host E v rr) f)"
proof -
  have "trym (writable_host E v rr) f = trym (if r_kind rr \<noteq> WriteLayer \<and> \<not> r_rwPassthrough rr then CopyUp E v rr else ret ok)
      (\<lambda>_. do { S \<leftarrow> State_Monad.get; f (if r_rwPassthrough rr then r_hostPath rr
         else case PassthroughHost S v of Some p \<Rightarrow> p | None \<Rightarrow> WLPath S v) })"
    unfolding writable_host_def trym_def
    by (rule state_ext) (simp add: State_Monad.bind_def State_Monad.get_def State_Monad.return_def split: prod.split sum.split)
  then show ?thesis
    by (simp only:) (intro keeps_trym keeps_if keeps_ret keeps_get keeps_all assms(3) in_root_target [OF _ assms(2,1)])
qed

lemma VfsTruncate_keeps: "keeps good (VfsTruncate E v f n)"
  unfolding VfsTruncate_def Let_def
  by (rule keeps_get, intro keeps_if keeps_ret keeps_option writable_host_then keeps_all) simp_all

lemma VfsChmod_keeps: "keeps good (VfsChmod E v md)"
  unfolding VfsChmod_def Let_def
  by (rule keeps_get, intro keeps_if keeps_ret writable_host_then keeps_all) simp_all

lemma VfsUtimens_keeps: "keeps good (VfsUtimens E v a b)"
  unfolding VfsUtimens_def Let_def
  by (rule keeps_get, intro keeps_if keeps_ret keeps_all) (auto intro: good_paths)

lemmas keeps_vfs = VfsOpen_keeps VfsCreate_keeps VfsWrite_keeps VfsRelease_keeps VfsMkdir_keeps VfsUnlink_keeps
  VfsRmdir_keeps VfsSymlink_keeps VfsFsync_keeps VfsRename_keeps VfsLink_keeps VfsTruncate_keeps VfsChmod_keeps
  VfsUtimens_keeps

end

text \<open>The kernel opens with \<^verbatim>\<open>O_CREAT\<close> taken out of the flags; creation is its own request.\<close>

fun kernel_request :: "request \<Rightarrow> bool" where
  "kernel_request (OpenReq p fl) \<longleftrightarrow> and fl O_CREAT = 0"
| "kernel_request _ \<longleftrightarrow> True"

context guarded
begin

lemma serve_keeps: "kernel_request q \<Longrightarrow> keeps good (serve E q)"
  by (cases q) (auto intro!: keeps_reading keeps_status keeps_bind keeps_ret keeps_vfs)

lemma serve_all_keeps: "\<forall>q \<in> set qs. kernel_request q \<Longrightarrow> good S \<Longrightarrow> good (snd (serve_all E qs S))"
proof (induction qs arbitrary: S)
  case (Cons q qs)
  then have "good (snd (run_state (serve E q) S))" using serve_keeps by (simp add: keepsD)
  then show ?case using Cons by (auto split: prod.split) (metis snd_conv)
qed simp

end

end
