(* ===== verification/Isolation.thy ===== *)
theory Isolation
  imports VfsGuard
begin

text \<open>
  Isolation, for any host. The host is wrapped so that it records every call that can change
  something; the record shows where a whole session of requests wrote: only below the
  writelayer and the kept folders, and nowhere on a read-only mount.
\<close>

section \<open>The recording host\<close>

datatype call =
    Change string
  | Move string string
  | Linked string string
  | Dirs string
  | Descriptor fd

definition record_call :: "call \<Rightarrow> ('h \<Rightarrow> 'a \<times> 'h) \<Rightarrow> 'h \<times> call list \<Rightarrow> 'a \<times> ('h \<times> call list)" where
  "record_call c f s = (case f (fst s) of (r, h) \<Rightarrow> (r, (h, snd s @ [c])))"

definition silent :: "('h \<Rightarrow> 'a \<times> 'h) \<Rightarrow> 'h \<times> call list \<Rightarrow> 'a \<times> ('h \<times> call list)" where
  "silent f s = (case f (fst s) of (r, h) \<Rightarrow> (r, (h, snd s)))"

definition logged :: "'h host \<Rightarrow> ('h \<times> call list) host" where
  "logged H = \<lparr>
     Open = (\<lambda>p fl m. if writes fl then record_call (Change p) (Open H p fl m) else silent (Open H p fl m)),
     Close = (\<lambda>fd. silent (Close H fd)),
     Pread = (\<lambda>s. Pread H (fst s)),
     Pwrite = (\<lambda>fd b off. record_call (Descriptor fd) (Pwrite H fd b off)),
     Read = (\<lambda>fd n. silent (Read H fd n)),
     Write = (\<lambda>fd b. record_call (Descriptor fd) (Write H fd b)),
     Fsync = (\<lambda>fd. silent (Fsync H fd)),
     Ftruncate = (\<lambda>fd n. record_call (Descriptor fd) (Ftruncate H fd n)),
     Fstat = (\<lambda>s. Fstat H (fst s)),
     Fchmod = (\<lambda>fd m. record_call (Descriptor fd) (Fchmod H fd m)),
     Lstat = (\<lambda>s. Lstat H (fst s)),
     StatFollow = (\<lambda>s. StatFollow H (fst s)),
     Mkdir = (\<lambda>p m. record_call (Change p) (Mkdir H p m)),
     Unlink = (\<lambda>p. record_call (Change p) (Unlink H p)),
     Rmdir = (\<lambda>p. record_call (Change p) (Rmdir H p)),
     Rename = (\<lambda>p q. record_call (Move p q) (Rename H p q)),
     Link = (\<lambda>p q. record_call (Linked p q) (Link H p q)),
     Truncate = (\<lambda>p n. record_call (Change p) (Truncate H p n)),
     Chmod = (\<lambda>p m. record_call (Change p) (Chmod H p m)),
     Utimens = (\<lambda>p a m nf. record_call (Change p) (Utimens H p a m nf)),
     Readlink = (\<lambda>s. Readlink H (fst s)),
     Symlink = (\<lambda>t p. record_call (Change p) (Symlink H t p)),
     Statvfs = (\<lambda>s. Statvfs H (fst s)),
     ReadDir = (\<lambda>s. ReadDir H (fst s)),
     create_directories = (\<lambda>p. record_call (Dirs p) (create_directories H p)),
     weakly_canonical = (\<lambda>s. weakly_canonical H (fst s))\<rparr>"

definition logged_env :: "'h env \<Rightarrow> ('h \<times> call list) env" where
  "logged_env E = \<lparr>io = logged (io E), zs = zs E, turns = turns E\<rparr>"

lemma snd_record [simp]: "snd (snd (record_call c f s)) = snd s @ [c]" "snd (snd (silent g s)) = snd s"
  by (simp_all add: record_call_def silent_def split: prod.split)

fun confined :: "string set \<Rightarrow> call \<Rightarrow> bool" where
  "confined R (Change p) \<longleftrightarrow> in_root R p"
| "confined R (Move p q) \<longleftrightarrow> in_root R p \<and> in_root R q"
| "confined R (Linked p q) \<longleftrightarrow> in_root R p \<and> in_root R q"
| "confined R (Dirs p) \<longleftrightarrow> dir_root R p"
| "confined R (Descriptor fd) \<longleftrightarrow> True"

definition all_confined :: "string set \<Rightarrow> 'h \<times> call list \<Rightarrow> bool" where
  "all_confined R s \<longleftrightarrow> (\<forall>c \<in> set (snd s). confined R c)"

text \<open>The recording host over any host is guarded by the confinement of its record.\<close>

interpretation iso: guarded "logged_env E" R "all_confined R" for E :: "'h env" and R
  by unfold_locales (auto simp: logged_env_def logged_def all_confined_def)

section \<open>Roots of a mount\<close>

definition mount_roots :: "'h vfs \<Rightarrow> string set" where
  "mount_roots S = Set.insert (writelayer S)
     (l_source ` {L \<in> set (layers S). l_type L = Dir \<and> l_rw L})"

lemma rooted_mount: "\<forall>r \<in> mount_roots S. clean r \<Longrightarrow> rooted (mount_roots S) S"
  by (auto simp: rooted_def mount_roots_def clean_def)

section \<open>Read-only mounts\<close>

lemma run_state_bind [simp]:
  "run_state (State_Monad.bind m f) s = (case run_state m s of (x, s') \<Rightarrow> run_state (f x) s')"
  by (simp add: State_Monad.bind_def)

lemma run_state_get [simp]: "run_state State_Monad.get s = (s, s)"
  by (simp add: State_Monad.get_def)

lemma run_state_update [simp]: "run_state (State_Monad.update f) s = ((), f s)"
  by (simp add: State_Monad.update_def State_Monad.get_def State_Monad.set_def)

lemma run_state_host_do [simp]:
  "run_state (host_do f) S = (case f (host_state S) of (r, h) \<Rightarrow> (r, S\<lparr>host_state := h\<rparr>))"
  by (simp add: host_do_def)

lemma run_state_trym:
  "run_state (trym m f) S = (case run_state m S of (Inl e, S') \<Rightarrow> (Inl e, S') | (Inr x, S') \<Rightarrow> run_state (f x) S')"
  by (simp add: trym_def split: prod.split sum.split)

text \<open>What a request that asks for a change is answered with on such a mount.\<close>

fun changes :: "request \<Rightarrow> bool" where
  "changes (CreateReq _ _ _) \<longleftrightarrow> True"
| "changes (WriteReq _ _ _) \<longleftrightarrow> True"
| "changes (MkdirReq _ _) \<longleftrightarrow> True"
| "changes (UnlinkReq _) \<longleftrightarrow> True"
| "changes (RmdirReq _) \<longleftrightarrow> True"
| "changes (RenameReq _ _ fl) \<longleftrightarrow> fl = 0"
| "changes (TruncateReq _ _ _) \<longleftrightarrow> True"
| "changes (ChmodReq _ _) \<longleftrightarrow> True"
| "changes (Chown _) \<longleftrightarrow> True"
| "changes (UtimensReq _ _ _) \<longleftrightarrow> True"
| "changes (SymlinkReq _ _) \<longleftrightarrow> True"
| "changes (LinkReq _ _) \<longleftrightarrow> True"
| "changes _ \<longleftrightarrow> False"

fun refused :: "reply \<Rightarrow> bool" where
  "refused (Status r) \<longleftrightarrow> r = Inl EROFS"
| "refused (Handle r) \<longleftrightarrow> r = Inl EROFS"
| "refused (Count r) \<longleftrightarrow> r = Inl EROFS"
| "refused _ \<longleftrightarrow> False"

lemma readonly_changes:
  "readOnly S \<Longrightarrow> changes q \<Longrightarrow> refused (fst (run_state (serve E q) S)) \<and> snd (run_state (serve E q) S) = S"
  by (cases q) (auto simp: status_def reading_def VfsCreate_def VfsWrite_def VfsMkdir_def VfsUnlink_def VfsRmdir_def
      VfsRename_def VfsTruncate_def VfsChmod_def VfsUtimens_def VfsSymlink_def VfsLink_def Let_def)

definition same_but_host :: "'h vfs \<Rightarrow> 'h vfs \<Rightarrow> bool" where
  "same_but_host S S' \<longleftrightarrow> (\<exists>h. S' = S\<lparr>host_state := h\<rparr>)"

definition quiet :: "('h \<times> call list) vfs \<Rightarrow> ('h \<times> call list) vfs \<Rightarrow> bool" where
  "quiet S S' \<longleftrightarrow> same_but_host S S' \<and> snd (host_state S') = snd (host_state S)"

lemma quiet_refl [simp]: "quiet S S"
  unfolding quiet_def same_but_host_def by (intro conjI exI [of _ "host_state S"]) simp_all

lemma quiet_host [simp]: "snd h = snd (host_state S) \<Longrightarrow> quiet S (S\<lparr>host_state := h\<rparr>)"
  unfolding quiet_def same_but_host_def by (intro conjI exI [of _ h]) simp_all

lemma quietE: "quiet S S' \<Longrightarrow> (\<And>h. S' = S\<lparr>host_state := h\<rparr> \<Longrightarrow> snd h = snd (host_state S) \<Longrightarrow> thesis) \<Longrightarrow> thesis"
  by (auto simp: quiet_def same_but_host_def simp del: split_paired_Ex)

lemma quiet_open_ret:
  "\<not> writes fl \<Longrightarrow> quiet S (snd (run_state (trym (host_do (Open (io (logged_env E)) p fl m)) (\<lambda>fd. ret (g fd))) S))"
  by (auto simp: run_state_trym logged_env_def logged_def silent_def
      split: prod.split sum.split)

lemma VfsOpen_quiet:
  assumes "readOnly S" "and fl O_CREAT = 0"
  shows "quiet S (snd (run_state (VfsOpen (logged_env E) v fl) S))"
proof -
  define wr where "wr = (and fl (or O_WRONLY O_RDWR) \<noteq> 0 \<or> and fl O_TRUNC \<noteq> 0)"
  show ?thesis
  proof (cases wr)
    case True
    then show ?thesis using assms(1) by (auto simp: VfsOpen_def Let_def wr_def)
  next
    case False
    then have n: "and fl (or O_WRONLY O_RDWR) = 0" "and fl O_TRUNC = 0" by (auto simp: wr_def)
    have fl: "\<not> writes fl" using n assms(2) by (simp add: open_mode)
    show ?thesis
      by (auto simp: VfsOpen_def Let_def n quiet_open_ret [OF fl]
          split: HitKind.split option.split sum.split)
  qed
qed

lemma serve_quiet:
  assumes "readOnly S" "kernel_request q"
  shows "quiet S (snd (run_state (serve (logged_env E) q) S))"
proof (cases "changes q")
  case True
  then show ?thesis using readonly_changes [OF assms(1)] by simp
next
  case False
  show ?thesis
  proof (cases q)
    case (OpenReq p fl)
    then show ?thesis using VfsOpen_quiet [of S fl E "NormalizeVPath p"] assms by (simp split: prod.split) (metis snd_conv)
  next
    case (Release f)
    then show ?thesis
      by (auto simp: VfsRelease_def ignore_def logged_env_def logged_def silent_def
          split: option.split prod.split)
  next
    case (FsyncReq f)
    then show ?thesis
      by (auto simp: VfsFsync_def status_def logged_env_def logged_def silent_def
          split: option.split prod.split)
  qed (use False in \<open>auto simp: reading_def\<close>)
qed

lemma serve_all_quiet:
  "readOnly S \<Longrightarrow> \<forall>q \<in> set qs. kernel_request q \<Longrightarrow> quiet S (snd (serve_all (logged_env E) qs S))"
proof (induction qs arbitrary: S)
  case (Cons q qs)
  define S' where "S' = snd (run_state (serve (logged_env E) q) S)"
  have q: "quiet S S'" unfolding S'_def by (rule serve_quiet) (use Cons.prems in simp_all)
  then have "readOnly S'" using Cons.prems(1) by (elim quietE) simp
  then have "quiet S' (snd (serve_all (logged_env E) qs S'))" using Cons by simp
  then have "quiet S (snd (serve_all (logged_env E) qs S'))"
    using q by (elim quietE) simp
  moreover have "snd (serve_all (logged_env E) (q # qs) S) = snd (serve_all (logged_env E) qs S')"
    by (simp add: S'_def split: prod.split)
  ultimately show ?case by simp
qed simp

end
