(* ===== verification/Frame.thy ===== *)
theory Frame
  imports Isolation
begin

text \<open>
  What the operations leave alone. Two interfaces state which updates of the filesystem state a
  predicate must survive: \<open>host_frame\<close> only the change of the host, which is all copy-up does,
  and \<open>mask_frame\<close> also the changes of the deletion masks, which is all any operation does. The
  rules of every operation are proved once inside them; the instances are ``same state but for
  the host'', ``same layers but for their masks'' and the well-formedness of a mounted state.
\<close>

section \<open>Only the host changes\<close>

locale host_frame =
  fixes P :: "'h vfs \<Rightarrow> bool"
  assumes host_change: "P S \<Longrightarrow> P (S\<lparr>host_state := h\<rparr>)"
begin

lemma host_keeps: "keeps P (host_do f)"
  by (auto simp: keeps_def host_do_def split: prod.split intro: host_change)

lemma touch_keeps: "keeps P (touch E p)"
  unfolding touch_def by (intro keeps_bind keeps_sum keeps_ret keeps_ignore host_keeps)

lemma EnsureWriteParent_keeps: "keeps P (EnsureWriteParent E v)"
  unfolding EnsureWriteParent_def by (intro keeps_get keeps_bind keeps_ret host_keeps)

lemma EnsureHostParent_keeps: "keeps P (EnsureHostParent E p)"
  unfolding EnsureHostParent_def by (intro keeps_option keeps_ret keeps_bind host_keeps)

lemma TouchMarker_keeps: "keeps P (TouchMarker E p)"
  unfolding TouchMarker_def by (intro keeps_trym keeps_bind keeps_ret host_keeps)

lemma copy_zip_loop_keeps: "keeps P (copy_zip_loop k E zr out off)"
  by (induction k arbitrary: off) (auto intro!: keeps_ret keeps_sum keeps_trym host_keeps)

lemma copy_host_loop_keeps: "keeps P (copy_host_loop k E inp out)"
  by (induction k) (auto intro!: keeps_ret keeps_bind keeps_sum keeps_trym host_keeps)

lemma copy_file_keeps: "keeps P (copy_file E rr dst)"
  unfolding copy_file_def
  by (auto intro!: keeps_trym keeps_bind keeps_ret host_keeps copy_zip_loop_keeps copy_host_loop_keeps
      keeps_get keeps_ignore split: HitKind.split option.split sum.split)

lemma CopyUp_keeps: "keeps P (CopyUp E v rr)"
  unfolding CopyUp_def Let_def
  by (auto intro!: keeps_get keeps_if keeps_ret keeps_sum keeps_trym keeps_bind keeps_option host_keeps copy_file_keeps
      EnsureWriteParent_keeps split: HitKind.split option.split)

lemma DeepCopyUp_keeps: "keeps P (DeepCopyUp k E v)"
  by (induction k arbitrary: v) (auto simp: Let_def intro!: keeps_ret keeps_get keeps_trym CopyUp_keeps keeps_each_res)

lemma writable_host_keeps: "keeps P (writable_host E v rr)"
  unfolding writable_host_def by (intro keeps_trym keeps_if keeps_ret keeps_get CopyUp_keeps)

lemmas host_rules = host_keeps touch_keeps EnsureWriteParent_keeps EnsureHostParent_keeps TouchMarker_keeps
  CopyUp_keeps DeepCopyUp_keeps writable_host_keeps

lemma VfsOpen_keeps: "keeps P (VfsOpen E v fl)"
  unfolding VfsOpen_def Let_def
  by (intro keeps_get keeps_if keeps_ret keeps_trym keeps_prod keeps_kind keeps_option keeps_sum host_rules)

lemma VfsWrite_keeps: "keeps P (VfsWrite E f b off)"
  unfolding VfsWrite_def by (intro keeps_get keeps_if keeps_ret keeps_option host_rules)

lemma VfsRelease_keeps: "keeps P (VfsRelease E f)"
  unfolding VfsRelease_def by (intro keeps_ret keeps_option keeps_ignore host_rules)

lemma VfsTruncate_keeps: "keeps P (VfsTruncate E v f n)"
  unfolding VfsTruncate_def Let_def by (intro keeps_get keeps_if keeps_ret keeps_option keeps_trym host_rules)

lemma VfsChmod_keeps: "keeps P (VfsChmod E v md)"
  unfolding VfsChmod_def Let_def by (intro keeps_get keeps_if keeps_ret keeps_trym host_rules)

lemma VfsUtimens_keeps: "keeps P (VfsUtimens E v a b)"
  unfolding VfsUtimens_def Let_def by (intro keeps_get keeps_if keeps_ret host_rules)

lemma VfsFsync_keeps: "keeps P (VfsFsync E f)"
  unfolding VfsFsync_def by (intro keeps_ret keeps_option host_rules)

end

section \<open>Only the host and the masks change\<close>

locale mask_frame = host_frame P for P :: "'h vfs \<Rightarrow> bool" +
  assumes whiteout_change: "P S \<Longrightarrow> P (S\<lparr>whiteoutSet := w\<rparr>)"
    and opaque_change: "P S \<Longrightarrow> P (S\<lparr>opaqueSet := w\<rparr>)"
    and kept_change: "P S \<Longrightarrow> P (S\<lparr>layers := (layers S)[i := (layers S ! i)\<lparr>kept := map_option f (kept (layers S ! i))\<rparr>]\<rparr>)"
begin

lemma masks_keep: "keeps P (MutateWhiteouts g)" "keeps P (MutateOpaques g)" "keeps P (MutateKept i k)"
  unfolding MutateWhiteouts_def MutateOpaques_def MutateKept_def
  by (auto intro!: keeps_update whiteout_change opaque_change kept_change)

lemma CreateWhiteout_keeps: "keeps P (CreateWhiteout E v)"
  unfolding CreateWhiteout_def by (intro keeps_get keeps_if keeps_ret keeps_bind host_rules masks_keep)

lemma RemoveWhiteout_keeps: "keeps P (RemoveWhiteout E v)"
  unfolding RemoveWhiteout_def by (intro keeps_get keeps_if keeps_ret keeps_bind host_rules masks_keep)

lemma MarkOpaque_keeps: "keeps P (MarkOpaque E v)"
  unfolding MarkOpaque_def by (intro keeps_get keeps_if keeps_ret keeps_bind host_rules masks_keep)

lemma UnmarkOpaque_keeps: "keeps P (UnmarkOpaque v)"
  unfolding UnmarkOpaque_def by (intro keeps_get keeps_if keeps_ret masks_keep)

lemma RenameMaskPrefix_keeps: "keeps P (RenameMaskPrefix v w)"
  unfolding RenameMaskPrefix_def by (intro keeps_get keeps_if keeps_ret keeps_bind masks_keep)

lemma KeptRenamePrefix_keeps: "keeps P (KeptRenamePrefix v w)"
  unfolding KeptRenamePrefix_def Let_def by (intro keeps_get keeps_option keeps_if keeps_ret keeps_bind masks_keep)

lemma HideLower_keeps: "keeps P (HideLower E v)"
  unfolding HideLower_def Let_def
  by (intro keeps_get keeps_option keeps_if keeps_bind keeps_ret keeps_trym host_rules masks_keep CreateWhiteout_keeps)

lemma UnhideLower_keeps: "keeps P (UnhideLower E v)"
  unfolding UnhideLower_def Let_def
  by (intro keeps_get keeps_option keeps_if keeps_bind keeps_ret host_rules masks_keep RemoveWhiteout_keeps)

lemma KeptMarkOpaque_keeps: "keeps P (KeptMarkOpaque E v)"
  unfolding KeptMarkOpaque_def Let_def
  by (intro keeps_get keeps_option keeps_bind keeps_ret keeps_trym host_rules masks_keep)

lemma KeptDropMarkersUnder_keeps: "keeps P (KeptDropMarkersUnder E v)"
  unfolding KeptDropMarkersUnder_def Let_def
  by (intro keeps_get keeps_option keeps_bind keeps_ret keeps_each keeps_if keeps_ignore host_rules masks_keep)

lemmas mask_rules = host_rules masks_keep CreateWhiteout_keeps RemoveWhiteout_keeps MarkOpaque_keeps UnmarkOpaque_keeps
  RenameMaskPrefix_keeps KeptRenamePrefix_keeps HideLower_keeps UnhideLower_keeps KeptMarkOpaque_keeps
  KeptDropMarkersUnder_keeps

lemmas op_rules = keeps_if keeps_ret keeps_option keeps_get keeps_bind keeps_trym keeps_each keeps_ignore mask_rules

lemma VfsCreate_keeps: "keeps P (VfsCreate E v md fl)"
  unfolding VfsCreate_def Let_def by (intro op_rules)

lemma VfsMkdir_keeps: "keeps P (VfsMkdir E v md)"
  unfolding VfsMkdir_def Let_def by (intro op_rules)

lemma VfsUnlink_keeps: "keeps P (VfsUnlink E v)"
  unfolding VfsUnlink_def Let_def by (intro op_rules)

lemma VfsRmdir_keeps: "keeps P (VfsRmdir E v)"
  unfolding VfsRmdir_def Let_def by (intro op_rules)

lemma VfsSymlink_keeps: "keeps P (VfsSymlink E tgt v)"
  unfolding VfsSymlink_def Let_def by (intro op_rules)

lemma VfsRename_keeps: "keeps P (VfsRename E v w)"
  unfolding VfsRename_def Let_def by (intro op_rules)

lemma VfsLink_keeps: "keeps P (VfsLink E v w)"
  unfolding VfsLink_def Let_def by (intro op_rules)

lemmas vfs_rules = VfsOpen_keeps VfsCreate_keeps VfsWrite_keeps VfsRelease_keeps VfsMkdir_keeps VfsUnlink_keeps
  VfsRmdir_keeps VfsSymlink_keeps VfsFsync_keeps VfsRename_keeps VfsLink_keeps VfsTruncate_keeps VfsChmod_keeps
  VfsUtimens_keeps

lemma serve_keeps: "keeps P (serve E q)"
  by (cases q) (auto intro!: keeps_reading keeps_status keeps_bind keeps_ret vfs_rules)

lemma serve_all_keeps: "P S \<Longrightarrow> P (snd (serve_all E qs S))"
proof (induction qs arbitrary: S)
  case (Cons q qs)
  then have "P (snd (run_state (serve E q) S))" using serve_keeps by (simp add: keepsD)
  then show ?case using Cons.IH by (auto split: prod.split) (metis snd_conv)
qed simp

end

section \<open>Instances\<close>

interpretation host_only: host_frame "same_but_host S0" for S0 :: "'h vfs"
  by unfold_locales (auto simp: same_but_host_def simp del: split_paired_Ex)

text \<open>The layers without their masks: what decides coverage, and which layer a path is kept in.\<close>

definition skeleton :: "layer list \<Rightarrow> layer list" where
  "skeleton Ls = map (\<lambda>L. L\<lparr>kept := None\<rparr>) Ls"

definition same_shape :: "'h vfs \<Rightarrow> 'h vfs \<Rightarrow> bool" where
  "same_shape S S' \<longleftrightarrow> writelayer S' = writelayer S \<and> readOnly S' = readOnly S \<and>
     flattenSymlinks S' = flattenSymlinks S \<and> implicitDirs S' = implicitDirs S \<and>
     canonCase S' = canonCase S \<and> caseInsensitive S' = caseInsensitive S \<and>
     skeleton (layers S') = skeleton (layers S)"

lemma skeleton_kept: "skeleton (Ls[i := (Ls ! i)\<lparr>kept := k\<rparr>]) = skeleton Ls"
proof (cases "i < length Ls")
  case True
  then have "(Ls ! i)\<lparr>kept := None\<rparr> = map (\<lambda>L. L\<lparr>kept := None\<rparr>) Ls ! i" by simp
  then show ?thesis unfolding skeleton_def map_update
    by simp
qed (simp add: skeleton_def list_update_beyond)

interpretation shape: mask_frame "same_shape S0" for S0 :: "'h vfs"
  by unfold_locales (simp_all add: same_shape_def skeleton_kept)

lemma shape_refl [simp]: "same_shape S S"
  by (simp add: same_shape_def)

lemma skeleton_nth:
  assumes "skeleton Ls = skeleton Ms" "i < length Ls"
  shows "(Ls ! i)\<lparr>kept := None\<rparr> = (Ms ! i)\<lparr>kept := None\<rparr>" "length Ls = length Ms"
proof -
  show n: "length Ls = length Ms" using assms(1) by (metis skeleton_def length_map)
  have "skeleton Ls ! i = skeleton Ms ! i" using assms(1) by simp
  then show "(Ls ! i)\<lparr>kept := None\<rparr> = (Ms ! i)\<lparr>kept := None\<rparr>" using assms(2) n by (simp add: skeleton_def)
qed

lemma kept_for_skeleton: "kept_for v (L\<lparr>kept := k\<rparr>) = kept_for v L"
  by (simp add: kept_for_def LayerCovers_def)

lemma kept_for_shape:
  assumes "same_shape S S'" "i < length (layers S)"
  shows "kept_for v (layers S' ! i) = kept_for v (layers S ! i)" "length (layers S') = length (layers S)"
proof -
  have k: "skeleton (layers S) = skeleton (layers S')" using assms(1) by (simp add: same_shape_def)
  show "length (layers S') = length (layers S)" using skeleton_nth(2) [OF k assms(2)] by simp
  show "kept_for v (layers S' ! i) = kept_for v (layers S ! i)"
    using skeleton_nth(1) [OF k assms(2)] by (metis kept_for_skeleton)
qed

lemma KeptLayerFor_shape: "same_shape S S' \<Longrightarrow> KeptLayerFor S' v = KeptLayerFor S v"
  using kept_for_shape(1) [of S S'] kept_for_shape(2) [of S S' 0]
  by (cases "layers S = []") (auto simp: KeptLayerFor_def same_shape_def skeleton_def intro!: find_cong)

text \<open>A path is passed through to a kept folder exactly when there is a kept layer for it.\<close>

lemma find_rev_index:
  "List.find Q (rev xs) = map_option (\<lambda>i. xs ! i) (List.find (\<lambda>i. Q (xs ! i)) (rev [0..<length xs]))"
proof (induction xs rule: rev_induct)
  case (snoc x xs)
  have "List.find (\<lambda>i. Q ((xs @ [x]) ! i)) (rev [0..<length xs]) = List.find (\<lambda>i. Q (xs ! i)) (rev [0..<length xs])"
    by (intro find_cong refl) (simp add: nth_append)
  moreover have "map_option (\<lambda>i. (xs @ [x]) ! i) (List.find (\<lambda>i. Q (xs ! i)) (rev [0..<length xs])) =
      map_option (\<lambda>i. xs ! i) (List.find (\<lambda>i. Q (xs ! i)) (rev [0..<length xs]))"
    by (cases "List.find (\<lambda>i. Q (xs ! i)) (rev [0..<length xs])") (auto dest!: find_SomeD simp: nth_append)
  ultimately show ?case using snoc by simp
qed simp

lemma PassthroughHost_KeptLayerFor:
  "PassthroughHost S v = map_option (\<lambda>i. source_path (layers S ! i) (SourceRel (layers S ! i) v)) (KeptLayerFor S v)"
  unfolding PassthroughHost_def KeptLayerFor_def
  by (cases "List.find (\<lambda>i. kept_for v (layers S ! i)) (rev [0..<length (layers S)])")
    (simp_all only: find_rev_index [of "kept_for v" "layers S"] option.map option.case)

section \<open>Postconditions\<close>

text \<open>From a state with \<open>P\<close>, a run that returns 0 ends in a state with \<open>Q\<close>.\<close>

definition ensures :: "('s \<Rightarrow> bool) \<Rightarrow> ('s, unit res) state \<Rightarrow> ('s \<Rightarrow> bool) \<Rightarrow> bool" where
  "ensures P m Q \<longleftrightarrow> (\<forall>S. P S \<longrightarrow> fst (run_state m S) = ok \<longrightarrow> Q (snd (run_state m S)))"

lemma ensuresD: "ensures P m Q \<Longrightarrow> P S \<Longrightarrow> run_state m S = (ok, S') \<Longrightarrow> Q S'"
  by (metis ensures_def fst_conv snd_conv)

lemma ensures_err: "ensures P (State_Monad.return (Inl e)) Q"
  by (simp add: ensures_def)

lemma ensures_bind: "keeps P m \<Longrightarrow> (\<And>x. ensures P (f x) Q) \<Longrightarrow> ensures P (State_Monad.bind m f) Q"
  by (auto simp: ensures_def keeps_def split: prod.split)

lemma ensures_trym: "keeps P m \<Longrightarrow> (\<And>x. ensures P (f x) Q) \<Longrightarrow> ensures P (trym m f) Q"
  unfolding trym_def by (intro ensures_bind) (auto split: sum.split intro: ensures_err)

lemma ensures_get: "(\<And>S. P S \<Longrightarrow> ensures P (f S) Q) \<Longrightarrow> ensures P (State_Monad.bind State_Monad.get f) Q"
  by (auto simp: ensures_def)

lemma ensures_if: "(b \<Longrightarrow> ensures P m Q) \<Longrightarrow> (\<not> b \<Longrightarrow> ensures P m' Q) \<Longrightarrow> ensures P (if b then m else m') Q"
  by simp

lemma ensures_option:
  "(x = None \<Longrightarrow> ensures P m Q) \<Longrightarrow> (\<And>y. x = Some y \<Longrightarrow> ensures P (f y) Q) \<Longrightarrow>
   ensures P (case x of None \<Rightarrow> m | Some y \<Rightarrow> f y) Q"
  by (cases x) simp_all

lemmas ensures_rules = ensures_err ensures_get ensures_if ensures_bind ensures_trym ensures_option

text \<open>From a state with \<open>P\<close>, a run that returns an error ends in a state with \<open>P\<close>.\<close>

definition fails_in :: "('s \<Rightarrow> bool) \<Rightarrow> ('s, unit res) state \<Rightarrow> bool" where
  "fails_in P m \<longleftrightarrow> (\<forall>S. P S \<longrightarrow> fst (run_state m S) \<noteq> ok \<longrightarrow> P (snd (run_state m S)))"

lemma fails_keeps: "keeps P m \<Longrightarrow> fails_in P m"
  by (simp add: fails_in_def keeps_def)

lemma fails_never: "fails_in P (do { _ \<leftarrow> m; State_Monad.return ok })"
  by (simp add: fails_in_def case_prod_beta)

lemma fails_get: "(\<And>S. P S \<Longrightarrow> fails_in P (f S)) \<Longrightarrow> fails_in P (State_Monad.bind State_Monad.get f)"
  by (auto simp: fails_in_def)

lemma fails_if: "(b \<Longrightarrow> fails_in P m) \<Longrightarrow> (\<not> b \<Longrightarrow> fails_in P m') \<Longrightarrow> fails_in P (if b then m else m')"
  by simp

lemma fails_bind: "keeps P m \<Longrightarrow> (\<And>x. fails_in P (f x)) \<Longrightarrow> fails_in P (State_Monad.bind m f)"
  by (auto simp: fails_in_def keeps_def case_prod_beta)

lemma fails_trym: "keeps P m \<Longrightarrow> (\<And>x. fails_in P (f x)) \<Longrightarrow> fails_in P (trym m f)"
  unfolding trym_def by (rule fails_bind) (auto split: sum.split intro: fails_keeps keeps_ret)

lemma fails_option:
  "(x = None \<Longrightarrow> fails_in P m) \<Longrightarrow> (\<And>y. x = Some y \<Longrightarrow> fails_in P (f y)) \<Longrightarrow>
   fails_in P (case x of None \<Rightarrow> m | Some y \<Rightarrow> f y)"
  by (cases x) simp_all

lemmas fails_rules = fails_get fails_if fails_option fails_never fails_trym fails_bind

end
