(* ===== verification/MemHost.thy ===== *)
theory MemHost
  imports Isolation
begin

text \<open>
  A small host in memory: nodes by absolute path and a descriptor table. It is an executable
  instance of the host interface for the concrete runs of the properties, nothing in the
  filesystem's model depends on it. Paths are taken as they are; a link is followed once.
\<close>

datatype node = DirNode mode | FileNode mode bytes | LinkNode string

record mem =
  nodes :: "(string \<times> node) list"
  fds :: "(string \<times> nat) list"

definition node_at :: "mem \<Rightarrow> string \<Rightarrow> node option" where
  "node_at h p = map_of (nodes h) p"

definition put_node :: "string \<Rightarrow> node \<Rightarrow> mem \<Rightarrow> mem" where
  "put_node p n h = h\<lparr>nodes := (p, n) # filter (\<lambda>e. fst e \<noteq> p) (nodes h)\<rparr>"

definition drop_node :: "string \<Rightarrow> mem \<Rightarrow> mem" where
  "drop_node p h = h\<lparr>nodes := filter (\<lambda>e. fst e \<noteq> p) (nodes h)\<rparr>"

definition up :: "string \<Rightarrow> string" where
  "up p = (case find_last_of (CHR ''/'') p of None \<Rightarrow> [] | Some i \<Rightarrow> if i = 0 then ''/'' else take i p)"

definition is_dir :: "mem \<Rightarrow> string \<Rightarrow> bool" where
  "is_dir h p \<longleftrightarrow> p = ''/'' \<or> (case node_at h p of Some (DirNode _) \<Rightarrow> True | _ \<Rightarrow> False)"

definition mem_stat :: "node \<Rightarrow> hstat" where
  "mem_stat n = FromStat (case n of
     DirNode m \<Rightarrow> \<lparr>px_mode = or S_IFDIR m, px_size = 0, px_mtime = 0, px_nlink = 2\<rparr>
   | FileNode m b \<Rightarrow> \<lparr>px_mode = or S_IFREG m, px_size = length b, px_mtime = 0, px_nlink = 1\<rparr>
   | LinkNode t \<Rightarrow> \<lparr>px_mode = or S_IFLNK 0x1FF, px_size = length t, px_mtime = 0, px_nlink = 1\<rparr>)"

definition mem_lstat :: "mem \<Rightarrow> string \<Rightarrow> hstat res" where
  "mem_lstat h p = (case node_at h p of Some n \<Rightarrow> Inr (mem_stat n)
     | None \<Rightarrow> if p = ''/'' then Inr (mem_stat (DirNode 0x1ED)) else Inl ENOENT)"

definition mem_follow :: "mem \<Rightarrow> string \<Rightarrow> hstat res" where
  "mem_follow h p = (case node_at h p of Some (LinkNode t) \<Rightarrow> mem_lstat h t | _ \<Rightarrow> mem_lstat h p)"

definition mem_open :: "string \<Rightarrow> flags \<Rightarrow> mode \<Rightarrow> mem \<Rightarrow> fd res \<times> mem" where
  "mem_open p fl m h =
     (let give = (\<lambda>h. (Inr (length (fds h)), h\<lparr>fds := fds h @ [(p, 0)]\<rparr>)) in
      case node_at h p of
        Some (DirNode _) \<Rightarrow> if writes fl then (Inl EISDIR, h) else give h
      | Some (LinkNode _) \<Rightarrow> (Inl ELOOP, h)
      | Some (FileNode m' b) \<Rightarrow> give (if and fl O_TRUNC \<noteq> 0 then put_node p (FileNode m' []) h else h)
      | None \<Rightarrow> if and fl O_CREAT \<noteq> 0 \<and> is_dir h (up p) then give (put_node p (FileNode m []) h)
                else (Inl ENOENT, h))"

definition content_of :: "mem \<Rightarrow> fd \<Rightarrow> bytes" where
  "content_of h fd = (case node_at h (fst (fds h ! fd)) of Some (FileNode _ b) \<Rightarrow> b | _ \<Rightarrow> [])"

definition splice :: "bytes \<Rightarrow> nat \<Rightarrow> bytes \<Rightarrow> bytes" where
  "splice c off b = take off c @ replicate (off - length c) 0 @ b @ drop (off + length b) c"

definition set_content :: "fd \<Rightarrow> bytes \<Rightarrow> mem \<Rightarrow> mem" where
  "set_content fd b h = (case node_at h (fst (fds h ! fd)) of
     Some (FileNode m _) \<Rightarrow> put_node (fst (fds h ! fd)) (FileNode m b) h | _ \<Rightarrow> h)"

definition mem_write :: "fd \<Rightarrow> bytes \<Rightarrow> mem \<Rightarrow> nat res \<times> mem" where
  "mem_write fd b h = (if fd < length (fds h)
     then (Inr (length b), (set_content fd (splice (content_of h fd) (snd (fds h ! fd)) b) h)
       \<lparr>fds := (fds h)[fd := (fst (fds h ! fd), snd (fds h ! fd) + length b)]\<rparr>)
     else (Inl EBADF, h))"

definition mem_read :: "fd \<Rightarrow> nat \<Rightarrow> mem \<Rightarrow> bytes res \<times> mem" where
  "mem_read fd n h = (if fd < length (fds h)
     then let b = clip (content_of h fd) n (snd (fds h ! fd)) in
       (Inr b, h\<lparr>fds := (fds h)[fd := (fst (fds h ! fd), snd (fds h ! fd) + length b)]\<rparr>)
     else (Inl EBADF, h))"

definition mem_make :: "string \<Rightarrow> node \<Rightarrow> mem \<Rightarrow> unit res \<times> mem" where
  "mem_make p n h = (if node_at h p \<noteq> None then (Inl EEXIST, h)
     else if \<not> is_dir h (up p) then (Inl ENOENT, h) else (Inr (), put_node p n h))"

definition has_children :: "mem \<Rightarrow> string \<Rightarrow> bool" where
  "has_children h p = list_ex (\<lambda>e. prefix (p @ ''/'') (fst e)) (nodes h)"

definition mem_unlink :: "string \<Rightarrow> mem \<Rightarrow> unit res \<times> mem" where
  "mem_unlink p h = (case node_at h p of None \<Rightarrow> (Inl ENOENT, h)
     | Some (DirNode _) \<Rightarrow> (Inl EISDIR, h) | Some _ \<Rightarrow> (Inr (), drop_node p h))"

definition mem_rmdir :: "string \<Rightarrow> mem \<Rightarrow> unit res \<times> mem" where
  "mem_rmdir p h = (case node_at h p of
       Some (DirNode _) \<Rightarrow> if has_children h p then (Inl ENOTEMPTY, h) else (Inr (), drop_node p h)
     | None \<Rightarrow> (Inl ENOENT, h) | Some _ \<Rightarrow> (Inl ENOTDIR, h))"

definition mem_rename :: "string \<Rightarrow> string \<Rightarrow> mem \<Rightarrow> unit res \<times> mem" where
  "mem_rename p q h = (if node_at h p = None then (Inl ENOENT, h)
     else if p = q then (Inr (), h)
     else (Inr (), h\<lparr>nodes := map (\<lambda>(x, n). if x = p then (q, n)
          else if prefix (p @ ''/'') x then (q @ drop (length p) x, n) else (x, n))
        (filter (\<lambda>(x, n). x \<noteq> q) (nodes h))\<rparr>))"

definition mem_chmod :: "string \<Rightarrow> mode \<Rightarrow> mem \<Rightarrow> unit res \<times> mem" where
  "mem_chmod p m h = (case node_at h p of
       Some (DirNode _) \<Rightarrow> (Inr (), put_node p (DirNode m) h)
     | Some (FileNode _ b) \<Rightarrow> (Inr (), put_node p (FileNode m b) h)
     | _ \<Rightarrow> (Inl ENOENT, h))"

definition mem_truncate :: "string \<Rightarrow> nat \<Rightarrow> mem \<Rightarrow> unit res \<times> mem" where
  "mem_truncate p n h = (case node_at h p of
       Some (FileNode m b) \<Rightarrow> (Inr (), put_node p (FileNode m (take n b @ replicate (n - length b) 0)) h)
     | _ \<Rightarrow> (Inl ENOENT, h))"

definition mem_names :: "mem \<Rightarrow> string \<Rightarrow> string list" where
  "mem_names h p = map (\<lambda>e. drop (length p + 1) (fst e))
     (filter (\<lambda>e. prefix (p @ ''/'') (fst e) \<and> CHR ''/'' \<notin> set (drop (length p + 1) (fst e))) (nodes h))"

text \<open>The directories of a path, outermost first.\<close>

fun dir_chain :: "string \<Rightarrow> string \<Rightarrow> string list" where
  "dir_chain acc [] = (if acc = [] then [] else [acc])"
| "dir_chain acc (c # cs) = (if c = CHR ''/'' \<and> acc \<noteq> [] then acc # dir_chain (acc @ [c]) cs else dir_chain (acc @ [c]) cs)"

definition mem_dirs :: "string \<Rightarrow> mem \<Rightarrow> unit res \<times> mem" where
  "mem_dirs p h =
     (let h' = fold (\<lambda>d h. if node_at h d = None \<and> d \<noteq> ''/'' then put_node d (DirNode 0x1ED) h else h) (dir_chain [] p) h
      in if list_all (is_dir h') (dir_chain [] p) then (Inr (), h') else (Inl ENOTDIR, h))"

definition mem_host :: "mem host" where
  "mem_host = \<lparr>
     Open = mem_open,
     Close = (\<lambda>fd h. (Inr (), h)),
     Pread = (\<lambda>h fd n off. if fd < length (fds h) then Inr (clip (content_of h fd) n off) else Inl EBADF),
     Pwrite = (\<lambda>fd b off h. if fd < length (fds h)
       then (Inr (length b), set_content fd (splice (content_of h fd) off b) h) else (Inl EBADF, h)),
     Read = mem_read,
     Write = mem_write,
     Fsync = (\<lambda>fd h. (Inr (), h)),
     Ftruncate = (\<lambda>fd n h. if fd < length (fds h) then mem_truncate (fst (fds h ! fd)) n h else (Inl EBADF, h)),
     Fstat = (\<lambda>h fd. if fd < length (fds h) then mem_lstat h (fst (fds h ! fd)) else Inl EBADF),
     Fchmod = (\<lambda>fd m h. if fd < length (fds h) then mem_chmod (fst (fds h ! fd)) m h else (Inl EBADF, h)),
     Lstat = mem_lstat,
     StatFollow = mem_follow,
     Mkdir = (\<lambda>p m h. mem_make p (DirNode m) h),
     Unlink = mem_unlink,
     Rmdir = mem_rmdir,
     Rename = mem_rename,
     Link = (\<lambda>p q h. (case node_at h p of Some n \<Rightarrow> mem_make q n h | None \<Rightarrow> (Inl ENOENT, h))),
     Truncate = mem_truncate,
     Chmod = mem_chmod,
     Utimens = (\<lambda>p a m nf h. (Inr (), h)),
     Readlink = (\<lambda>h p. (case node_at h p of Some (LinkNode t) \<Rightarrow> Inr t | _ \<Rightarrow> Inl EINVAL)),
     Symlink = (\<lambda>t p h. mem_make p (LinkNode t) h),
     Statvfs = (\<lambda>h p. Inr \<lparr>sv_bsize = 4096, sv_blocks = 0, sv_bfree = 0, sv_bavail = 0, sv_files = 0,
       sv_ffree = 0, sv_namemax = 255\<rparr>),
     ReadDir = mem_names,
     create_directories = mem_dirs,
     weakly_canonical = (\<lambda>h p. Inr (segments [] p))\<rparr>"

definition mem_env :: "mem env" where
  "mem_env = \<lparr>io = mem_host, zs = \<lparr>zstd_compress = (\<lambda>p l. Some p), zstd_decompress = (\<lambda>c n. Some c)\<rparr>, turns = 8\<rparr>"

section \<open>A mount over it\<close>

text \<open>A lower folder \<^verbatim>\<open>/low\<close>, the writelayer \<^verbatim>\<open>/wl\<close> and a kept folder \<^verbatim>\<open>/keep\<close> at \<^verbatim>\<open>save\<close>.\<close>

definition plain_layer :: "string \<Rightarrow> string \<Rightarrow> bool \<Rightarrow> int \<Rightarrow> layer" where
  "plain_layer src tgt rw prio = \<lparr>l_type = Dir, l_source = src, l_target = tgt, l_subpath = [], l_rw = rw,
     maskedUnder = [], priority = prio, l_zip = None, fileVPath = [], fileBase = [],
     kept = (if rw then Some \<lparr>deleted = {}, opaque = {}\<rparr> else None)\<rparr>"

definition demo_nodes :: "(string \<times> node) list" where
  "demo_nodes = [(''/low'', DirNode 0x1ED), (''/low/d'', DirNode 0x1ED), (''/low/d/old'', FileNode 0x1A4 [1, 2]),
     (''/wl'', DirNode 0x1ED), (''/keep'', DirNode 0x1ED), (''/low/save'', DirNode 0x1ED),
     (''/low/save/s'', FileNode 0x1A4 [7])]"

definition demo :: "bool \<Rightarrow> 'h \<Rightarrow> 'h vfs" where
  "demo ro h = \<lparr>writelayer = ''/wl'', readOnly = ro, flattenSymlinks = True, v_uid = 1000, v_gid = 1000,
     layers = [plain_layer ''/low'' [] False 0, plain_layer ''/keep'' ''save'' True 1], implicitDirs = {},
     caseInsensitive = False, canonCase = [], whiteoutSet = {}, opaqueSet = {}, host_state = h\<rparr>"

definition demo_mem :: mem where
  "demo_mem = \<lparr>nodes = demo_nodes, fds = []\<rparr>"

text \<open>Evaluation: the fields of the host and of the mount, so that runs compute by rewriting.\<close>

lemma mem_env_fields [simp]: "io mem_env = mem_host" "turns mem_env = 8"
  by (simp_all add: mem_env_def)

lemma mem_host_fields [simp]:
  "Open mem_host = mem_open" "Close mem_host fd h = (Inr (), h)" "Read mem_host = mem_read" "Write mem_host = mem_write"
  "Lstat mem_host = mem_lstat" "StatFollow mem_host = mem_follow" "Mkdir mem_host p m h = mem_make p (DirNode m) h"
  "Unlink mem_host = mem_unlink" "Rmdir mem_host = mem_rmdir" "Rename mem_host = mem_rename" "ReadDir mem_host = mem_names"
  "Symlink mem_host t p h = mem_make p (LinkNode t) h" "create_directories mem_host = mem_dirs"
  "weakly_canonical mem_host h p = Inr (segments [] p)"
  by (simp_all add: mem_host_def)

lemma demo_fields [simp]:
  "writelayer (demo ro h) = ''/wl''" "readOnly (demo ro h) = ro" "flattenSymlinks (demo ro h)" "implicitDirs (demo ro h) = {}"
  "layers (demo ro h) = [plain_layer ''/low'' [] False 0, plain_layer ''/keep'' ''save'' True 1]"
  "whiteoutSet (demo ro h) = {}" "opaqueSet (demo ro h) = {}" "host_state (demo ro h) = h"
  by (simp_all add: demo_def)

end
