(* ===== verification/SpecProps.thy ===== *)
theory SpecProps
  imports MemHost
begin

text \<open>
  What the specification's parsing and the letter-case table promise: every path of a parsed
  specification is normalised, and the canonical spelling of a path differs from it in letter
  case only.
\<close>

section \<open>Parsing\<close>

definition layer_spec_ok :: "layer_spec \<Rightarrow> bool" where
  "layer_spec_ok l \<longleftrightarrow> normal (ls_target l) \<and> list_all normal (ls_baseTargets l) \<and>
     list_all (\<lambda>m. normal (fst m) \<and> normal (snd m)) (ls_submounts l)"

definition spec_ok :: "spec \<Rightarrow> bool" where
  "spec_ok s \<longleftrightarrow> sp_mountpoint s \<noteq> [] \<and> (sp_readOnly s \<longrightarrow> sp_writelayer s = []) \<and>
     list_all layer_spec_ok (sp_layers s)"

lemma parse_bases_ok: "parse_bases J ts acc = Inr r \<Longrightarrow> list_all normal acc \<Longrightarrow> list_all normal r"
  by (induction J ts acc rule: parse_bases.induct) (auto simp: bindE_Inr NormalizeVPath_normal split: if_splits)

lemma parse_submounts_ok:
  "parse_submounts J es acc = Inr r \<Longrightarrow> list_all (\<lambda>m. normal (fst m) \<and> normal (snd m)) acc \<Longrightarrow>
    list_all (\<lambda>m. normal (fst m) \<and> normal (snd m)) r"
  by (induction J es acc rule: parse_submounts.induct)
    (auto simp: bindE_Inr NormalizeVPath_normal split: if_splits option.splits)

lemma parse_layer_ok: "parse_layer J l = Inr x \<Longrightarrow> layer_spec_ok x"
  by (auto simp: parse_layer_def bindE_Inr layer_spec_ok_def NormalizeVPath_normal split: if_splits
      dest!: parse_bases_ok parse_submounts_ok)

lemma parse_layers_ok: "parse_layers J ls acc = Inr r \<Longrightarrow> list_all layer_spec_ok acc \<Longrightarrow> list_all layer_spec_ok r"
  by (induction J ls acc rule: parse_layers.induct) (auto simp: bindE_Inr dest: parse_layer_ok)

lemma parse_fields_ok:
  "parse_fields J win j = Inr s \<Longrightarrow> (sp_readOnly s \<longrightarrow> sp_writelayer s = []) \<and> list_all layer_spec_ok (sp_layers s)"
  by (auto simp: parse_fields_def bindE_Inr split: if_splits dest!: parse_layers_ok)

lemma ParseSpec_ok:
  assumes "ParseSpec J win path = Inr s"
  shows "spec_ok s"
proof -
  obtain j where j: "parse_fields J win j = Inr s" "sp_mountpoint s \<noteq> []"
    using assms by (auto simp: ParseSpec_def split: option.splits sum.splits spec_fail.splits if_splits)
  then show ?thesis using parse_fields_ok [OF j(1)] by (simp add: spec_ok_def)
qed

section \<open>The letter-case table\<close>

definition table_ok :: "(string \<times> string) list \<Rightarrow> bool" where
  "table_ok canon \<longleftrightarrow> list_all (\<lambda>e. fst e = FoldCase (snd e)) canon"

lemma table_ok_hit: "table_ok canon \<Longrightarrow> map_of canon f = Some c \<Longrightarrow> FoldCase c = f"
  by (auto simp: table_ok_def list_all_iff dest!: map_of_SomeD)

lemma try_emplace_ok: "table_ok canon \<Longrightarrow> table_ok (try_emplace v canon)"
  by (simp add: table_ok_def try_emplace_def)

lemma canon_add_ok: "table_ok canon \<Longrightarrow> table_ok (canon_add L v canon)"
  by (simp add: canon_add_def try_emplace_ok)

lemma fold_keeps: "(\<And>x a. P a \<Longrightarrow> P (f x a)) \<Longrightarrow> P a \<Longrightarrow> P (fold f xs a)"
  by (induction xs arbitrary: a) auto

lemma canon_layer_ok: "table_ok canon \<Longrightarrow> table_ok (canon_layer names L canon)"
  by (auto simp: canon_layer_def Let_def intro!: canon_add_ok fold_keeps [where P = table_ok] split: option.splits)

lemma canon_table_ok: "table_ok (canon_table names Ls dirs)"
  unfolding canon_table_def
  by (intro fold_keeps [where P = table_ok]) (simp_all add: try_emplace_ok canon_layer_ok, simp add: table_ok_def)

lemma length_FoldCase [simp]: "length (FoldCase v) = length v"
  by (simp add: FoldCase_def)

lemma FoldCase_append: "FoldCase (a @ b) = FoldCase a @ FoldCase b"
  by (simp add: FoldCase_def)

lemma canonical_loop_cases:
  "(\<forall>v. length v = length F \<longrightarrow> canonical_loop canon F v k = v) \<or>
   (\<exists>j c. j \<le> k \<and> map_of canon (take j F) = Some c \<and> (\<forall>v. canonical_loop canon F v k = c @ drop j v))"
proof (induction k rule: less_induct)
  case (less k)
  show ?case
  proof (cases "map_of canon (take k F)")
    case (Some c)
    then have "\<forall>v. canonical_loop canon F v k = c @ drop k v" by (simp add: canonical_loop.simps [of canon F _ k])
    then show ?thesis using Some by (intro disjI2 exI [of _ k] exI [of _ c]) simp
  next
    case None
    note miss = None
    show ?thesis
    proof (cases "find_last_of (CHR ''/'') (take k F)")
      case None
      then show ?thesis using miss by (simp add: canonical_loop.simps [of canon F _ k])
    next
      case (Some s)
      then have "s < k" using find_last_of_SomeD [OF Some] by simp
      show ?thesis
      proof (cases "s = 0")
        case True
        then show ?thesis using miss Some by (simp add: canonical_loop.simps [of canon F _ k])
      next
        case False
        then have "canonical_loop canon F v k = canonical_loop canon F v s" for v
          using miss Some by (simp add: canonical_loop.simps [of canon F _ k])
        then show ?thesis using less.IH [OF \<open>s < k\<close>] \<open>s < k\<close> by (simp, meson less_imp_le order_trans)
      qed
    qed
  qed
qed

lemma FoldCase_hit:
  assumes "table_ok canon" "map_of canon (take j (FoldCase v)) = Some c" "j \<le> length v"
  shows "FoldCase (c @ drop j v) = FoldCase v" "length c = j"
proof -
  have c: "FoldCase c = take j (FoldCase v)" using table_ok_hit [OF assms(1,2)] .
  then have "length (FoldCase c) = j" using assms(3) by simp
  then show "length c = j" by simp
  have "FoldCase (drop j v) = drop j (FoldCase v)" by (simp add: FoldCase_def drop_map)
  then show "FoldCase (c @ drop j v) = FoldCase v" by (simp add: FoldCase_append c)
qed

section \<open>Properties\<close>

text \<open>
  C26: a parsed specification is well formed. Whatever the JSON library returns, a specification
  that parses has a mount point, no writelayer when it is read-only, and every target, base
  target and submount path in it has no slash at either end; normalising again changes nothing.
\<close>

theorem parsed_specs_are_normalised:
  assumes "ParseSpec J win path = Inr s"
  shows "spec_ok s \<and> list_all (\<lambda>l. NormalizeVPath (ls_target l) = ls_target l) (sp_layers s)"
  using ParseSpec_ok [OF assms] by (auto simp: spec_ok_def layer_spec_ok_def list_all_iff NormalizeVPath_id)

datatype jvalue = JStr string | JBool bool | JNum nat | JArr "jvalue list" | JObj "(string \<times> jvalue) list"

definition field :: "jvalue \<Rightarrow> string \<Rightarrow> jvalue option" where
  "field j k = (case j of JObj kvs \<Rightarrow> map_of kvs k | _ \<Rightarrow> None)"

definition demo_json :: "jvalue \<Rightarrow> jvalue json" where
  "demo_json d = \<lparr>js_load = (\<lambda>p. Some (Inr d)),
     js_at = (\<lambda>j k. case field j k of None \<Rightarrow> Inl ''key not found'' | Some x \<Rightarrow> Inr x),
     js_contains = (\<lambda>j k. field j k \<noteq> None),
     js_get_string = (\<lambda>j. case j of JStr s \<Rightarrow> Inr s | _ \<Rightarrow> Inl ''type must be string''),
     js_value_uint = (\<lambda>j k n. case field j k of Some (JNum m) \<Rightarrow> Inr m | _ \<Rightarrow> Inr n),
     js_value_bool = (\<lambda>j k b. case field j k of Some (JBool c) \<Rightarrow> Inr c | _ \<Rightarrow> Inr b),
     js_value_string = (\<lambda>j k s. case field j k of Some (JStr t) \<Rightarrow> Inr t | _ \<Rightarrow> Inr s),
     js_is_null = (\<lambda>j. False), js_is_array = (\<lambda>j. case j of JArr _ \<Rightarrow> True | _ \<Rightarrow> False),
     js_is_string = (\<lambda>j. case j of JStr _ \<Rightarrow> True | _ \<Rightarrow> False),
     js_items = (\<lambda>j. case j of JArr js \<Rightarrow> js | _ \<Rightarrow> [])\<rparr>"

definition demo_doc :: jvalue where
  "demo_doc = JObj [(''mountpoint'', JStr ''/m''), (''readonly'', JBool True), (''writelayer'', JStr ''/wl''),
     (''layers'', JArr [JObj [(''type'', JStr ''dir''), (''source'', JStr ''/low''), (''target'', JStr ''/a/b/'')]])]"

theorem parsed_specs_are_normalised_witness:
  "\<exists>s. ParseSpec (demo_json demo_doc) False ''spec.json'' = Inr s \<and> spec_ok s"
proof -
  have "\<exists>s. ParseSpec (demo_json demo_doc) False ''spec.json'' = Inr s"
    by (simp add: ParseSpec_def parse_fields_def parse_layer_def parse_type_def demo_json_def demo_doc_def field_def try_json_def)
  then obtain s where s: "ParseSpec (demo_json demo_doc) False ''spec.json'' = Inr s" ..
  then show ?thesis using parsed_specs_are_normalised [OF s] by auto
qed

text \<open>
  C27: the canonical spelling. With the table that mounting builds, the canonical spelling of a
  path equals it up to letter case; every spelling of a known name is looked up alike; and the
  canonical spelling is its own.
\<close>

theorem canonical_spelling_is_stable:
  assumes "canonCase S = canon_table names Ls dirs"
  shows "FoldCase (CanonicalCase S v) = FoldCase v \<and>
    CanonicalCase S (CanonicalCase S v) = CanonicalCase S v \<and>
    (caseInsensitive S \<and> map_of (canonCase S) (FoldCase v) \<noteq> None \<and> FoldCase w = FoldCase v \<longrightarrow>
      CanonicalCase S w = CanonicalCase S v)"
proof (cases "caseInsensitive S \<and> canonCase S \<noteq> [] \<and> v \<noteq> []")
  case False
  then show ?thesis by (auto simp: CanonicalCase_def FoldCase_def)
next
  case True
  have ok: "table_ok (canonCase S)" using assms canon_table_ok by simp
  have eq: "CanonicalCase S u = canonical_loop (canonCase S) (FoldCase v) u (length v)" if "FoldCase u = FoldCase v" for u
  proof -
    have "length u = length v" using that length_FoldCase by metis
    then show ?thesis using True that by (auto simp: CanonicalCase_def)
  qed
  have hit: "map_of (canonCase S) (FoldCase v) = Some c \<Longrightarrow> FoldCase u = FoldCase v \<Longrightarrow> CanonicalCase S u = c" for u c
  proof -
    assume a: "map_of (canonCase S) (FoldCase v) = Some c" "FoldCase u = FoldCase v"
    then have "length u = length v" using length_FoldCase by metis
    then show ?thesis using eq [OF a(2)] a(1) by (simp add: canonical_loop.simps [of "canonCase S" "FoldCase v" u "length v"])
  qed
  have "FoldCase (CanonicalCase S v) = FoldCase v \<and> CanonicalCase S (CanonicalCase S v) = CanonicalCase S v"
    using canonical_loop_cases [of "FoldCase v" "canonCase S" "length v"]
  proof (elim disjE exE conjE)
    assume "\<forall>u. length u = length (FoldCase v) \<longrightarrow> canonical_loop (canonCase S) (FoldCase v) u (length v) = u"
    then show ?thesis using eq by simp
  next
    fix j c
    assume j: "j \<le> length v" "map_of (canonCase S) (take j (FoldCase v)) = Some c"
      "\<forall>u. canonical_loop (canonCase S) (FoldCase v) u (length v) = c @ drop j u"
    note f = FoldCase_hit [OF ok j(2,1)]
    show ?thesis using f eq [of v] eq [of "c @ drop j v"] j(3) by simp
  qed
  then show ?thesis using hit by auto
qed

definition demo_folded :: "unit vfs" where
  "demo_folded = (demo False ())\<lparr>caseInsensitive := True,
     canonCase := canon_table (\<lambda>_. []) [plain_layer ''/low'' ''Da'' False 0] {}\<rparr>"

theorem canonical_spelling_is_stable_witness:
  "CanonicalCase demo_folded ''dA'' = CanonicalCase demo_folded ''DA''"
proof -
  have t: "canonCase demo_folded = canon_table (\<lambda>_. []) [plain_layer ''/low'' ''Da'' False 0] {}" "caseInsensitive demo_folded"
    by (simp_all add: demo_folded_def)
  have f: "FoldCase ''DA'' = ''da''" "FoldCase ''dA'' = ''da''" "FoldCase ''Da'' = ''da''"
    by (simp_all add: FoldCase_def fold_char_def less_eq_char_def char_of_def bit_iff_odd)
  have "map_of (canonCase demo_folded) (FoldCase ''DA'') \<noteq> None"
    by (simp add: t f canon_table_def canon_layer_def canon_add_def try_emplace_def plain_layer_def LayerMasked_def)
  then show ?thesis using canonical_spelling_is_stable [OF t(1), of "''DA''" "''dA''"] t(2) f by simp
qed

end
