(* ===== verification/ResolveProps.thy ===== *)
theory ResolveProps
  imports MemHost
begin

text \<open>
  What \<^verbatim>\<open>Resolve\<close> promises: deleted names and everything below them stay hidden, the topmost
  layer that has a path serves it, a kept folder's deletions hide the layers below it only, and
  a followed link never leads out of its layer.
\<close>

section \<open>Ancestors\<close>

lemma ancestor_cases:
  assumes "CHR ''/'' \<notin> set b"
  shows "prefix (a @ ''/'') (w @ CHR ''/'' # b) \<longleftrightarrow> a = w \<or> prefix (a @ ''/'') w"
proof
  assume "prefix (a @ ''/'') (w @ CHR ''/'' # b)"
  then obtain u where u: "a @ CHR ''/'' # u = w @ CHR ''/'' # b" by (auto simp: prefix_def)
  then consider us where "a = w @ us" "us @ CHR ''/'' # u = CHR ''/'' # b"
    | us where "w = a @ us" "CHR ''/'' # u = us @ CHR ''/'' # b"
    by (auto simp: append_eq_append_conv2)
  then show "a = w \<or> prefix (a @ ''/'') w"
  proof cases
    case 1
    then show ?thesis using assms by (cases us) auto
  next
    case 2
    then show ?thesis by (cases us) auto
  qed
qed (auto simp: prefix_def)

lemma parent_above: "a \<noteq> [] \<Longrightarrow> prefix (a @ ''/'') v \<longleftrightarrow> a = ParentVRel v \<or> prefix (a @ ''/'') (ParentVRel v)"
proof (cases rule: find_last_of_cases [of "CHR ''/''" v])
  case none
  then have "\<not> prefix (a @ ''/'') v" by (auto simp: prefix_def)
  then show "a \<noteq> [] \<Longrightarrow> ?thesis" using none by (simp add: ParentVRel_def)
next
  case (found w b)
  then show ?thesis using ancestor_cases [of b a w] by (simp add: ParentVRel_def)
qed

lemma any_up_iff: "any_up m cur \<longleftrightarrow> (\<exists>a \<in> m. a \<noteq> [] \<and> (a = cur \<or> prefix (a @ ''/'') cur))"
proof (induction m cur rule: any_up.induct)
  case (1 m cur)
  show ?case
  proof (cases "cur = [] \<or> cur \<in> m")
    case True
    then show ?thesis by (subst any_up.simps) auto
  next
    case False
    then have "any_up m cur = any_up m (ParentVRel cur)" by (subst any_up.simps) simp
    also have "\<dots> \<longleftrightarrow> (\<exists>a \<in> m. a \<noteq> [] \<and> (a = ParentVRel cur \<or> prefix (a @ ''/'') (ParentVRel cur)))"
      using 1 False by blast
    also have "\<dots> \<longleftrightarrow> (\<exists>a \<in> m. a \<noteq> [] \<and> prefix (a @ ''/'') cur)"
      using parent_above [of _ cur] by blast
    finally show ?thesis using False by blast
  qed
qed

lemma up_iff: "any_up m (ParentVRel v) \<longleftrightarrow> (\<exists>a \<in> m. a \<noteq> [] \<and> prefix (a @ ''/'') v)"
  using parent_above [of _ v] by (auto simp: any_up_iff)

text \<open>A name is below a directory: the root has everything below it.\<close>

definition below :: "string \<Rightarrow> string \<Rightarrow> bool" where
  "below a v \<longleftrightarrow> a = [] \<or> prefix (a @ ''/'') v"

text \<open>Hidden by the writelayer's masks: deleted itself, or below a deleted or an opaque directory.\<close>

definition hidden :: "'h vfs \<Rightarrow> string \<Rightarrow> bool" where
  "hidden S v \<longleftrightarrow> v \<noteq> [] \<and> v \<in> whiteoutSet S \<or>
     (\<exists>a \<in> whiteoutSet S. a \<noteq> [] \<and> below a v) \<or> (\<exists>a \<in> opaqueSet S. below a v)"

lemma IsUnderWhiteout_iff:
  "writelayer S \<noteq> [] \<Longrightarrow> IsUnderWhiteout S v \<longleftrightarrow> (\<exists>a \<in> whiteoutSet S. a \<noteq> [] \<and> below a v)"
  by (auto simp: IsUnderWhiteout_def up_iff below_def)

lemma IsUnderOpaque_iff:
  "writelayer S \<noteq> [] \<Longrightarrow> IsUnderOpaque S v \<longleftrightarrow> (\<exists>a \<in> opaqueSet S. below a v)"
  unfolding IsUnderOpaque_def up_iff below_def by (cases "opaqueSet S = {}") (simp, simp, metis)

lemma hidden_iff:
  "writelayer S \<noteq> [] \<Longrightarrow> hidden S v \<longleftrightarrow> IsWhiteouted S v \<or> IsUnderWhiteout S v \<or> IsUnderOpaque S v"
  by (simp add: hidden_def IsWhiteouted_def IsUnderWhiteout_iff IsUnderOpaque_iff)

lemma Resolve_hidden:
  assumes "writelayer S \<noteq> []" "hidden S v"
  shows "r_kind (Resolve E S v) = HitNone \<or>
    (r_kind (Resolve E S v) = WriteLayer \<and> \<not> (v \<noteq> [] \<and> v \<in> whiteoutSet S) \<and>
     \<not> isl (Lstat (io E) (host_state S) (WLPath S v)))"
  using assms(2) unfolding hidden_iff [OF assms(1)] using assms(1)
  by (auto simp: Resolve_def no_hit_def Let_def IsWhiteouted_def split: sum.split)

text \<open>Past the writelayer and its masks the layers decide.\<close>

definition passes :: "'h env \<Rightarrow> 'h vfs \<Rightarrow> string \<Rightarrow> bool" where
  "passes E S v \<longleftrightarrow> writelayer S = [] \<or> (\<not> hidden S v \<and> isl (Lstat (io E) (host_state S) (WLPath S v)))"

lemma Resolve_passes: "passes E S v \<Longrightarrow> Resolve E S v = resolve_layers E S v (rev (layers S))"
  by (cases "writelayer S = []") (auto simp: passes_def Resolve_def hidden_iff isl_def)

lemma Resolve_stops: "\<not> passes E S v \<Longrightarrow> r_layer (Resolve E S v) = None \<and> r_kind (Resolve E S v) \<in> {HitNone, WriteLayer}"
  by (auto simp: passes_def Resolve_def hidden_iff no_hit_def Let_def split: sum.split)

section \<open>The topmost layer\<close>

text \<open>A layer plainly has a path: it covers it, is not hidden there, and holds something that is no link.\<close>

definition offers :: "'h env \<Rightarrow> 'h vfs \<Rightarrow> layer \<Rightarrow> string \<Rightarrow> bool" where
  "offers E S L v \<longleftrightarrow> LayerCovers L v \<and> \<not> LayerMasked L v \<and>
     (if l_type L = Dir then
        \<exists>st. Lstat (io E) (host_state S) (source_path L (SourceRel L v)) = Inr st \<and> \<not> st_isSymlink st
      else if l_type L = File then
        \<exists>st. Lstat (io E) (host_state S) (l_source L) = Inr st \<and> \<not> st_isSymlink st
      else
        \<exists>I. l_zip L = Some I \<and>
          (case byName I (SourceRel L v) of None \<Rightarrow> dirChildren I (SourceRel L v) \<noteq> None
           | Some e \<Rightarrow> \<not> ze_symlink e))"

lemma offers_hit: "offers E S L v \<Longrightarrow> \<exists>r. resolve_layer E S L v = Hit r \<and> r_layer r = Some L \<and> r_kind r \<noteq> HitNone"
  by (auto simp: offers_def resolve_layer_def resolve_dir_def resolve_file_def resolve_zip_def zip_hit_def Let_def
      split: if_splits option.splits)

lemma hit_layer: "resolve_layer E S L v = Hit r \<Longrightarrow> r_layer r = None \<or> r_layer r = Some L"
  by (auto simp: resolve_layer_def resolve_dir_def resolve_file_def resolve_zip_def zip_hit_def no_hit_def Let_def
      split: if_splits option.splits sum.splits)

lemma hit_covers: "resolve_layer E S L v = Hit r \<Longrightarrow> LayerCovers L v \<and> \<not> LayerMasked L v"
  by (simp add: resolve_layer_def split: if_splits)

lemma resolve_layers_first:
  "r_layer (resolve_layers E S v Ls) = Some L \<Longrightarrow>
   \<exists>us ws. Ls = us @ L # ws \<and> resolve_layer E S L v = Hit (resolve_layers E S v Ls) \<and>
     (\<forall>M \<in> set us. resolve_layer E S M v = Next)"
proof (induction Ls)
  case (Cons M Ms)
  show ?case
  proof (cases "resolve_layer E S M v")
    case (Hit r)
    then have "L = M" using Cons.prems hit_layer [OF Hit] by auto
    then show ?thesis using Hit by (intro exI [of _ "[]"] exI [of _ Ms]) simp
  next
    case Next
    then have same: "resolve_layers E S v (M # Ms) = resolve_layers E S v Ms" by simp
    then obtain us ws where "Ms = us @ L # ws" "resolve_layer E S L v = Hit (resolve_layers E S v Ms)"
      "\<forall>M \<in> set us. resolve_layer E S M v = Next"
      using Cons by auto
    then show ?thesis using Next same by (intro exI [of _ "M # us"] exI [of _ ws]) simp
  qed
qed (simp add: no_hit_def split: if_splits)

lemma Resolve_layer_hit:
  assumes "r_layer (Resolve E S v) = Some L"
  obtains xs ys where "layers S = xs @ L # ys" "resolve_layer E S L v = Hit (Resolve E S v)"
    "\<forall>M \<in> set ys. resolve_layer E S M v = Next"
proof -
  have p: "passes E S v" using Resolve_stops [of E S v] assms by auto
  then obtain us ws where "rev (layers S) = us @ L # ws" "resolve_layer E S L v = Hit (Resolve E S v)"
    "\<forall>M \<in> set us. resolve_layer E S M v = Next"
    using resolve_layers_first [of E S v "rev (layers S)" L] assms by (auto simp: Resolve_passes)
  moreover from this(1) have "layers S = rev ws @ L # rev us"
    by (metis rev_append rev_rev_ident append.assoc append_Cons append_Nil rev.simps(2))
  ultimately show ?thesis using that by simp
qed

lemma next_no_offer: "resolve_layer E S M v = Next \<Longrightarrow> \<not> offers E S M v"
  using offers_hit [of E S M v] by auto

lemma resolve_layers_reach:
  assumes "offers E S M v" "\<forall>K \<in> set us. \<forall>r. resolve_layer E S K v = Hit r \<longrightarrow> r_layer r \<noteq> None"
  shows "\<exists>L \<in> set (us @ [M]). r_layer (resolve_layers E S v (us @ M # ws)) = Some L"
  using assms(2)
proof (induction us)
  case Nil
  then show ?case using offers_hit [OF assms(1)] by auto
next
  case (Cons K us)
  then show ?case
  proof (cases "resolve_layer E S K v")
    case (Hit r)
    then show ?thesis using Cons.prems hit_layer [OF Hit] by auto
  next
    case Next
    then show ?thesis using Cons by auto
  qed
qed

section \<open>Kept folders\<close>

lemma below_up: "below a v \<longleftrightarrow> a = [] \<or> a = ParentVRel v \<or> below a (ParentVRel v)"
  using parent_above [of a v] by (auto simp: below_def)

lemma kept_up_iff:
  "kept_up k cur \<longleftrightarrow> (\<exists>a \<in> deleted k. a \<noteq> [] \<and> (a = cur \<or> below a cur)) \<or> (\<exists>a \<in> opaque k. a = cur \<or> below a cur)"
proof (induction k cur rule: kept_up.induct)
  case (1 k cur)
  consider (d) "cur \<noteq> [] \<and> cur \<in> deleted k \<or> cur \<in> opaque k" | (root) "cur = []" "cur \<notin> opaque k"
    | (up) "cur \<noteq> []" "cur \<notin> deleted k" "cur \<notin> opaque k" by blast
  then show ?case
  proof cases
    case d
    then show ?thesis by (subst kept_up.simps) auto
  next
    case root
    then show ?thesis by (subst kept_up.simps) (auto simp: below_def)
  next
    case up
    then have "kept_up k cur = kept_up k (ParentVRel cur)" by (subst kept_up.simps) simp
    also have "\<dots> \<longleftrightarrow> (\<exists>a \<in> deleted k. a \<noteq> [] \<and> below a cur) \<or> (\<exists>a \<in> opaque k. below a cur)"
      using 1 up below_up [of _ cur] by (metis below_def)
    finally show ?thesis using up by blast
  qed
qed

text \<open>Deleted in the kept folder, or below a directory deleted or made again there.\<close>

definition kept_hides :: "kept_masks \<Rightarrow> string \<Rightarrow> bool" where
  "kept_hides k rel \<longleftrightarrow> rel \<noteq> [] \<and>
     (rel \<in> deleted k \<or> (\<exists>a \<in> deleted k. a \<noteq> [] \<and> below a rel) \<or> (\<exists>a \<in> opaque k. below a rel))"

lemma KeptMasked_iff: "KeptMasked L v \<longleftrightarrow> (\<exists>k. kept L = Some k \<and> kept_hides k (SourceRel L v))"
proof (cases "kept L")
  case (Some k)
  have "kept_up k (ParentVRel r) \<longleftrightarrow> (\<exists>a \<in> deleted k. a \<noteq> [] \<and> below a r) \<or> (\<exists>a \<in> opaque k. below a r)" for r
    using below_up [of _ r] by (metis kept_up_iff below_def)
  then show ?thesis using Some
    by (auto simp: KeptMasked_def kept_hides_def Let_def)
qed (simp add: KeptMasked_def)

lemma kept_stops:
  assumes "l_type K = Dir" "l_rw K" "LayerCovers K v" "\<not> LayerMasked K v" "KeptMasked K v"
    and "isl (Lstat (io E) (host_state S) (source_path K (SourceRel K v)))"
  shows "resolve_layer E S K v = Hit no_hit"
  using assms by (auto simp: resolve_layer_def resolve_dir_def Let_def isl_def)

lemma resolve_layers_above:
  assumes "resolve_layer E S K v = Hit no_hit"
  shows "resolve_layers E S v (us @ K # ws) = no_hit \<or>
    (\<exists>L \<in> set us. r_layer (resolve_layers E S v (us @ K # ws)) = Some L)"
proof (induction us)
  case Nil
  then show ?case using assms by simp
next
  case (Cons M us)
  show ?case
  proof (cases "resolve_layer E S M v")
    case (Hit r)
    then have "r = no_hit \<or> r_layer r = Some M"
      by (auto simp: resolve_layer_def resolve_dir_def resolve_file_def resolve_zip_def zip_hit_def Let_def
          split: if_splits option.splits sum.splits)
    then show ?thesis using Hit by auto
  next
    case Next
    then show ?thesis using Cons by auto
  qed
qed

section \<open>Links\<close>

lemma hops_end: "zip_hops Z I n e = Some t \<Longrightarrow> \<not> ze_symlink t \<and> \<not> ze_isDir t"
proof (induction n arbitrary: e)
  case 0
  then show ?case by (subst (asm) zip_hops.simps) (auto split: if_splits)
next
  case (Suc n)
  show ?case using Suc.prems Suc.IH unfolding zip_hops.simps [of Z I "Suc n" e]
    by (simp split: if_splits option.splits)
qed

lemma zip_hit_link:
  assumes "resolve_layer E S L v = Hit r" "flattenSymlinks S"
  shows "\<forall>e. r_kind r = ZipHit \<and> r_zipEntry r = Some e \<and> ze_symlink e \<longrightarrow> ze_stored e \<and> ze_size e \<le> 4096"
proof (cases "resolve_zip E S L v = Hit r")
  case True
  then obtain I where I: "l_zip L = Some I" by (auto simp: resolve_zip_def split: option.splits)
  show ?thesis
  proof (cases "byName I (SourceRel L v)")
    case None
    then show ?thesis using True I by (simp add: resolve_zip_def zip_hit_def Let_def split: if_splits) auto
  next
    case (Some e)
    show ?thesis
    proof (cases "ResolveZipSymlink (zs E) I e")
      case None
      then show ?thesis using True I Some assms(2)
        by (simp add: resolve_zip_def zip_hit_def Let_def split: if_splits) auto
    next
      case t: (Some t)
      then have "\<not> ze_symlink t" using hops_end by (simp add: ResolveZipSymlink_def)
      then show ?thesis using True I Some assms(2) t
        by (simp add: resolve_zip_def zip_hit_def Let_def split: if_splits) auto
    qed
  qed
next
  case False
  then have "r_kind r \<noteq> ZipHit" using assms(1)
    by (auto simp: resolve_layer_def resolve_dir_def resolve_file_def no_hit_def Let_def split: if_splits sum.splits)
  then show ?thesis by simp
qed

lemma dir_hit_inside:
  assumes "resolve_layer E S L v = Hit r" "flattenSymlinks S"
  shows "r_kind r = DirLayer \<and> \<not> l_rw L \<longrightarrow>
      (\<exists>st. Lstat (io E) (host_state S) (r_hostPath r) = Inr st \<and>
        (st_isSymlink st \<longrightarrow>
          (\<exists>f p q. StatFollow (io E) (host_state S) (r_hostPath r) = Inr f \<and>
             weakly_canonical (io E) (host_state S) (r_hostPath r) = Inr p \<and>
             weakly_canonical (io E) (host_state S) (l_source L) = Inr q \<and> prefix q p)))"
proof (cases "resolve_dir E S L v = Hit r")
  case True
  then show ?thesis using assms(2)
    by (cases "Lstat (io E) (host_state S) (source_path L (SourceRel L v))";
        cases "StatFollow (io E) (host_state S) (source_path L (SourceRel L v))")
      (auto simp: resolve_dir_def no_hit_def Let_def SymlinkContained_def split: if_splits sum.splits)
next
  case False
  then have "r_kind r \<noteq> DirLayer" using assms(1)
    by (auto simp: resolve_layer_def resolve_zip_def resolve_file_def zip_hit_def Let_def split: if_splits sum.splits option.splits)
  then show ?thesis by simp
qed

section \<open>Properties\<close>

lemmas demo_eval = demo_def demo_mem_def demo_nodes_def plain_layer_def mem_lstat_def
  node_at_def mem_stat_def FromStat_def WLPath_def LayerCovers_def LayerMasked_def SourceRel_def RelUnder_def
  source_path_def

lemma demo_passes: "passes mem_env (demo False demo_mem) ''d/old''"
  by (simp add: passes_def hidden_def demo_eval)

lemma demo_offers: "offers mem_env (demo False demo_mem) (plain_layer ''/low'' [] False 0) ''d/old''"
  by (simp add: offers_def demo_eval S_ISLNK_def S_IFLNK_def S_IFMT_def S_IFREG_def)

lemma kind_none: "r_kind (Resolve E S v) = HitNone \<Longrightarrow> \<not> r_rwPassthrough (Resolve E S v)"
proof -
  have "r_kind (resolve_layers E S v Ls) = HitNone \<Longrightarrow> \<not> r_rwPassthrough (resolve_layers E S v Ls)" for Ls
  proof (induction Ls)
    case (Cons L Ls)
    show ?case
    proof (cases "resolve_layer E S L v")
      case (Hit r)
      then show ?thesis using Cons.prems
        by (auto simp: resolve_layer_def resolve_dir_def resolve_file_def resolve_zip_def zip_hit_def no_hit_def Let_def
            split: if_splits option.splits sum.splits)
    next
      case Next
      then show ?thesis using Cons by simp
    qed
  qed (simp add: no_hit_def split: if_splits)
  then show "r_kind (Resolve E S v) = HitNone \<Longrightarrow> ?thesis"
    using Resolve_passes [of E S v] Resolve_stops [of E S v]
    by (cases "passes E S v") (auto simp: Resolve_def no_hit_def Let_def split: if_splits sum.splits)
qed

text \<open>
  C5: a deleted name does not exist. A name that the writelayer's masks hide (deleted itself, or
  anywhere below a deleted or an opaque directory) and that has no copy of its own there
  resolves to nothing: it has no attributes, cannot be opened, and is no link.
\<close>

theorem hidden_names_do_not_exist:
  assumes "writelayer S \<noteq> []" "hidden S v" "v \<noteq> []"
    and "v \<in> whiteoutSet S \<or> isl (Lstat (io E) (host_state S) (WLPath S v))"
  shows "r_kind (Resolve E S v) = HitNone \<and> VfsGetattr E S v = Inl ENOENT \<and>
    run_state (VfsOpen E v fl) S = (Inl ENOENT, S) \<and> VfsReadlink E S v = Inl EINVAL"
proof -
  have "r_kind (Resolve E S v) = HitNone" using Resolve_hidden [OF assms(1,2), of E] assms(3,4) by auto
  then show ?thesis using kind_none [of E S v] assms(3)
    by (simp add: VfsGetattr_def VfsOpen_def VfsReadlink_def Let_def)
qed

theorem hidden_names_do_not_exist_witness:
  "VfsGetattr mem_env ((demo False demo_mem)\<lparr>whiteoutSet := {''d''}\<rparr>) ''d/old'' = Inl ENOENT"
  using hidden_names_do_not_exist [of "(demo False demo_mem)\<lparr>whiteoutSet := {''d''}\<rparr>" "''d/old''" mem_env 0]
  by (simp add: hidden_def below_def demo_eval)





text \<open>
  C17: deletions in a kept folder. A path missing from a kept folder's own tree that its markers
  hide (deleted there, or below a directory deleted or made again there) is never served by the
  kept folder or by a layer below it, and no structural directory stands in for it.
\<close>

theorem kept_deletions_hide_lower_layers:
  assumes "passes E S v" "layers S = xs @ K # ys" "l_type K = Dir" "l_rw K" "LayerCovers K v" "\<not> LayerMasked K v"
    and "isl (Lstat (io E) (host_state S) (source_path K (SourceRel K v)))"
    and "kept K = Some k" "kept_hides k (SourceRel K v)"
  shows "r_kind (Resolve E S v) = HitNone \<or> (\<exists>L. L \<in> set ys \<and> r_layer (Resolve E S v) = Some L)"
proof -
  have "KeptMasked K v" using assms(8,9) by (auto simp: KeptMasked_iff)
  then have "resolve_layer E S K v = Hit no_hit" using kept_stops assms(3-7) by blast
  from resolve_layers_above [OF this, of "rev ys" "rev xs"] show ?thesis
    by (auto simp: Resolve_passes [OF assms(1)] assms(2) no_hit_def)
qed

definition demo_kept :: "mem vfs" where
  "demo_kept = (demo False demo_mem)\<lparr>layers := [plain_layer ''/low'' [] False 0,
     (plain_layer ''/keep'' ''save'' True 1)\<lparr>kept := Some \<lparr>deleted = {''s''}, opaque = {}\<rparr>\<rparr>]\<rparr>"

theorem kept_deletions_hide_lower_layers_witness: "r_kind (Resolve mem_env demo_kept ''save/s'') = HitNone"
proof -
  have "passes mem_env demo_kept ''save/s''"
    by (simp add: passes_def hidden_def demo_kept_def demo_eval)
  then show ?thesis
    using kept_deletions_hide_lower_layers [of mem_env demo_kept "''save/s''" "[plain_layer ''/low'' [] False 0]"
        "(plain_layer ''/keep'' ''save'' True 1)\<lparr>kept := Some \<lparr>deleted = {''s''}, opaque = {}\<rparr>\<rparr>" "[]"]
    by (simp add: demo_kept_def demo_eval kept_hides_def)
qed

text \<open>
  C23: links do not leave their layer. With flattening on, a link that a read-only folder layer
  serves can be followed on the host and its canonical path has the canonical path of the
  layer's source in front; and an archive link served as a link has at most 4096 bytes.
\<close>

theorem served_links_stay_inside:
  assumes "flattenSymlinks S" "r_layer (Resolve E S v) = Some L"
  shows "(r_kind (Resolve E S v) = DirLayer \<and> \<not> l_rw L \<longrightarrow>
      (\<exists>st. Lstat (io E) (host_state S) (r_hostPath (Resolve E S v)) = Inr st \<and>
        (st_isSymlink st \<longrightarrow>
          (\<exists>f p q. StatFollow (io E) (host_state S) (r_hostPath (Resolve E S v)) = Inr f \<and>
             weakly_canonical (io E) (host_state S) (r_hostPath (Resolve E S v)) = Inr p \<and>
             weakly_canonical (io E) (host_state S) (l_source L) = Inr q \<and> prefix q p)))) \<and>
    (\<forall>e. r_kind (Resolve E S v) = ZipHit \<and> r_zipEntry (Resolve E S v) = Some e \<and> ze_symlink e \<longrightarrow>
      ze_stored e \<and> ze_size e \<le> 4096)"
proof -
  have hit: "resolve_layer E S L v = Hit (Resolve E S v)" using Resolve_layer_hit [OF assms(2)] by blast
  show ?thesis using dir_hit_inside [OF hit assms(1)] zip_hit_link [OF hit assms(1)] by blast
qed

definition demo_link :: mem where
  "demo_link = \<lparr>nodes = [(''/low'', DirNode 0x1ED), (''/low/l'', LinkNode ''/low/t''),
     (''/low/t'', FileNode 0x1A4 [7])], fds = []\<rparr>"

lemma demo_link_layer:
  "r_layer (Resolve mem_env (demo False demo_link) ''l'') = Some (plain_layer ''/low'' [] False 0) \<and>
   r_kind (Resolve mem_env (demo False demo_link) ''l'') = DirLayer \<and>
   r_hostPath (Resolve mem_env (demo False demo_link) ''l'') = ''/low/l''"
proof -
  have "passes mem_env (demo False demo_link) ''l''"
    by (simp add: passes_def hidden_def demo_link_def demo_eval)
  then show ?thesis
    by (simp add: Resolve_passes demo_link_def resolve_layer_def resolve_dir_def Let_def demo_eval mem_follow_def
        SymlinkContained_def S_ISLNK_def S_IFLNK_def S_IFMT_def S_IFREG_def)
qed

theorem served_links_stay_inside_witness:
  "\<exists>st. Lstat (io mem_env) demo_link ''/low/l'' = Inr st \<and> (\<not> st_isSymlink st \<or>
     (\<exists>f p q. StatFollow (io mem_env) demo_link ''/low/l'' = Inr f \<and>
       weakly_canonical (io mem_env) demo_link ''/low/l'' = Inr p \<and>
       weakly_canonical (io mem_env) demo_link ''/low'' = Inr q \<and> prefix q p))"
  using served_links_stay_inside [of "demo False demo_link" mem_env "''l''" "plain_layer ''/low'' [] False 0"] demo_link_layer
  by (auto simp: demo_def plain_layer_def)

end
