(* ===== verification/RemovalProps.thy ===== *)
theory RemovalProps
  imports Frame ResolveProps
begin

text \<open>
  Removing, moving and making names: what the masks are after the operations that change them,
  and what can be looked up then.
\<close>

section \<open>Effects on the masks\<close>

lemma same_run: "keeps (same_but_host S) m \<Longrightarrow> \<exists>r h. run_state m S = (r, S\<lparr>host_state := h\<rparr>)"
proof -
  assume "keeps (same_but_host S) m"
  moreover have "same_but_host S S" unfolding same_but_host_def by (rule exI [of _ "host_state S"]) simp
  ultimately have "same_but_host S (snd (run_state m S))" by (rule keepsD)
  then obtain h where "snd (run_state m S) = S\<lparr>host_state := h\<rparr>" by (auto simp: same_but_host_def simp del: split_paired_Ex)
  then show ?thesis by (metis prod.collapse)
qed

lemma touch_effect: "\<exists>h. run_state (touch E p) S = ((), S\<lparr>host_state := h\<rparr>)"
  using same_run [of S "touch E p", OF host_only.touch_keeps] by simp

lemma EnsureWriteParent_effect: "\<exists>r h. run_state (EnsureWriteParent E v) S = (r, S\<lparr>host_state := h\<rparr>)"
  by (rule same_run [OF host_only.EnsureWriteParent_keeps])

lemma CreateWhiteout_effect:
  assumes "writelayer S \<noteq> []"
  shows "\<exists>h. run_state (CreateWhiteout E v) S = ((), S\<lparr>host_state := h, whiteoutSet := Set.insert v (whiteoutSet S)\<rparr>)"
proof -
  obtain r h where a: "create_directories (io E) (WLPath S (ParentVRel v)) (host_state S) = (r, h)" by fastforce
  obtain h' where "run_state (touch E (WhiteoutPath S v)) (S\<lparr>host_state := h\<rparr>) = ((), S\<lparr>host_state := h'\<rparr>)"
    using touch_effect [of E "WhiteoutPath S v" "S\<lparr>host_state := h\<rparr>"] by auto
  then show ?thesis using assms a by (auto simp: CreateWhiteout_def MutateWhiteouts_def)
qed

lemma RemoveWhiteout_effect:
  assumes "writelayer S \<noteq> []"
  shows "\<exists>h. run_state (RemoveWhiteout E v) S = ((), S\<lparr>host_state := h, whiteoutSet := whiteoutSet S - {v}\<rparr>)"
  using assms by (auto simp: RemoveWhiteout_def MutateWhiteouts_def split: prod.split)

lemma MarkOpaque_effect:
  assumes "writelayer S \<noteq> []"
  shows "\<exists>h. run_state (MarkOpaque E v) S = ((), S\<lparr>host_state := h, opaqueSet := Set.insert v (opaqueSet S)\<rparr>)"
proof -
  obtain h where "run_state (touch E (OpaqueMarker S v)) S = ((), S\<lparr>host_state := h\<rparr>)"
    using touch_effect [of E "OpaqueMarker S v" S] by auto
  then show ?thesis using assms by (auto simp: MarkOpaque_def MutateOpaques_def)
qed

lemma Resolve_whiteout: "writelayer S \<noteq> [] \<Longrightarrow> v \<noteq> [] \<Longrightarrow> v \<in> whiteoutSet S \<Longrightarrow> Resolve E S v = no_hit"
  by (simp add: Resolve_def IsWhiteouted_def)

text \<open>The last step of a removal: a name still visible is hidden.\<close>

lemma hide_end:
  assumes "writelayer S0 \<noteq> []" "v \<noteq> []" "KeptLayerFor S0 v = None"
  shows "ensures (same_shape S0)
    (do { S \<leftarrow> State_Monad.get; if r_kind (Resolve E S v) \<noteq> HitNone then HideLower E v else ret e })
    (\<lambda>S'. r_kind (Resolve E S' v) = HitNone)"
proof -
  have "r_kind (Resolve E (snd (run_state (HideLower E v) S)) v) = HitNone" if s: "same_shape S0 S" for S
  proof -
    have w: "writelayer S \<noteq> []" using s assms(1) by (simp add: same_shape_def)
    obtain h where "run_state (CreateWhiteout E v) S = ((), S\<lparr>host_state := h, whiteoutSet := Set.insert v (whiteoutSet S)\<rparr>)"
      using CreateWhiteout_effect [OF w] by blast
    then have "run_state (HideLower E v) S = (ok, S\<lparr>host_state := h, whiteoutSet := Set.insert v (whiteoutSet S)\<rparr>)"
      using KeptLayerFor_shape [OF s, of v] assms(3) by (simp add: HideLower_def)
    then show ?thesis using w assms(2) by (simp add: Resolve_whiteout no_hit_def)
  qed
  then show ?thesis by (auto simp: ensures_def)
qed

lemma hide_end_whiteout:
  assumes "writelayer S0 \<noteq> []" "v \<noteq> []" "KeptLayerFor S0 v = None"
  shows "ensures (same_shape S0)
    (do { S \<leftarrow> State_Monad.get; if r_kind (Resolve E S v) \<noteq> HitNone then do { CreateWhiteout E v; ret ok } else ret ok })
    (\<lambda>S'. r_kind (Resolve E S' v) = HitNone)"
proof -
  have "run_state (HideLower E v) S = run_state (do { CreateWhiteout E v; ret ok }) S" if "same_shape S0 S" for S
    using KeptLayerFor_shape [OF that, of v] assms(3) by (simp add: HideLower_def)
  then show ?thesis using hide_end [OF assms, of E ok] unfolding ensures_def by fastforce
qed

lemma hard_error_ok [simp]: "\<not> hard_error ok"
  by (simp add: hard_error_def)

lemma ensures_hard: "hard_error e \<Longrightarrow> ensures P (State_Monad.return e) Q"
  by (auto simp: ensures_def hard_error_def)

lemma passthrough_none: "PassthroughHost S v = None \<longleftrightarrow> KeptLayerFor S v = None"
  by (simp add: PassthroughHost_KeptLayerFor)

lemma removal_hides:
  assumes "writelayer S0 \<noteq> []" "v \<noteq> []" "PassthroughHost S0 v = None"
  shows "ensures (same_shape S0) (VfsUnlink E v) (\<lambda>S'. r_kind (Resolve E S' v) = HitNone)"
    and "ensures (same_shape S0) (VfsRmdir E v) (\<lambda>S'. r_kind (Resolve E S' v) = HitNone)"
    and "ensures (same_shape S0) (VfsRename E v w) (\<lambda>S'. r_kind (Resolve E S' v) = HitNone)"
proof -
  have k: "KeptLayerFor S0 v = None" using assms(3) by (simp add: passthrough_none)
  have p: "PassthroughHost S v = None" if "same_shape S0 S" for S
    using KeptLayerFor_shape [OF that] k by (simp add: passthrough_none)
  note fin = hide_end_whiteout [OF assms(1,2) k, of E] hide_end [OF assms(1,2) k, of E ok]
  show "ensures (same_shape S0) (VfsUnlink E v) (\<lambda>S'. r_kind (Resolve E S' v) = HitNone)"
    unfolding VfsUnlink_def
    by (intro ensures_get ensures_if ensures_err) (auto simp: p intro!: ensures_bind ensures_if ensures_err ensures_hard fin shape.op_rules)
  show "ensures (same_shape S0) (VfsRmdir E v) (\<lambda>S'. r_kind (Resolve E S' v) = HitNone)"
    unfolding VfsRmdir_def Let_def
    by (intro ensures_get ensures_if ensures_err) (auto simp: p intro!: ensures_bind ensures_if ensures_err ensures_hard fin shape.op_rules)
  show "ensures (same_shape S0) (VfsRename E v w) (\<lambda>S'. r_kind (Resolve E S' v) = HitNone)"
    unfolding VfsRename_def Let_def
    by (intro ensures_get ensures_if ensures_err ensures_trym ensures_bind fin shape.op_rules)
qed

section \<open>A directory made again in a kept folder\<close>

text \<open>The kept layer has the path among the directories that start empty.\<close>

definition made_opaque :: "'h vfs \<Rightarrow> nat \<Rightarrow> string \<Rightarrow> 'h vfs \<Rightarrow> bool" where
  "made_opaque S0 i rel S \<longleftrightarrow> same_shape S0 S \<and> i < length (layers S) \<and> (\<exists>k. kept (layers S ! i) = Some k \<and> rel \<in> opaque k)"

interpretation opaque_host: host_frame "made_opaque S0 i rel" for S0 :: "'h vfs" and i rel
  by unfold_locales (simp add: made_opaque_def same_shape_def)

lemma made_opaque_masks:
  "made_opaque S0 i rel S \<Longrightarrow> made_opaque S0 i rel (S\<lparr>whiteoutSet := w\<rparr>)"
  "made_opaque S0 i rel S \<Longrightarrow> made_opaque S0 i rel (S\<lparr>layers := (layers S)[j :=
     (layers S ! j)\<lparr>kept := map_option (\<lambda>k. k\<lparr>deleted := f (deleted k)\<rparr>) (kept (layers S ! j))\<rparr>]\<rparr>)"
proof -
  show "made_opaque S0 i rel S \<Longrightarrow> made_opaque S0 i rel (S\<lparr>whiteoutSet := w\<rparr>)"
    by (simp add: made_opaque_def same_shape_def)
  assume m: "made_opaque S0 i rel S"
  show "made_opaque S0 i rel (S\<lparr>layers := (layers S)[j :=
     (layers S ! j)\<lparr>kept := map_option (\<lambda>k. k\<lparr>deleted := f (deleted k)\<rparr>) (kept (layers S ! j))\<rparr>]\<rparr>)"
    using m by (cases "j = i \<and> j < length (layers S)") (auto simp: made_opaque_def same_shape_def skeleton_kept nth_list_update list_update_beyond)
qed

lemma UnhideLower_made: "keeps (made_opaque S0 i rel) (UnhideLower E v)"
  unfolding UnhideLower_def Let_def RemoveWhiteout_def MutateWhiteouts_def MutateKept_def
  by (intro keeps_get keeps_option keeps_if keeps_bind keeps_ret opaque_host.host_rules keeps_update made_opaque_masks)

lemma KeptMarkOpaque_made:
  assumes "KeptLayerFor S0 v = Some i" "kept (layers S0 ! i) \<noteq> None"
  shows "ensures (same_but_host S0) (KeptMarkOpaque E v) (made_opaque S0 i (SourceRel (layers S0 ! i) v))"
proof -
  have i: "i < length (layers S0)" using assms(1) by (auto simp: KeptLayerFor_def dest!: find_SomeD)
  have "made_opaque S0 i (SourceRel (layers S0 ! i) v) (snd (run_state (KeptMarkOpaque E v) S))"
    if s: "same_but_host S0 S" and r: "fst (run_state (KeptMarkOpaque E v) S) = ok" for S
  proof -
    obtain h where S: "S = S0\<lparr>host_state := h\<rparr>" using s by (auto simp: same_but_host_def simp del: split_paired_Ex)
    let ?m = "source_path (layers S0 ! i) (SourceRel (layers S0 ! i) v) @ ''/.wh..wh..opq''"
    obtain e h' where t: "run_state (TouchMarker E ?m) S = (e, S\<lparr>host_state := h'\<rparr>)"
      using same_run [of S "TouchMarker E ?m", OF host_only.TouchMarker_keeps] by auto
    have k: "KeptLayerFor S v = Some i" "layers S = layers S0" using assms(1) by (simp_all add: S KeptLayerFor_def)
    have "e = ok" using r t k by (auto simp: KeptMarkOpaque_def Let_def run_state_trym split: sum.splits)
    then have "snd (run_state (KeptMarkOpaque E v) S) = S\<lparr>host_state := h', layers := (layers S)[i := (layers S ! i)\<lparr>kept :=
        map_option (\<lambda>k. k\<lparr>opaque := Set.insert (SourceRel (layers S0 ! i) v) (opaque k)\<rparr>) (kept (layers S ! i))\<rparr>]\<rparr>"
      using t k by (simp add: KeptMarkOpaque_def Let_def run_state_trym MutateKept_def)
    then show ?thesis using i assms(2) S k(2) by (auto simp: made_opaque_def same_shape_def skeleton_kept)
  qed
  then show ?thesis by (simp add: ensures_def)
qed

lemma ensures_then:
  assumes "ensures P m R" "keeps R m'"
  shows "ensures P (do { e \<leftarrow> m; if e \<noteq> ok then do { _ \<leftarrow> f; ret e } else do { _ \<leftarrow> m'; ret ok } }) R"
  using assms by (auto simp: ensures_def keeps_def case_prod_beta)

lemma kept_mkdir_opaque:
  assumes "KeptLayerFor S v = Some i" "SourceRel (layers S ! i) v \<noteq> []" "KeptHidden S v"
    and "fst (run_state (VfsMkdir E v md) S) = ok"
  shows "made_opaque S i (SourceRel (layers S ! i) v) (snd (run_state (VfsMkdir E v md) S))"
proof -
  have k: "kept (layers S ! i) \<noteq> None" using assms(1,3) by (auto simp: KeptHidden_def in_deleted_def split: option.splits)
  have at: "KeptLayerFor S' v = Some i \<and> layers S' = layers S \<and> KeptHidden S' v" if s: "same_but_host S S'" for S'
    using s assms(1,3) by (auto simp: same_but_host_def KeptLayerFor_def KeptHidden_def simp del: split_paired_Ex)
  have "ensures (same_but_host S) (VfsMkdir E v md) (made_opaque S i (SourceRel (layers S ! i) v))"
    unfolding VfsMkdir_def Let_def
  proof (intro ensures_get ensures_if ensures_option ensures_err)
    fix S' assume "same_but_host S S'" "PassthroughHost S' v = None"
    then show "ensures (same_but_host S) X (made_opaque S i (SourceRel (layers S ! i) v))" for X
      using at [of S'] by (simp add: PassthroughHost_KeptLayerFor)
  next
    fix S' assume "same_but_host S S'" "at_kept_root S' v \<and> IsWhiteouted S' v"
    then show "ensures (same_but_host S) X (made_opaque S i (SourceRel (layers S ! i) v))" for X
      using at [of S'] assms(2) by (simp add: at_kept_root_def)
  next
    fix S' path assume "same_but_host S S'"
    then have "KeptHidden S' v" using at by blast
    then show "ensures (same_but_host S) (do {
        _ \<leftarrow> EnsureHostParent E path;
        trym (host_do (Mkdir (io E) path md)) (\<lambda>_. do {
          e \<leftarrow> (if KeptHidden S' v then KeptMarkOpaque E v else ret ok);
          if e \<noteq> ok then do { _ \<leftarrow> host_do (Rmdir (io E) path); ret e }
          else do { _ \<leftarrow> UnhideLower E v; ret ok }
        }) }) (made_opaque S i (SourceRel (layers S ! i) v))"
      by (simp only: if_True) (intro ensures_bind ensures_trym host_only.host_rules
          ensures_then [OF KeptMarkOpaque_made [OF assms(1) k] UnhideLower_made])
  qed
  moreover have "same_but_host S S" unfolding same_but_host_def by (rule exI [of _ "host_state S"]) simp
  ultimately show ?thesis using assms(4) by (simp add: ensures_def)
qed

text \<open>What is below a directory that starts empty is the kept folder's own, or from above it.\<close>

lemma SourceRel_below:
  assumes "l_type L = Dir" "LayerCovers L v" "SourceRel L v \<noteq> []" "v \<noteq> []" "c \<noteq> []" "last v \<noteq> CHR ''/''"
  shows "SourceRel L (v @ ''/'' @ c) = SourceRel L v @ ''/'' @ c" "LayerCovers L (v @ ''/'' @ c)"
proof -
  have r: "RelUnder L (v @ ''/'' @ c) = (if RelUnder L v = [] then c else RelUnder L v @ ''/'' @ c)"
    using assms by (auto simp: RelUnder_def LayerCovers_def prefix_def split: if_splits)
  then show "SourceRel L (v @ ''/'' @ c) = SourceRel L v @ ''/'' @ c"
    using assms(3,5) by (simp add: SourceRel_def Let_def split: if_splits)
  show "LayerCovers L (v @ ''/'' @ c)" using assms(1,2) by (auto simp: LayerCovers_def prefix_def)
qed

lemma kept_only: "X\<lparr>kept := None\<rparr> = Y\<lparr>kept := None\<rparr> \<Longrightarrow> X = Y\<lparr>kept := kept X\<rparr>"
  by (cases X, cases Y) simp

lemma layers_from_hit:
  assumes "resolve_layer E S K v = Hit r" "r = no_hit \<or> r_layer r = Some K"
  shows "resolve_layers E S v (us @ K # ws) = no_hit \<or>
    (\<exists>L \<in> set (K # us). r_layer (resolve_layers E S v (us @ K # ws)) = Some L)"
proof (induction us)
  case (Cons M us)
  show ?case
  proof (cases "resolve_layer E S M v")
    case (Hit r)
    then have "r = no_hit \<or> r_layer r = Some M"
      by (auto simp: resolve_layer_def resolve_dir_def resolve_file_def resolve_zip_def zip_hit_def Let_def
          split: if_splits option.splits sum.splits)
    then show ?thesis using Hit by auto
  qed (use Cons in auto)
qed (use assms in auto)

lemma opaque_kept_below:
  assumes "kept_for v K" "SourceRel K v \<noteq> []" "v \<noteq> []" "kept K = Some k" "SourceRel K v \<in> opaque k"
    and "\<not> LayerMasked K (v @ ''/'' @ c)" "layers S = xs @ K # ys" "c \<noteq> []" "last v \<noteq> CHR ''/''"
  shows "r_kind (Resolve E S (v @ ''/'' @ c)) \<in> {HitNone, WriteLayer} \<or>
    (\<exists>L \<in> set (K # ys). r_layer (Resolve E S (v @ ''/'' @ c)) = Some L)"
proof (cases "passes E S (v @ ''/'' @ c)")
  case True
  let ?u = "v @ ''/'' @ c"
  have K: "l_type K = Dir" "l_rw K" "LayerCovers K v" using assms(1) by (simp_all add: kept_for_def)
  note rel = SourceRel_below [OF K(1,3) assms(2,3,8,9)]
  have "below (SourceRel K v) (SourceRel K ?u)" "SourceRel K ?u \<noteq> []" unfolding rel(1) by (simp_all add: below_def)
  then have "kept_hides k (SourceRel K ?u)" using assms(5) unfolding kept_hides_def by blast
  then have m: "KeptMasked K ?u" using assms(4) by (auto simp: KeptMasked_iff)
  have "\<exists>r. resolve_layer E S K ?u = Hit r \<and> (r = no_hit \<or> r_layer r = Some K)"
    using m K rel(2) assms(6) by (simp add: resolve_layer_def resolve_dir_def Let_def split: sum.split)
  then obtain r where "resolve_layer E S K ?u = Hit r" "r = no_hit \<or> r_layer r = Some K" by blast
  from layers_from_hit [OF this, of "rev ys" "rev xs"]
  have "Resolve E S ?u = no_hit \<or> (\<exists>L \<in> set (K # rev ys). r_layer (Resolve E S ?u) = Some L)"
    using Resolve_passes [OF True] by (simp add: assms(7))
  then show ?thesis by (auto simp: no_hit_def)
qed (use Resolve_stops in blast)

section \<open>Prefixes\<close>

lemma under_split: "x = old \<or> prefix (old @ ''/'') x \<longleftrightarrow> (\<exists>r. x = old @ r \<and> (r = [] \<or> hd r = CHR ''/''))"
  by (auto simp: prefix_def) (metis list.collapse)

lemma moved_name_append: "r = [] \<or> hd r = CHR ''/'' \<Longrightarrow> moved_name old new (old @ r) = new @ r"
  by (cases r) (auto simp: moved_name_def)

lemma rename_mask_eq: "rename_mask old new m = rewrite_prefix old new m"
proof (rule set_eqI)
  fix y
  let ?f = "\<lambda>x. if x = old then new else if prefix (old @ ''/'') x then new @ drop (length old) x else x"
  have f: "?f x = (if x = old \<or> prefix (old @ ''/'') x then moved_name old new x else x)" for x
    by (auto simp: moved_name_def prefix_def)
  show "y \<in> rename_mask old new m \<longleftrightarrow> y \<in> rewrite_prefix old new m"
    unfolding rewrite_prefix_def rename_mask_def Let_def f by (auto simp: image_iff)
qed

lemma rewrite_prefix_iff:
  "y \<in> rewrite_prefix old new m \<longleftrightarrow>
     y \<in> m \<and> y \<noteq> old \<and> \<not> prefix (old @ ''/'') y \<or> (\<exists>r. y = new @ r \<and> (r = [] \<or> hd r = CHR ''/'') \<and> old @ r \<in> m)"
proof -
  have "y \<in> rename_mask old new m \<longleftrightarrow>
     y \<in> m \<and> y \<noteq> old \<and> \<not> prefix (old @ ''/'') y \<or> (\<exists>x \<in> m. (x = old \<or> prefix (old @ ''/'') x) \<and> y = moved_name old new x)"
    by (auto simp: rename_mask_def Let_def)
  then show ?thesis unfolding rename_mask_eq under_split by (metis moved_name_append)
qed

section \<open>Properties\<close>

lemmas run_eval = demo_eval mem_open_def mem_make_def mem_unlink_def mem_dirs_def is_dir_def up_def put_node_def drop_node_def
  find_last_of_def

text \<open>
  C4: what is removed is gone. When unlink, rmdir or rename (of the old name) succeeds on a path
  outside the kept folders, the path resolves to nothing afterwards, whatever the lower layers
  and the host hold.
\<close>

theorem removed_names_are_gone:
  assumes "m \<in> {VfsUnlink E v, VfsRmdir E v, VfsRename E v w}"
    and "writelayer S \<noteq> []" "v \<noteq> []" "PassthroughHost S v = None" "fst (run_state m S) = ok"
  shows "r_kind (Resolve E (snd (run_state m S)) v) = HitNone"
proof -
  have "ensures (same_shape S) m (\<lambda>S'. r_kind (Resolve E S' v) = HitNone)"
    using removal_hides [OF assms(2-4)] assms(1) by auto
  then show ?thesis using assms(5) by (simp add: ensures_def)
qed

lemma demo_not_kept: "PassthroughHost (demo False h) ''d/old'' = None" "PassthroughHost (demo False h) ''d'' = None"
  by (simp_all add: PassthroughHost_def kept_for_def demo_def plain_layer_def LayerCovers_def)

theorem removed_names_are_gone_witness:
  "r_kind (Resolve mem_env (snd (run_state (VfsUnlink mem_env ''d/old'') (demo False demo_mem))) ''d/old'') = HitNone"
proof (rule removed_names_are_gone)
  show "VfsUnlink mem_env ''d/old'' \<in>
    {VfsUnlink mem_env ''d/old'', VfsRmdir mem_env ''d/old'', VfsRename mem_env ''d/old'' []}" by simp
  show "fst (run_state (VfsUnlink mem_env ''d/old'') (demo False demo_mem)) = ok"
    unfolding VfsUnlink_def by (simp add: demo_not_kept case_prod_beta hard_error_def mem_unlink_def demo_mem_def demo_nodes_def
        node_at_def WLPath_def)
  show "writelayer (demo False demo_mem) \<noteq> []" by (simp add: demo_def)
  show "PassthroughHost (demo False demo_mem) ''d/old'' = None" by (rule demo_not_kept)
qed simp

text \<open>
  C15: a directory made again over a deleted one starts empty. When mkdir succeeds on a name
  deleted outside the kept folders, the deletion mark is replaced by an opaque mark, and every path
  inside resolves to nothing or to what the writelayer itself holds. When it succeeds on a name
  deleted inside a kept folder (not the folder's own root), the folder's opaque mask has it
  afterwards, and a path inside is nothing, the writelayer's, or served by the kept folder itself
  or a layer above it.
\<close>

theorem mkdir_over_deleted_starts_empty:
  assumes "writelayer S \<noteq> []" "v \<noteq> []" "run_state (VfsMkdir E v md) S = (ok, S')"
  shows "(PassthroughHost S v = None \<and> v \<in> whiteoutSet S \<longrightarrow>
      whiteoutSet S' = whiteoutSet S - {v} \<and> opaqueSet S' = Set.insert v (opaqueSet S) \<and>
      r_kind (Resolve E S' (v @ ''/'' @ c)) \<in> {HitNone, WriteLayer}) \<and>
    (\<forall>i. KeptLayerFor S v = Some i \<and> SourceRel (layers S ! i) v \<noteq> [] \<and> KeptHidden S v \<longrightarrow>
      in_opaque (layers S' ! i) (SourceRel (layers S ! i) v) \<and>
      (\<not> LayerMasked (layers S ! i) (v @ ''/'' @ c) \<and> c \<noteq> [] \<and> last v \<noteq> CHR ''/'' \<longrightarrow>
        r_kind (Resolve E S' (v @ ''/'' @ c)) \<in> {HitNone, WriteLayer} \<or>
        (\<exists>L \<in> set (drop i (layers S')). r_layer (Resolve E S' (v @ ''/'' @ c)) = Some L)))"
proof (intro conjI impI allI)
  assume "PassthroughHost S v = None \<and> v \<in> whiteoutSet S"
  then have a: "PassthroughHost S v = None" "v \<in> whiteoutSet S" by blast+
  obtain h where rm: "run_state (RemoveWhiteout E v) S = ((), S\<lparr>host_state := h, whiteoutSet := whiteoutSet S - {v}\<rparr>)"
    using RemoveWhiteout_effect [OF assms(1), of E v] by auto
  let ?S1 = "S\<lparr>host_state := h, whiteoutSet := whiteoutSet S - {v}\<rparr>"
  obtain r h' where par: "run_state (EnsureWriteParent E v) ?S1 = (r, ?S1\<lparr>host_state := h'\<rparr>)"
    using EnsureWriteParent_effect [of E v ?S1] by auto
  let ?S2 = "?S1\<lparr>host_state := h'\<rparr>"
  obtain r' h'' where mk: "Mkdir (io E) (WLPath S v) md h' = (r', h'')" by fastforce
  let ?S3 = "?S2\<lparr>host_state := h''\<rparr>"
  obtain h3 where mo: "run_state (MarkOpaque E v) ?S3 = ((), ?S3\<lparr>host_state := h3, opaqueSet := Set.insert v (opaqueSet ?S3)\<rparr>)"
    using MarkOpaque_effect [of ?S3 E v] assms(1) by auto
  have S': "S' = ?S3\<lparr>host_state := h3, opaqueSet := Set.insert v (opaqueSet S)\<rparr>"
    using assms a rm par mk mo
    by (auto simp: VfsMkdir_def run_state_trym IsWhiteouted_def Let_def WLPath_def split: if_splits sum.splits)
  show "whiteoutSet S' = whiteoutSet S - {v}" "opaqueSet S' = Set.insert v (opaqueSet S)" by (simp_all add: S')
  have "hidden S' (v @ ''/'' @ c)" by (simp add: S' hidden_def below_def)
  then show "r_kind (Resolve E S' (v @ ''/'' @ c)) \<in> {HitNone, WriteLayer}"
    using Resolve_hidden [of S' "v @ ''/'' @ c" E] assms(1) by (auto simp: S')
next
  fix i
  let ?K = "layers S ! i" and ?u = "v @ ''/'' @ c"
  assume "KeptLayerFor S v = Some i \<and> SourceRel ?K v \<noteq> [] \<and> KeptHidden S v"
  then have a: "KeptLayerFor S v = Some i" "SourceRel ?K v \<noteq> []" "KeptHidden S v" by blast+
  have m: "made_opaque S i (SourceRel ?K v) S'" using kept_mkdir_opaque [OF a, of E md] assms(3) by simp
  then obtain k where k: "same_shape S S'" "i < length (layers S')" "kept (layers S' ! i) = Some k" "SourceRel ?K v \<in> opaque k"
    by (auto simp: made_opaque_def)
  show "in_opaque (layers S' ! i) (SourceRel ?K v)" using k by (simp add: in_opaque_def)
  assume "\<not> LayerMasked ?K ?u \<and> c \<noteq> [] \<and> last v \<noteq> CHR ''/''"
  then have f: "\<not> LayerMasked ?K ?u" "c \<noteq> []" "last v \<noteq> CHR ''/''" by blast+
  have "skeleton (layers S') = skeleton (layers S)" using k(1) by (simp add: same_shape_def)
  from kept_only [OF skeleton_nth(1) [OF this k(2)]] obtain j where j: "layers S' ! i = ?K\<lparr>kept := j\<rparr>" by blast
  have "kept_for v ?K" using a(1) by (auto simp: KeptLayerFor_def dest!: find_SomeD)
  then have "kept_for v (layers S' ! i)" by (simp add: j kept_for_skeleton)
  moreover have "SourceRel (layers S' ! i) v = SourceRel ?K v" by (simp add: j SourceRel_def RelUnder_def)
  moreover have "\<not> LayerMasked (layers S' ! i) ?u" using f(1) by (simp add: j LayerMasked_def)
  ultimately show "r_kind (Resolve E S' ?u) \<in> {HitNone, WriteLayer} \<or>
      (\<exists>L \<in> set (drop i (layers S')). r_layer (Resolve E S' ?u) = Some L)"
    using opaque_kept_below [of v "layers S' ! i" k c S' "take i (layers S')" "drop (Suc i) (layers S')" E]
      a(2) assms(2) k(3,4) f(2,3) id_take_nth_drop [OF k(2)] by (simp add: Cons_nth_drop_Suc [OF k(2)] del: set_drop_subset)
qed

definition demo_again :: "mem vfs" where
  "demo_again = (demo False demo_mem)\<lparr>whiteoutSet := {''d''}, layers := [plain_layer ''/low'' [] False 0,
     (plain_layer ''/keep'' ''save'' True 1)\<lparr>kept := Some \<lparr>deleted = {''x''}, opaque = {}\<rparr>\<rparr>]\<rparr>"

lemma demo_again_kept:
  "KeptLayerFor demo_again ''save/x'' = Some (Suc 0)" "KeptLayerFor demo_again ''d'' = None"
  "SourceRel (layers demo_again ! Suc 0) ''save/x'' = ''x''" "KeptHidden demo_again ''save/x''"
  by (simp_all add: KeptLayerFor_def KeptHidden_def demo_again_def upt_rec kept_for_def plain_layer_def LayerCovers_def SourceRel_def RelUnder_def
      in_deleted_def)

lemma demo_again_path:
  "source_path (layers demo_again ! Suc 0) ''x'' = ''/keep/x''" "find_last_of (CHR ''/'') ''/keep/x'' = Some 5"
  by (simp_all add: demo_again_def source_path_def plain_layer_def find_last_of_def)

definition demo_made :: mem where
  "demo_made = demo_mem\<lparr>nodes := (''/keep/x'', DirNode 0x1ED) # demo_nodes\<rparr>"

lemma demo_again_host:
  "readOnly demo_again = False" "mem_dirs ''/keep'' demo_mem = (Inr (), demo_mem)" "host_state demo_again = demo_mem"
  "mem_make ''/keep/x'' (DirNode 0x1ED) demo_mem = (Inr (), demo_made)"
  by (simp_all add: demo_again_def run_eval demo_made_def)

lemma demo_again_mark: "fst (run_state (KeptMarkOpaque mem_env ''save/x'') (demo_again\<lparr>host_state := demo_made\<rparr>)) = ok"
proof -
  have t: "fst (run_state (TouchMarker mem_env ''/keep/x/.wh..wh..opq'') S) = ok" if "host_state S = demo_made" for S
    using that by (simp add: TouchMarker_def parent_path_def run_state_trym case_prod_beta) (simp add: demo_made_def run_eval run_state_trym case_prod_beta O_CREAT_def)
  have "KeptLayerFor (demo_again\<lparr>host_state := demo_made\<rparr>) ''save/x'' = Some 1"
    using demo_again_kept(1) by (simp add: KeptLayerFor_def)
  then show ?thesis using t [of "demo_again\<lparr>host_state := demo_made\<rparr>"] demo_again_path(1)
    by (simp add: KeptMarkOpaque_def Let_def run_state_trym demo_again_kept case_prod_beta)
qed

lemma demo_again_masks: "writelayer demo_again = ''/wl''" "whiteoutSet demo_again = {''d''}" "opaqueSet demo_again = {}"
  by (simp_all add: demo_again_def)

theorem mkdir_over_deleted_starts_empty_witness:
  "opaqueSet (snd (run_state (VfsMkdir mem_env ''d'' 0x1ED) demo_again)) = {''d''} \<and>
   in_opaque (layers (snd (run_state (VfsMkdir mem_env ''save/x'' 0x1ED) demo_again)) ! 1) ''x''"
proof -
  have "fst (run_state (VfsMkdir mem_env ''d'' 0x1ED) demo_again) = ok"
    unfolding VfsMkdir_def
    by (simp add: PassthroughHost_KeptLayerFor demo_again_kept IsWhiteouted_def run_state_trym RemoveWhiteout_def EnsureWriteParent_def MutateWhiteouts_def
        ParentVRel_def WhiteoutPath_def BaseName_def MarkOpaque_def split: prod.split)
      (simp add: run_eval run_state_trym case_prod_beta demo_again_def)
  then obtain S1 where 1: "run_state (VfsMkdir mem_env ''d'' 0x1ED) demo_again = (ok, S1)" by (metis prod.collapse)
  have "fst (run_state (VfsMkdir mem_env ''save/x'' 0x1ED) demo_again) = ok"
    unfolding VfsMkdir_def
    by (simp add: PassthroughHost_KeptLayerFor demo_again_kept  run_state_trym EnsureHostParent_def at_kept_root_def
        demo_again_host demo_again_mark demo_again_path  case_prod_beta Let_def MarkerName_def find_last_of_def)
  then obtain S2 where 2: "run_state (VfsMkdir mem_env ''save/x'' 0x1ED) demo_again = (ok, S2)" by (metis prod.collapse)
  show ?thesis
    using mkdir_over_deleted_starts_empty [OF _ _ 1, of "[]"] mkdir_over_deleted_starts_empty [OF _ _ 2, of "[]"]
    by (simp add: 1 2 demo_again_kept PassthroughHost_KeptLayerFor demo_again_masks)
qed

text \<open>
  The two prefix rewrites agree. The rewriting of the writelayer's masks by a directory
  rename is the same function as that of a kept folder's masks, and it moves exactly the
  entries at or below the old name, each with the rest of its path.
\<close>

theorem prefix_rewrites_agree:
  "rename_mask old new m = rewrite_prefix old new m \<and>
   rename_mask old new m = {y \<in> m. y \<noteq> old \<and> \<not> prefix (old @ ''/'') y} \<union>
     {new @ r |r. (r = [] \<or> hd r = CHR ''/'') \<and> old @ r \<in> m}"
  unfolding rename_mask_eq using rewrite_prefix_iff [of _ old new m] by auto

text \<open>
  A failed link brings nothing back. When link returns an error, the masks and the layers
  are what they were: a deleted name stays deleted.
\<close>

theorem failed_link_keeps_deletions:
  assumes "fst (run_state (VfsLink E vf vt) S) \<noteq> ok"
  shows "same_but_host S (snd (run_state (VfsLink E vf vt) S))"
proof -
  have "fails_in (same_but_host S) (VfsLink E vf vt)"
    unfolding VfsLink_def Let_def
    by (intro fails_get fails_if fails_option fails_trym)
      (auto intro!: fails_rules fails_keeps[OF keeps_ret] keeps_ret keeps_if host_only.host_rules)
  moreover have "same_but_host S S" unfolding same_but_host_def by (rule exI [of _ "host_state S"]) simp
  ultimately show ?thesis using assms by (simp add: fails_in_def)
qed

theorem failed_link_keeps_deletions_witness:
  "same_but_host (demo False demo_mem) (snd (run_state (VfsLink mem_env ''none'' ''n'') (demo False demo_mem)))"
proof (rule failed_link_keeps_deletions)
  have "passes mem_env (demo False demo_mem) ''none''"
    by (simp add: passes_def hidden_def demo_mem_def demo_nodes_def mem_lstat_def node_at_def WLPath_def)
  then have "r_kind (Resolve mem_env (demo False demo_mem) ''none'') = HitNone"
    by (simp add: Resolve_passes resolve_layer_def resolve_dir_def Let_def no_hit_def demo_eval)
  then show "fst (run_state (VfsLink mem_env ''none'' ''n'') (demo False demo_mem)) \<noteq> ok"
    by (simp add: VfsLink_def)
qed

text \<open>
  C28: a failed create does bring the deleted name back. Outside the kept folders create drops
  the deletion mark before it asks the host for the file, so when the host then refuses (a full
  disk, a file in place of the parent) the name is no longer deleted.
\<close>

theorem failed_create_forgets_deletion:
  assumes "writelayer S \<noteq> []" "\<not> readOnly S" "PassthroughHost S v = None"
    and "isl (fst (run_state (VfsCreate E v md fl) S))"
  shows "whiteoutSet (snd (run_state (VfsCreate E v md fl) S)) = whiteoutSet S - {v}"
proof -
  obtain h where rm: "run_state (RemoveWhiteout E v) S = ((), S\<lparr>host_state := h, whiteoutSet := whiteoutSet S - {v}\<rparr>)"
    using RemoveWhiteout_effect [OF assms(1), of E v] by auto
  let ?S1 = "S\<lparr>host_state := h, whiteoutSet := whiteoutSet S - {v}\<rparr>"
  obtain r h' where "run_state (EnsureWriteParent E v) ?S1 = (r, ?S1\<lparr>host_state := h'\<rparr>)"
    using EnsureWriteParent_effect [of E v ?S1] by auto
  then show ?thesis using assms rm by (simp add: VfsCreate_def run_state_trym case_prod_beta split: sum.split)
qed

definition demo_blocked :: "mem vfs" where
  "demo_blocked = (demo False (demo_mem\<lparr>nodes := (''/wl/d'', FileNode 0x1A4 []) # demo_nodes\<rparr>))
     \<lparr>whiteoutSet := {''d/old''}\<rparr>"

theorem failed_create_forgets_deletion_witness:
  "whiteoutSet (snd (run_state (VfsCreate mem_env ''d/old'' 0x1A4 1) demo_blocked)) = {}"
proof -
  have p: "PassthroughHost demo_blocked ''d/old'' = None"
    using demo_not_kept(1) [of demo_mem] by (simp add: PassthroughHost_def demo_blocked_def)
  have "isl (fst (run_state (VfsCreate mem_env ''d/old'' 0x1A4 1) demo_blocked))"
    unfolding VfsCreate_def demo_blocked_def
    by (simp add: p [unfolded demo_blocked_def] run_state_trym RemoveWhiteout_def EnsureWriteParent_def MutateWhiteouts_def
        ParentVRel_def WhiteoutPath_def BaseName_def case_prod_beta)
      (simp add: run_eval)
  then show ?thesis
    using failed_create_forgets_deletion [of demo_blocked "''d/old''" mem_env "0x1A4" 1] p by (simp add: demo_blocked_def)
qed

text \<open>
  A guest cannot make a marker. In a kept folder a name that starts like a deletion marker
  is refused: create, mkdir and symlink return \<^verbatim>\<open>EINVAL\<close> and change nothing, a rename or a
  link to it does not succeed.
\<close>

theorem kept_marker_names_refused:
  assumes "\<not> readOnly S" "PassthroughHost S v = Some p" "MarkerName v"
  shows "run_state (VfsCreate E v md fl) S = (Inl EINVAL, S) \<and> run_state (VfsMkdir E v md) S = (Inl EINVAL, S) \<and>
    run_state (VfsSymlink E t v) S = (Inl EINVAL, S) \<and>
    fst (run_state (VfsRename E u v) S) \<noteq> ok \<and> fst (run_state (VfsLink E u v) S) \<noteq> ok"
proof -
  have pass: "PassthroughHost S' v \<noteq> None" if "same_shape S S'" for S'
    using KeptLayerFor_shape [OF that, of v] assms(2) by (auto simp: PassthroughHost_KeptLayerFor)
  have "ensures (same_shape S) (VfsRename E u v) (\<lambda>_. False)"
    unfolding VfsRename_def Let_def
    by (intro ensures_get ensures_if ensures_err ensures_trym) (auto simp: assms(3) pass intro!: shape.op_rules)
  moreover have "ensures (same_shape S) (VfsLink E u v) (\<lambda>_. False)"
    unfolding VfsLink_def Let_def
    by (intro ensures_get ensures_if ensures_err ensures_trym ensures_option) (auto simp: assms(3) pass intro!: shape.op_rules)
  ultimately show ?thesis
    using assms by (simp add: ensures_def VfsCreate_def VfsMkdir_def VfsSymlink_def)
qed

theorem kept_marker_names_refused_witness:
  "run_state (VfsCreate mem_env ''save/.wh.x'' 0x1A4 1) (demo False demo_mem) = (Inl EINVAL, demo False demo_mem)"
  using kept_marker_names_refused [of "demo False demo_mem" "''save/.wh.x''" "''/keep/.wh.x''" mem_env "0x1A4" 1 "[]" "[]"]
  by (simp add: PassthroughHost_def kept_for_def plain_layer_def LayerCovers_def source_path_def SourceRel_def RelUnder_def
      MarkerName_def find_last_of_def)

end
