(* ===== verification/ZipArchive.thy ===== *)
theory ZipArchive
  imports ZipScan
begin

text \<open>
  The zip format as a writer lays it out, independent of the scanner: records with their ZIP64 extra
  fields, the end record with its comment, and the ZIP64 end record with its locator. The scan of
  \<^verbatim>\<open>WalkCentralDir\<close> over such an archive visits every record.
\<close>

section \<open>Numbers\<close>

definition put16 :: "16 word \<Rightarrow> bytes" where
  "put16 w = [ucast w, ucast (drop_bit 8 w)]"

lemma length_put16 [simp]: "length (put16 w) = 2"
  by (simp add: put16_def)

lemma Rd16_put16 [simp]: "Rd16 (put16 w @ ys) = w"
  by (rule bit_word_eqI) (auto simp: Rd16_def put16_def bit_or_iff bit_push_bit_iff bit_ucast_iff bit_drop_bit_eq)

lemma Rd32_put32 [simp]: "Rd32 (put32 [] x @ ys) = x"
  by (simp add: Rd32_eq_rd32)

lemma Rd64_put64 [simp]: "Rd64 (put64 [] x @ ys) = x"
  by (simp add: Rd64_eq_rd64)

lemmas Rd64_put64_end [simp] = Rd64_put64 [where ys = "[]", unfolded append_Nil2]

lemma Rd16_take [simp]: "2 \<le> k \<Longrightarrow> Rd16 (take k p) = Rd16 p"
  by (simp add: Rd16_def)

lemma Rd32_take [simp]: "4 \<le> k \<Longrightarrow> Rd32 (take k p) = Rd32 p"
  by (simp add: Rd32_def)

lemma Rd64_take [simp]: "8 \<le> k \<Longrightarrow> Rd64 (take k p) = Rd64 p"
  by (simp add: Rd64_def upt_rec)

lemma unat_len16: "n < 65536 \<Longrightarrow> unat (of_nat n :: 16 word) = n"
  by (simp add: unat_of_nat)

lemma unat_len32: "n < 0xFFFFFFFF \<Longrightarrow> unat (of_nat n :: 32 word) = n"
  by (simp add: unat_of_nat)

section \<open>Records\<close>

text \<open>
  A 32-bit field holds the value, or all ones when the value is in the ZIP64 extra field; a value
  that does not fit has to be there. \<open>ce_wu\<close>, \<open>ce_wc\<close> and \<open>ce_wl\<close> say which of the two sizes
  and the local-header offset are; the ZIP64 field holds them in this order.
\<close>

record cd_entry =
  ce_a :: bytes
  ce_method :: "16 word"
  ce_b :: bytes
  ce_comp :: "64 word"
  ce_uncomp :: "64 word"
  ce_c :: bytes
  ce_lh :: "64 word"
  ce_wu :: bool
  ce_wc :: bool
  ce_wl :: bool
  ce_name :: bytes
  ce_before :: "(16 word \<times> bytes) list"
  ce_disk :: bytes
  ce_after :: bytes
  ce_comment :: bytes

definition put_wide :: "bool \<Rightarrow> 64 word \<Rightarrow> bytes" where
  "put_wide w x = put32 [] (if w then 0xFFFFFFFF else ucast x)"

definition enc_block :: "16 word \<times> bytes \<Rightarrow> bytes" where
  "enc_block b = put16 (fst b) @ put16 (of_nat (length (snd b))) @ snd b"

definition zip64_data :: "cd_entry \<Rightarrow> bytes" where
  "zip64_data e = (if ce_wu e then put64 [] (ce_uncomp e) else []) @ (if ce_wc e then put64 [] (ce_comp e) else []) @
     (if ce_wl e then put64 [] (ce_lh e) else []) @ ce_disk e"

definition enc_extra :: "cd_entry \<Rightarrow> bytes" where
  "enc_extra e = concat (map enc_block (ce_before e)) @
     (if ce_wu e \<or> ce_wc e \<or> ce_wl e then enc_block (1, zip64_data e) else []) @ ce_after e"

definition enc_cd :: "cd_entry \<Rightarrow> bytes" where
  "enc_cd e = put32 [] CD_SIG @ ce_a e @ put16 (ce_method e) @ ce_b e @ put_wide (ce_wc e) (ce_comp e) @
     put_wide (ce_wu e) (ce_uncomp e) @ put16 (of_nat (length (ce_name e))) @ put16 (of_nat (length (enc_extra e))) @
     put16 (of_nat (length (ce_comment e))) @ ce_c e @ put_wide (ce_wl e) (ce_lh e) @ ce_name e @ enc_extra e @ ce_comment e"

definition cd_fits :: "cd_entry \<Rightarrow> bool" where
  "cd_fits e \<longleftrightarrow> length (ce_a e) = 6 \<and> length (ce_b e) = 8 \<and> length (ce_c e) = 8 \<and>
     (ce_wu e \<or> ce_uncomp e < 0xFFFFFFFF) \<and> (ce_wc e \<or> ce_comp e < 0xFFFFFFFF) \<and> (ce_wl e \<or> ce_lh e < 0xFFFFFFFF) \<and>
     list_all (\<lambda>b. fst b \<noteq> 1) (ce_before e) \<and>
     length (ce_name e) < 65536 \<and> length (enc_extra e) < 65536 \<and> length (ce_comment e) < 65536"

lemma put_wide_length [simp]: "length (put_wide w x) = 4"
  by (simp add: put_wide_def)

lemma Rd32_put_wide [simp]: "Rd32 (put_wide w x @ ys) = (if w then 0xFFFFFFFF else ucast x)"
  by (simp add: put_wide_def)

lemma narrow:
  assumes "(x :: 64 word) < 0xFFFFFFFF"
  shows "unat (ucast x :: 32 word) = unat x" "(ucast x :: 32 word) \<noteq> 0xFFFFFFFF"
proof -
  have u: "unat x < 0xFFFFFFFF" using assms by (simp add: word_less_nat_alt)
  then show v: "unat (ucast x :: 32 word) = unat x" by (simp add: unsigned_ucast_eq take_bit_nat_eq_self)
  show "(ucast x :: 32 word) \<noteq> 0xFFFFFFFF" using u v by auto
qed

lemma length_enc_cd:
  "cd_fits e \<Longrightarrow> length (enc_cd e) = 46 + length (ce_name e) + length (enc_extra e) + length (ce_comment e)"
  by (simp add: enc_cd_def cd_fits_def)

lemma enc_cd_fields:
  assumes "cd_fits e"
  shows "Rd32 (enc_cd e @ r) = CD_SIG" "Rd16 (drop 10 (enc_cd e @ r)) = ce_method e"
    "Rd32 (drop 20 (enc_cd e @ r)) = (if ce_wc e then 0xFFFFFFFF else ucast (ce_comp e))"
    "Rd32 (drop 24 (enc_cd e @ r)) = (if ce_wu e then 0xFFFFFFFF else ucast (ce_uncomp e))"
    "unat (Rd16 (drop 28 (enc_cd e @ r))) = length (ce_name e)"
    "unat (Rd16 (drop 30 (enc_cd e @ r))) = length (enc_extra e)"
    "unat (Rd16 (drop 32 (enc_cd e @ r))) = length (ce_comment e)"
    "Rd32 (drop 42 (enc_cd e @ r)) = (if ce_wl e then 0xFFFFFFFF else ucast (ce_lh e))"
    "take (length (ce_name e)) (drop 46 (enc_cd e @ r)) = ce_name e"
    "take (length (enc_extra e)) (drop (46 + length (ce_name e)) (enc_cd e @ r)) = enc_extra e"
  using assms by (simp_all add: cd_fits_def enc_cd_def unat_len16)

text \<open>The scan of the extra field passes the blocks in front and reads the offset from the ZIP64 one.\<close>

lemma zip64_skip:
  assumes "extra = pre @ enc_block b @ rest" "fst b \<noteq> 1" "length (snd b) < 65536"
  shows "zip64_offset extra (length pre) u c l = zip64_offset extra (length (pre @ enc_block b)) u c l"
proof -
  have n: "length (pre @ enc_block b) = length pre + (4 + length (snd b))" by (simp add: enc_block_def)
  show ?thesis
    unfolding n zip64_offset.simps [of extra "length pre"] using assms by (simp add: enc_block_def unat_len16 Let_def)
qed

lemma zip64_skip_all:
  "extra = pre @ concat (map enc_block bs) @ rest \<Longrightarrow> list_all (\<lambda>b. fst b \<noteq> 1) bs \<Longrightarrow> length extra < 65536 \<Longrightarrow>
   zip64_offset extra (length pre) u c l = zip64_offset extra (length (pre @ concat (map enc_block bs))) u c l"
proof (induction bs arbitrary: pre)
  case (Cons b bs)
  have "zip64_offset extra (length pre) u c l = zip64_offset extra (length (pre @ enc_block b)) u c l"
  proof (rule zip64_skip [of _ _ _ "concat (map enc_block bs) @ rest"])
    have "length (enc_block b) \<le> length extra" using Cons.prems(1) by simp
    then show "length (snd b) < 65536" using Cons.prems(3) by (simp add: enc_block_def)
  qed (use Cons.prems in simp_all)
  also have "\<dots> = zip64_offset extra (length ((pre @ enc_block b) @ concat (map enc_block bs))) u c l"
    by (rule Cons.IH) (use Cons.prems in simp_all)
  finally show ?case by simp
qed simp

lemma zip64_found:
  assumes "cd_fits e" "ce_wl e"
  shows "zip64_offset (enc_extra e) 0 (if ce_wu e then 0xFFFFFFFF else ucast (ce_uncomp e))
    (if ce_wc e then 0xFFFFFFFF else ucast (ce_comp e)) l = unat (ce_lh e)"
proof -
  let ?u = "if ce_wu e then 0xFFFFFFFF else ucast (ce_uncomp e) :: 32 word"
  let ?c = "if ce_wc e then 0xFFFFFFFF else ucast (ce_comp e) :: 32 word"
  let ?pre = "concat (map enc_block (ce_before e))"
  have x: "enc_extra e = ?pre @ enc_block (1, zip64_data e) @ ce_after e" using assms(2) by (simp add: enc_extra_def)
  have small: "length (zip64_data e) < 65536" using assms(1) x by (simp add: cd_fits_def enc_block_def)
  have wu: "?u = 0xFFFFFFFF \<longleftrightarrow> ce_wu e" and wc: "?c = 0xFFFFFFFF \<longleftrightarrow> ce_wc e"
    using assms(1) narrow(2) by (auto simp: cd_fits_def)
  have "zip64_offset (enc_extra e) 0 ?u ?c l = zip64_offset (enc_extra e) (length ?pre) ?u ?c l"
    using zip64_skip_all [of "enc_extra e" "[]" "ce_before e" "enc_block (1, zip64_data e) @ ce_after e"] assms(1) x
    by (simp add: cd_fits_def)
  also have "\<dots> = unat (ce_lh e)"
    unfolding zip64_offset.simps [of "enc_extra e" "length ?pre"] wu wc Let_def
    using small assms(2) by (simp add: x enc_block_def unat_len16) (simp add: zip64_data_def)
  finally show ?thesis .
qed

section \<open>The end of the archive\<close>

text \<open>
  The end record's two fields the scan reads may be all ones (\<open>ze_wn\<close>, \<open>ze_wo\<close>) when a ZIP64 end
  record is there and have to be when the numbers do not fit; the comment must not make a second
  signature.
\<close>

record zip64_end =
  z_a :: bytes
  z_b :: bytes
  z_ext :: bytes
  z_loc_disk :: bytes
  z_loc_total :: bytes

record zip_end =
  ze_zip64 :: "zip64_end option"
  ze_wn :: bool
  ze_wo :: bool
  ze_disks :: bytes
  ze_cdsize :: bytes
  ze_comment :: bytes

definition enc_zip64 :: "nat \<Rightarrow> nat \<Rightarrow> nat \<Rightarrow> zip64_end \<Rightarrow> bytes" where
  "enc_zip64 n cdoff at z = put32 [] EOCD64_SIG @ z_a z @ put64 [] (of_nat n) @ z_b z @ put64 [] (of_nat cdoff) @ z_ext z @
     put32 [] LOC64_SIG @ z_loc_disk z @ put64 [] (of_nat at) @ z_loc_total z"

definition enc_end :: "nat \<Rightarrow> nat \<Rightarrow> zip_end \<Rightarrow> bytes" where
  "enc_end n cdoff z = put32 [] EOCD_SIG @ ze_disks z @ put16 (if ze_wn z then 0xFFFF else of_nat n) @ ze_cdsize z @
     put32 [] (if ze_wo z then 0xFFFFFFFF else of_nat cdoff) @ put16 (of_nat (length (ze_comment z))) @ ze_comment z"

definition zip_archive :: "bytes \<Rightarrow> cd_entry list \<Rightarrow> zip_end \<Rightarrow> bytes" where
  "zip_archive d es z = d @ concat (map enc_cd es) @
     (case ze_zip64 z of None \<Rightarrow> []
      | Some w \<Rightarrow> enc_zip64 (length es) (length d) (length (d @ concat (map enc_cd es))) w) @
     enc_end (length es) (length d) z"

definition archive_fits :: "bytes \<Rightarrow> cd_entry list \<Rightarrow> zip_end \<Rightarrow> bool" where
  "archive_fits d es z \<longleftrightarrow> list_all cd_fits es \<and> length (ze_disks z) = 6 \<and> length (ze_cdsize z) = 4 \<and>
     length (ze_comment z) < 65536 \<and>
     list_all (\<lambda>j. Rd32 (drop (j + 1) (enc_end (length es) (length d) z)) \<noteq> EOCD_SIG) [0..<length (ze_comment z)] \<and>
     (ze_wn z \<or> length es < 0xFFFF) \<and> (ze_wo z \<or> length d < 0xFFFFFFFF) \<and>
     (case ze_zip64 z of None \<Rightarrow> \<not> ze_wn z \<and> \<not> ze_wo z
      | Some w \<Rightarrow> length (z_a w) = 28 \<and> length (z_b w) = 8 \<and> length (z_loc_disk w) = 4 \<and> length (z_loc_total w) = 4)"

lemma length_enc_end: "length (ze_disks z) = 6 \<Longrightarrow> length (ze_cdsize z) = 4 \<Longrightarrow>
    length (enc_end n k z) = 22 + length (ze_comment z)"
  by (simp add: enc_end_def)

lemma find_eocd_down:
  "Rd32 (drop i buf) = EOCD_SIG \<Longrightarrow> \<forall>j < m. Rd32 (drop (i + j + 1) buf) \<noteq> EOCD_SIG \<Longrightarrow> find_eocd buf (i + m) = Some i"
proof (induction m)
  case 0
  then show ?case by (subst find_eocd.simps) simp
next
  case (Suc m)
  then have "Rd32 (drop (Suc (i + m)) buf) \<noteq> EOCD_SIG" by (auto dest: spec [of _ m])
  then show ?case using Suc by (subst find_eocd.simps) simp
qed

section \<open>Walking it\<close>

context byte_source
begin

lemma cd_record_ok:
  assumes c: "c = pre @ enc_cd e @ post" and fits: "cd_fits e"
  shows "cd_record rd (length pre) =
    Inr (Some (str_of_bytes (ce_name e), unat (ce_method e), unat (ce_lh e), length (pre @ enc_cd e)))"
proof -
  note len = length_enc_cd [OF fits]
  have small: "length pre + 46 + length (ce_name e) + length (enc_extra e) + length (ce_comment e) < W64"
    using bounded len by (simp add: c)
  define X where "X = enc_cd e @ post"
  note fields = enc_cd_fields [OF fits, of post, folded X_def]
  have r: "preadAll rd 46 (length pre) = Inr (Some (take 46 X))"
    using preadAll_ok [of "length pre" 46] len by (simp add: c clip_def X_def)
  have n: "(if length (ce_name e) \<noteq> 0 then preadAll rd (length (ce_name e)) (u64 (length pre + 46)) else Inr (Some [])) =
      Inr (Some (ce_name e))"
    using preadAll_ok [of "length pre + 46" "length (ce_name e)"] len small fields(9)
    by (simp add: c clip_def u64_id X_def)
  have x: "preadAll rd (length (enc_extra e)) (u64 (length pre + 46 + length (ce_name e))) = Inr (Some (enc_extra e))"
    using preadAll_ok [of "length pre + 46 + length (ce_name e)" "length (enc_extra e)"] len small fields(10)
    by (simp add: c clip_def u64_id X_def add.assoc)
  have nx: "u64 (length pre + (46 + length (ce_name e) + length (enc_extra e) + length (ce_comment e))) = length (pre @ enc_cd e)"
    using small len by (simp add: u64_id)
  show ?thesis
  proof (cases "ce_wl e")
    case True
    then have "enc_extra e \<noteq> []" by (simp add: enc_extra_def enc_block_def put16_def)
    then show ?thesis
      unfolding cd_record_def r
      using n nx x fields True zip64_found [OF fits True] by (simp add: drop_take Let_def)
  next
    case False
    then have "ce_lh e < 0xFFFFFFFF" using fits by (simp add: cd_fits_def)
    note lh = narrow [OF this]
    have "unat (ucast (ce_lh e) :: 32 word) \<noteq> 0xFFFFFFFF" using lh(1) \<open>ce_lh e < 0xFFFFFFFF\<close> by (simp add: word_less_nat_alt)
    then show ?thesis
      unfolding cd_record_def r
      using n nx fields False lh(1) by (simp add: drop_take Let_def)
  qed
qed

end

text \<open>What a walk over the records does to the caller's state.\<close>

fun visit :: "(string \<Rightarrow> nat \<Rightarrow> nat \<Rightarrow> 's \<Rightarrow> bool \<times> 's) \<Rightarrow> cd_entry list \<Rightarrow> 's \<Rightarrow> 's" where
  "visit cb [] s = s"
| "visit cb (e # es) s = (case cb (str_of_bytes (ce_name e)) (unat (ce_method e)) (unat (ce_lh e)) s of
     (go, s) \<Rightarrow> if go then visit cb es s else s)"

context byte_source
begin

lemma walk_ok:
  assumes "c = pre @ concat (map enc_cd es) @ post" "list_all cd_fits es"
  shows "walk_records rd cb (i + length es) i (length pre) s = Inr (True, visit cb es s)"
  using assms
proof (induction es arbitrary: pre i s)
  case Nil
  then show ?case by (subst walk_records.simps) simp
next
  case (Cons e es)
  have "cd_record rd (length pre) =
      Inr (Some (str_of_bytes (ce_name e), unat (ce_method e), unat (ce_lh e), length (pre @ enc_cd e)))"
    by (rule cd_record_ok [of _ _ "concat (map enc_cd es) @ post"]) (use Cons.prems in simp_all)
  moreover have "walk_records rd cb (Suc i + length es) (Suc i) (length (pre @ enc_cd e)) t = Inr (True, visit cb es t)" for t
    by (rule Cons.IH) (use Cons.prems in simp_all)
  ultimately show ?case
    by (subst walk_records.simps) (simp split: prod.split)
qed

lemma central_dir_ok:
  assumes c: "c = zip_archive d es z" and fits: "archive_fits d es z"
  shows "central_dir rd (length c) = Inr (Some (length es, length d))"
proof -
  let ?E = "enc_end (length es) (length d) z" and ?k = "length (ze_comment z)"
  let ?tail = "min (length c) (22 + 65535)"
  define recs where "recs = d @ concat (map enc_cd es)"
  define mid where "mid = (case ze_zip64 z of None \<Rightarrow> [] | Some w \<Rightarrow> enc_zip64 (length es) (length d) (length recs) w)"
  have split: "c = recs @ mid @ ?E" unfolding c zip_archive_def mid_def recs_def by simp
  have E: "length ?E = 22 + ?k" "?k < 65536" using fits by (simp_all add: archive_fits_def length_enc_end)
  have big: "22 + ?k \<le> length c" "?k + 22 \<le> ?tail" using E by (simp_all add: split)
  define buf where "buf = drop (length c - ?tail) c"
  have r: "preadAll rd ?tail (length c - ?tail) = Inr (Some buf)"
    using preadAll_ok [of "length c - ?tail" ?tail] by (simp add: clip_def buf_def)
  have at: "drop (?tail - 22 - ?k) buf = ?E"
  proof -
    have "?tail - 22 - ?k + (length c - ?tail) = length (recs @ mid)" using big E by (simp add: split)
    then have "drop (?tail - 22 - ?k) buf = drop (length (recs @ mid)) c" by (simp only: buf_def drop_drop)
    also have "\<dots> = ?E" by (simp add: split)
    finally show ?thesis .
  qed
  have later: "Rd32 (drop (?tail - 22 - ?k + j + 1) buf) \<noteq> EOCD_SIG" if "j < ?k" for j
  proof -
    have "?tail - 22 - ?k + j + 1 = j + 1 + (?tail - 22 - ?k)" by (simp only: ac_simps)
    then have "drop (?tail - 22 - ?k + j + 1) buf = drop (j + 1) ?E" by (simp only: at [symmetric] drop_drop)
    then show ?thesis using fits that by (simp add: archive_fits_def list_all_iff)
  qed
  have f: "find_eocd buf (?tail - 22) = Some (?tail - 22 - ?k)"
    using find_eocd_down [of "?tail - 22 - ?k" buf ?k] later at big(2) by (simp add: enc_end_def)
  have F: "length (ze_disks z) = 6" "length (ze_cdsize z) = 4" "ze_wn z \<or> length es < 0xFFFF" "ze_wo z \<or> length d < 0xFFFFFFFF"
    using fits by (simp_all only: archive_fits_def)
  have n16: "unat (Rd16 (drop 10 ?E)) = (if ze_wn z then 0xFFFF else length es)"
    and o32: "unat (Rd32 (drop 16 ?E)) = (if ze_wo z then 0xFFFFFFFF else length d)"
    using F unat_len16 [of "length es"] unat_len32 [of "length d"] by (auto simp: enc_end_def)
  show ?thesis
  proof (cases "ze_wn z \<or> ze_wo z")
    case False
    then show ?thesis
      using big r f at n16 o32 F unfolding central_dir_def Let_def by auto
  next
    case True
    then obtain w where w: "ze_zip64 z = Some w" using fits by (auto simp: archive_fits_def split: option.splits)
    have lw: "length (z_a w) = 28" "length (z_b w) = 8" "length (z_loc_disk w) = 4" "length (z_loc_total w) = 4"
      using fits w by (simp_all add: archive_fits_def)
    have m: "mid = enc_zip64 (length es) (length d) (length recs) w" by (simp add: mid_def w)
    have lm: "length mid = 76 + length (z_ext w)" using lw by (simp add: m enc_zip64_def)
    have pos: "length c - ?tail + (?tail - 22 - ?k) = length (recs @ mid)" using big E by (simp add: split)
    have lens: "length recs < W64" "length d < W64" "length es < W64"
    proof -
      show "length recs < W64" "length d < W64" using bounded by (simp_all add: split recs_def)
      have "length es \<le> length (concat (map enc_cd es))"
        by (induction es) (simp_all add: enc_cd_def)
      then show "length es < W64" using bounded by (simp add: split recs_def)
    qed
    have "preadAll rd 20 (length (recs @ mid) - 20) = Inr (Some (clip c 20 (length (recs @ mid) - 20)))"
      using preadAll_ok lm by (simp add: split)
    moreover have "clip c 20 (length (recs @ mid) - 20) =
        put32 [] LOC64_SIG @ z_loc_disk w @ put64 [] (of_nat (length recs)) @ z_loc_total w"
      using lm lw by (simp add: split clip_def m enc_zip64_def)
    ultimately have loc: "preadAll rd 20 (length (recs @ mid) - 20) =
        Inr (Some (put32 [] LOC64_SIG @ z_loc_disk w @ put64 [] (of_nat (length recs)) @ z_loc_total w))" by simp
    have "preadAll rd 56 (length recs) = Inr (Some (clip c 56 (length recs)))"
      using preadAll_ok lm by (simp add: split)
    moreover have "clip c 56 (length recs) = put32 [] EOCD64_SIG @ z_a w @ put64 [] (of_nat (length es)) @ z_b w @
        put64 [] (of_nat (length d))"
      using lw by (simp add: split clip_def m enc_zip64_def)
    ultimately have z64: "preadAll rd 56 (length recs) = Inr (Some (put32 [] EOCD64_SIG @ z_a w @
        put64 [] (of_nat (length es)) @ z_b w @ put64 [] (of_nat (length d))))" by simp
    have two: "unat (Rd32 (drop 16 ?E)) = 0xFFFFFFFF \<or> unat (Rd16 (drop 10 ?E)) = 0xFFFF" using n16 o32 True by auto
    show ?thesis
      unfolding central_dir_def Let_def
      using big r f at two pos loc z64 lm lw lens by simp
  qed
qed

lemma WalkCentralDir_ok:
  assumes "c = zip_archive d es z" "archive_fits d es z"
  shows "WalkCentralDir rd (length c) cb s = Inr (True, visit cb es s)"
proof -
  have "walk_records rd cb (0 + length es) 0 (length d) s = Inr (True, visit cb es s)"
    by (rule walk_ok) (use assms in \<open>simp_all add: zip_archive_def archive_fits_def\<close>)
  then show ?thesis using central_dir_ok [OF assms] by (simp add: WalkCentralDir_def)
qed

end

end
