(* ===== verification/ZipProps.thy ===== *)
theory ZipProps
  imports ZipLayer ZipArchive DeltaCorrect
begin

text \<open>
  The zip side: archives written by an independent specification of the format are scanned
  back, entries are reachable by listing directories, archive links stay inside the archive,
  and a stored entry reads as its bytes even when the archive itself is a delta.
\<close>

section \<open>The index as a tree\<close>

text \<open>What listing directories from the root on reaches.\<close>

inductive reached :: "zip_index \<Rightarrow> string \<Rightarrow> bool" for I :: zip_index where
  root: "reached I []"
| child: "reached I d \<Longrightarrow> dirChildren I d = Some cs \<Longrightarrow> n \<in> cs \<Longrightarrow> reached I (if d = [] then n else d @ ''/'' @ n)"

text \<open>No directory loses a child.\<close>

definition grows :: "zip_index \<Rightarrow> zip_index \<Rightarrow> bool" where
  "grows I J \<longleftrightarrow> (\<forall>d cs. dirChildren I d = Some cs \<longrightarrow> (\<exists>cs'. dirChildren J d = Some cs' \<and> cs \<subseteq> cs'))"

lemma grows_refl [simp]: "grows I I" by (simp add: grows_def)

lemma grows_trans: "grows I J \<Longrightarrow> grows J K \<Longrightarrow> grows I K"
  unfolding grows_def by (metis subset_trans)

lemma reached_grows: "reached I n \<Longrightarrow> grows I J \<Longrightarrow> reached J n"
proof (induction rule: reached.induct)
  case (child d cs n)
  then obtain cs' where "dirChildren J d = Some cs'" "n \<in> cs'" unfolding grows_def by blast
  then show ?case using child.IH [OF child.prems] by (rule reached.child [rotated 1])
qed (rule reached.root)

lemma add_child_grows: "grows I (add_child p c I)"
  by (auto simp: grows_def add_child_def)

lemma add_child_has: "\<exists>cs. dirChildren (add_child p c I) p = Some cs \<and> c \<in> cs"
  by (simp add: add_child_def)

lemma RegisterParents_grows: "grows I (RegisterParents I cur)"
proof (induction I cur rule: RegisterParents.induct)
  case (1 I cur)
  show ?case
  proof (cases "find_last_of (CHR ''/'') cur")
    case None
    then show ?thesis by (subst RegisterParents.simps) (simp add: add_child_grows)
  next
    case (Some k)
    let ?p = "take k cur" and ?c = "drop (k + 1) cur"
    have "grows (add_child ?p ?c I) (RegisterParents (add_child ?p ?c I) ?p)" if "?c \<noteq> []" "?p \<noteq> []"
      using 1 [OF Some refl refl that(1) refl that(2)] by simp
    then show ?thesis using Some
      by (subst RegisterParents.simps) (auto simp: Let_def add_child_grows intro: grows_trans [OF add_child_grows])
  qed
qed

text \<open>A name whose segments are all non-empty: no slash in front, none doubled, none at the end.\<close>

definition proper :: "string \<Rightarrow> bool" where
  "proper n \<longleftrightarrow> n \<noteq> [] \<and> [] \<notin> set (segments [] n)"

lemma segments_slash: "segments acc (a @ CHR ''/'' # b) = segments acc a @ segments [] b"
  by (induction acc a rule: segments.induct) auto

lemma segments_plain: "CHR ''/'' \<notin> set b \<Longrightarrow> segments acc b = [acc @ b]"
  by (induction acc b rule: segments.induct) auto

lemma RegisterParents_reached:
  "proper cur \<Longrightarrow> reached (RegisterParents I cur) cur"
proof (induction I cur rule: RegisterParents.induct)
  case (1 I cur)
  show ?case
  proof (cases rule: find_last_of_cases [of "CHR ''/''" cur])
    case none
    then have "RegisterParents I cur = add_child [] cur I" using "1.prems"
      by (subst RegisterParents.simps) (simp add: proper_def)
    then show ?thesis
      using reached.child [OF reached.root, of "add_child [] cur I" _ cur] add_child_has [of "[]" cur I] by auto
  next
    case (found a b)
    have f: "find_last_of (CHR ''/'') cur = Some (length a)" using found by simp
    have t: "take (length a) cur = a" "drop (length a + 1) cur = b" using found by simp_all
    have seg: "segments [] cur = segments [] a @ [b]" using found by (simp add: segments_slash segments_plain)
    have ne: "a \<noteq> []" "b \<noteq> []" "proper a" using "1.prems" seg by (auto simp: proper_def)
    have R: "RegisterParents I cur = RegisterParents (add_child a b I) a"
      using f t ne by (subst RegisterParents.simps) (simp add: Let_def)
    have "reached (RegisterParents (add_child a b I) a) a"
      using "1.IH" [OF f refl refl _ refl] t ne by (simp add: found(1))
    moreover obtain cs where "dirChildren (RegisterParents (add_child a b I) a) a = Some cs" "b \<in> cs"
      using add_child_has [of a b I] RegisterParents_grows [of "add_child a b I" a] unfolding grows_def by blast
    ultimately show ?thesis unfolding R using reached.child [of _ a cs b] ne(1) found by auto
  qed
qed

definition tree_ok :: "zip_index \<Rightarrow> bool" where
  "tree_ok I \<longleftrightarrow> (\<forall>n e. byName I n = Some e \<longrightarrow> ze_name e = n \<and> (proper n \<longrightarrow> reached I n) \<and>
     (ze_isDir e \<longrightarrow> \<not> ze_symlink e \<and> \<not> ze_stored e))"

lemma byName_add_child [simp]: "byName (add_child p c I) = byName I"
  by (simp add: add_child_def)

lemma byName_RegisterParents [simp]: "byName (RegisterParents I cur) = byName I"
proof (induction I cur rule: RegisterParents.induct)
  case (1 I cur)
  show ?case
  proof (cases "find_last_of (CHR ''/'') cur")
    case None
    then show ?thesis by (subst RegisterParents.simps) simp
  next
    case (Some k)
    show ?thesis using 1 [OF Some refl refl _ refl] Some
      by (subst RegisterParents.simps) (simp add: Let_def)
  qed
qed

lemma tree_ok_step:
  assumes "tree_ok I" "grows I J" "byName J = (byName I)(v \<mapsto> e)" "ze_name e = v"
    "ze_isDir e \<Longrightarrow> \<not> ze_symlink e \<and> \<not> ze_stored e" "proper v \<Longrightarrow> reached J v"
  shows "tree_ok J"
  using assms reached_grows [OF _ assms(2)] by (auto simp: tree_ok_def)

lemma tree_ok_register:
  assumes "tree_ok I" "byName I' = (byName I)(v \<mapsto> e)" "grows I I'" "ze_name e = v"
    "ze_isDir e \<Longrightarrow> \<not> ze_symlink e \<and> \<not> ze_stored e"
  shows "tree_ok (RegisterParents I' v)"
  by (rule tree_ok_step [OF assms(1) grows_trans [OF assms(3) RegisterParents_grows]])
    (use assms RegisterParents_reached in auto)

lemma index_entry_tree:
  assumes r: "index_entry rd lh i st I = Inr J" and I: "tree_ok I"
  shows "tree_ok J"
proof -
  consider (same) "J = I" | (entry) z raw where "st = Some z" "zs_name z = Some raw" "NormalizeVPath raw \<noteq> []"
    using r by (auto simp: index_entry_def Let_def split: option.splits if_splits)
  then show ?thesis
  proof cases
    case (entry z raw)
    show ?thesis
    proof (cases "raw \<noteq> [] \<and> last raw = CHR ''/''")
      case True
      show ?thesis using r entry True unfolding index_entry_def Let_def
        by (simp only: option.case if_False if_True simp_thms sum.inject, elim subst [where P = tree_ok])
          (rule tree_ok_register [OF I], auto simp: grows_def)
    next
      case False
      then obtain d where d: "stored_offset rd lh z (NormalizeVPath raw) = Inr d"
        using r entry by (auto simp: index_entry_def Let_def split: sum.splits)
      show ?thesis using r entry False d unfolding index_entry_def Let_def
        by (simp only: option.case sum.case if_False simp_thms sum.inject, elim subst [where P = tree_ok])
          (rule tree_ok_register [OF I], auto simp: grows_def)
    qed
  qed (use I in simp)
qed

lemma index_entries_tree: "index_entries rd lh i sts I = Inr J \<Longrightarrow> tree_ok I \<Longrightarrow> tree_ok J"
  by (induction sts arbitrary: i I) (auto simp: bindE_Inr dest: index_entry_tree)

lemma map_sum_Inr: "map_sum f g x = Inr y \<longleftrightarrow> (\<exists>z. x = Inr z \<and> g z = y)"
  by (cases x) auto

lemma BuildZipIndex_tree: "BuildZipIndex Z lib src name = Inr (Some I) \<Longrightarrow> tree_ok I"
  by (auto simp: BuildZipIndex_def Let_def bindE_Inr map_sum_Inr split: option.splits dest!: index_entries_tree)
    (simp_all add: tree_ok_def)

section \<open>Archive links\<close>

lemma segments_no_slash: "CHR ''/'' \<notin> set acc \<Longrightarrow> \<forall>s \<in> set (segments acc p). CHR ''/'' \<notin> set s"
  by (induction acc p rule: segments.induct) auto

definition good_seg :: "string \<Rightarrow> bool" where
  "good_seg s \<longleftrightarrow> s \<noteq> [] \<and> s \<noteq> ''.'' \<and> s \<noteq> ''..'' \<and> CHR ''/'' \<notin> set s"

lemma push_segs_good:
  "push_segs xs ss = Some ys \<Longrightarrow> \<forall>s \<in> set xs. good_seg s \<Longrightarrow> \<forall>s \<in> set ss. CHR ''/'' \<notin> set s \<Longrightarrow> \<forall>s \<in> set ys. good_seg s"
proof (induction xs ss rule: push_segs.induct)
  case (2 xs s ss)
  consider (up) "s = ''..''" | (keep) "s \<noteq> ''..''" "s \<noteq> [] \<and> s \<noteq> ''.''" | (skip) "s \<noteq> ''..''" "\<not> (s \<noteq> [] \<and> s \<noteq> ''.'')" by blast
  then show ?case
  proof cases
    case up
    then have "xs \<noteq> []" "push_segs (butlast xs) ss = Some ys" using 2(4) by (simp_all split: if_splits)
    then show ?thesis using 2(1) [OF up] 2(5,6) by (simp add: in_set_butlastD)
  next
    case keep
    then have p: "push_segs (xs @ [s]) ss = Some ys" using 2(4) by simp
    have "good_seg s" using keep 2(6) unfolding good_seg_def by simp
    then have "\<forall>s \<in> set (xs @ [s]). good_seg s" using 2(5) by simp
    from 2(2) [OF keep p this] 2(6) show ?thesis by (meson list.set_intros(2))
  next
    case skip
    then have p: "push_segs xs ss = Some ys" using 2(4) by (simp split: if_splits)
    from 2(3) [OF skip p 2(5)] 2(6) show ?thesis by simp
  qed
qed simp

lemma segments_join:
  "out \<noteq> [] \<Longrightarrow> \<forall>s \<in> set ss. good_seg s \<Longrightarrow> segments [] (join_segs out ss) = segments [] out @ ss"
  by (induction out ss rule: join_segs.induct) (auto simp: good_seg_def segments_slash segments_plain)

lemma segments_join_all: "\<forall>s \<in> set ss. good_seg s \<Longrightarrow> ss \<noteq> [] \<Longrightarrow> segments [] (join_segs [] ss) = ss"
  using segments_join [of "hd ss" "List.tl ss"] segments_plain [of "hd ss" "[]"]
  by (cases ss) (auto simp: good_seg_def)

lemma JoinNormalized_good:
  assumes "JoinNormalized b t = Some r"
  shows "r = [] \<or> (\<forall>s \<in> set (segments [] r). good_seg s)"
proof -
  obtain xs ys where x: "push_segs [] (segments [] b) = Some xs" "push_segs xs (segments [] t) = Some ys" "r = join_segs [] ys"
    using assms by (auto simp: JoinNormalized_def split: option.splits)
  have "\<forall>s \<in> set ys. good_seg s"
    using push_segs_good [OF x(1)] push_segs_good [OF x(2)] segments_no_slash [of "[]"] by simp
  then show ?thesis using segments_join_all [of ys] x(3) by (cases "ys = []") auto
qed

lemma hops_entry: "zip_hops Z I n e = Some t \<Longrightarrow> (t = e \<or> (\<exists>k. byName I k = Some t)) \<and> \<not> ze_symlink t \<and> \<not> ze_isDir t"
proof (induction n arbitrary: e)
  case 0
  then show ?case unfolding zip_hops.simps [of Z I 0 e] by (simp split: if_splits)
next
  case (Suc n)
  have hop: "zip_hop Z I e = Some u \<Longrightarrow> \<exists>k. byName I k = Some u" for u
    by (auto simp: zip_hop_def Let_def split: if_splits sum.splits option.splits)
  show ?case
  proof (cases "ze_symlink e")
    case False
    then show ?thesis using Suc.prems unfolding zip_hops.simps [of Z I "Suc n" e] by (simp split: if_splits)
  next
    case True
    then obtain u where u: "zip_hop Z I e = Some u" "zip_hops Z I n u = Some t"
      using Suc.prems unfolding zip_hops.simps [of Z I "Suc n" e] by (auto split: option.splits)
    show ?thesis using Suc.IH [OF u(2)] hop [OF u(1)] by auto
  qed
qed

section \<open>Stored entries\<close>

lemma stored_read:
  assumes "holds Z (z_src I) c" "ze_dataOffset e + ze_size e \<le> length c" "OpenZipEntry I e = Inr r"
  shows "\<exists>k. k \<le> n \<and> ReadZipEntry Z r n (int off) = Inr (clip (clip c (ze_size e) (ze_dataOffset e)) k off) \<and>
    (n = 0 \<or> ze_size e \<le> off \<or> 0 < k)"
proof -
  have bs: "byte_source (pread Z (z_src I)) c" using holds_correct(1) [OF assms(1)] by simp
  have r: "r = \<lparr>zr_stored = True, zr_src = Some (z_src I), zr_dataOffset = ze_dataOffset e, zr_size = ze_size e\<rparr>"
    using assms(3) by (simp add: OpenZipEntry_def split: if_splits)
  show ?thesis
  proof (cases "ze_size e \<le> off")
    case True
    then show ?thesis using r by (auto simp: ReadZipEntry_def clip_def intro: exI [of _ 0])
  next
    case False
    let ?want = "if n < ze_size e - off then n else ze_size e - off"
    have o: "ze_dataOffset e + off < W64" "ze_dataOffset e + off < length c"
      using False assms(2) byte_source.bounded [OF bs] by linarith+
    obtain k where k: "k \<le> ?want" "pread Z (z_src I) ?want (ze_dataOffset e + off) = Inr (clip c k (ze_dataOffset e + off))"
      "0 < ?want \<longrightarrow> ze_dataOffset e + off < length c \<longrightarrow> 0 < k"
      using byte_source.prefix_read [OF bs o(1)] by blast
    have "k \<le> ze_size e - off" using k(1) by (simp split: if_splits)
    then have "clip c k (ze_dataOffset e + off) = clip (clip c (ze_size e) (ze_dataOffset e)) k off"
      by (simp add: clip_def drop_take min.absorb1 add.commute)
    moreover have "ReadZipEntry Z r n (int off) = pread Z (z_src I) ?want (ze_dataOffset e + off)"
      using False o(1) by (simp add: ReadZipEntry_def r u64_id Let_def)
    moreover have "k \<le> n" using k(1) by (simp split: if_splits)
    moreover have "n = 0 \<or> 0 < k" using k(3) o(2) False by (auto split: if_splits)
    ultimately show ?thesis using k(2) by (intro exI [of _ k]) auto
  qed
qed

section \<open>Properties\<close>

text \<open>
  C18: the central directory is read back. For any archive laid out as the format says, behind any
  data, with ZIP64 records and a ZIP64 end record or without, and with a comment in which no second
  end signature shows, the scan recovers every record: the local-header offsets, up to 64 bits,
  by normalised name, and the name of the first entry that is not stored.
\<close>

theorem central_directory_round_trip:
  assumes "archive_fits d es z" "byte_source rd (zip_archive d es z)"
  shows "CentralDirOffsets rd (length (zip_archive d es z)) =
      Inr (fold (\<lambda>e m. if NormalizeVPath (str_of_bytes (ce_name e)) \<noteq> []
            then m(NormalizeVPath (str_of_bytes (ce_name e)) \<mapsto> unat (ce_lh e)) else m) es Map.empty) \<and>
    FirstCompressedEntry rd (length (zip_archive d es z)) =
      Inr (case List.find (\<lambda>e. ce_method e \<noteq> 0) es of None \<Rightarrow> []
           | Some e \<Rightarrow> if ce_name e = [] then ''(entry)'' else str_of_bytes (ce_name e))"
proof -
  note walk = byte_source.WalkCentralDir_ok [OF assms(2) refl assms(1)]
  have "visit (\<lambda>raw meth lh out. let v = NormalizeVPath raw in (True, if v \<noteq> [] then out(v \<mapsto> lh) else out)) es m =
      fold (\<lambda>e m. if NormalizeVPath (str_of_bytes (ce_name e)) \<noteq> []
            then m(NormalizeVPath (str_of_bytes (ce_name e)) \<mapsto> unat (ce_lh e)) else m) es m" for m
    by (induction es arbitrary: m) (simp_all add: Let_def)
  moreover have "visit (\<lambda>raw meth lh r. if meth = 0 then (True, r) else (False, if raw = [] then ''(entry)'' else raw)) es [] =
      (case List.find (\<lambda>e. ce_method e \<noteq> 0) es of None \<Rightarrow> []
           | Some e \<Rightarrow> if ce_name e = [] then ''(entry)'' else str_of_bytes (ce_name e))"
    by (induction es) (simp_all add: unat_eq_0 str_of_bytes_def)
  ultimately show ?thesis by (simp add: CentralDirOffsets_def FirstCompressedEntry_def walk)
qed

text \<open>A ZIP64 archive with a comment: one record at a local header 5 GB into the file.\<close>

definition demo_cd :: cd_entry where
  "demo_cd = \<lparr>ce_a = replicate 6 0, ce_method = 8, ce_b = replicate 8 0, ce_comp = 3, ce_uncomp = 0x140000000,
     ce_c = replicate 8 0, ce_lh = 0x140000000, ce_wu = True, ce_wc = False, ce_wl = True, ce_name = [97],
     ce_before = [(0x5455, [1])], ce_disk = [], ce_after = [], ce_comment = [7]\<rparr>"

definition demo_end :: zip_end where
  "demo_end = \<lparr>ze_zip64 = Some \<lparr>z_a = replicate 28 0, z_b = replicate 8 0, z_ext = [], z_loc_disk = replicate 4 0,
     z_loc_total = [1, 0, 0, 0]\<rparr>, ze_wn = True, ze_wo = True, ze_disks = [0, 0, 0, 0, 1, 0], ze_cdsize = [80, 0, 0, 0],
     ze_comment = [104, 105]\<rparr>"

theorem central_directory_round_trip_witness:
  "CentralDirOffsets (mem_pread (zip_archive [1] [demo_cd] demo_end)) (length (zip_archive [1] [demo_cd] demo_end)) =
     Inr [''a'' \<mapsto> 0x140000000] \<and>
   FirstCompressedEntry (mem_pread (zip_archive [1] [demo_cd] demo_end)) (length (zip_archive [1] [demo_cd] demo_end)) = Inr ''a''"
proof -
  have f: "archive_fits [1] [demo_cd] demo_end"
    by (simp add: archive_fits_def cd_fits_def demo_cd_def demo_end_def enc_extra_def enc_block_def zip64_data_def enc_end_def
        Rd32_def put32_def put16_def EOCD_SIG_def upt_rec)
  have "length (zip_archive [1] [demo_cd] demo_end) < W64"
    by (simp add: zip_archive_def enc_cd_def enc_end_def enc_zip64_def demo_cd_def demo_end_def enc_extra_def enc_block_def
        zip64_data_def W64_def)
  note s = exact_source_imp [OF exact_mem [OF this]]
  have a: "char_of (97 :: nat) = CHR ''a''" by (simp add: char_of_def bit_iff_odd)
  have n: "NormalizeVPath ''a'' = ''a''" by (rule NormalizeVPath_id) (simp add: normal_def)
  show ?thesis using central_directory_round_trip [OF f s] by (simp add: demo_cd_def str_of_bytes_def a n)
qed

text \<open>
  C21: every entry can be listed. In the index of any archive libzip can enumerate, every entry
  whose name has no empty segment is reached from the root by listing directories, and each
  name leads to its own entry.
\<close>

theorem indexed_entries_are_listed:
  assumes "BuildZipIndex Z lib src name = Inr (Some I)" "byName I n = Some e" "[] \<notin> set (segments [] n)"
  shows "reached I n \<and> ze_name e = n"
proof -
  have "n \<noteq> []" using assms(3) by auto
  then show ?thesis using BuildZipIndex_tree [OF assms(1)] assms(2,3) by (auto simp: tree_ok_def proper_def)
qed

definition demo_stat :: zip_stat where
  "demo_stat = \<lparr>zs_name = Some ''a/b'', zs_size = Some 3, zs_mtime = None, zs_method = Some 8, zs_encryption = None, zs_attr = None\<rparr>"

theorem indexed_entries_are_listed_witness:
  "\<exists>I. BuildZipIndex frame_zstd (\<lambda>_ _. Some [Some demo_stat]) (MemSource []) [] = Inr (Some I) \<and> reached I ''a/b''"
proof -
  have n: "NormalizeVPath ''a/b'' = ''a/b''" by (rule NormalizeVPath_id) (simp add: normal_def)
  obtain I e where I: "BuildZipIndex frame_zstd (\<lambda>_ _. Some [Some demo_stat]) (MemSource []) [] = Inr (Some I)" "byName I ''a/b'' = Some e"
    by (auto simp: BuildZipIndex_def CentralDirOffsets_def WalkCentralDir_def central_dir_def index_entry_def demo_stat_def n
        stored_offset_def ZIP_CM_STORE_def Let_def)
  then show ?thesis using indexed_entries_are_listed [OF I] by auto
qed

text \<open>
  C22: archive links stay inside the archive. A joined link target has no empty, \<^verbatim>\<open>.\<close> or
  \<^verbatim>\<open>..\<close> segment, and what a link chain resolves to is an entry of the archive (or the entry
  itself) that is neither a link nor a directory.
\<close>

theorem archive_links_resolve_inside:
  assumes "JoinNormalized b t = Some r" "ResolveZipSymlink Z I e = Some x"
  shows "(r = [] \<or> set (segments [] r) \<inter> {[], ''.'', ''..''} = {}) \<and>
    (x = e \<or> (\<exists>k. byName I k = Some x)) \<and> \<not> ze_symlink x \<and> \<not> ze_isDir x"
  using JoinNormalized_good [OF assms(1)] hops_entry [of Z I 8 e x] assms(2)
  by (auto simp: good_seg_def ResolveZipSymlink_def)

definition demo_entry :: zip_entry where
  "demo_entry = \<lparr>ze_name = ''d/f'', ze_index = 0, ze_size = 2, ze_mtime = 0, ze_isDir = False, ze_symlink = False,
     ze_stored = True, ze_dataOffset = 1\<rparr>"

definition demo_index :: zip_index where
  "demo_index = \<lparr>archivePath = [], z_src = MemSource [1, 2, 3], byName = [''d/f'' \<mapsto> demo_entry],
     dirChildren = [''d'' \<mapsto> {''f''}, [] \<mapsto> {''d''}]\<rparr>"

theorem archive_links_resolve_inside_witness:
  "JoinNormalized ''a/b'' ''../c'' = Some ''a/c'' \<and> set (segments [] ''a/c'') \<inter> {[], ''.'', ''..''} = {}"
proof -
  have j: "JoinNormalized ''a/b'' ''../c'' = Some ''a/c''" by (simp add: JoinNormalized_def)
  have "ResolveZipSymlink Z demo_index demo_entry = Some demo_entry" for Z
    unfolding ResolveZipSymlink_def zip_hops.simps [of Z demo_index 8 demo_entry] by (simp add: demo_entry_def)
  from archive_links_resolve_inside [OF j this] show ?thesis using j by simp
qed

text \<open>
  A stored entry reads as its bytes. Whatever the archive's bytes come from (a file, a
  buffer, a composed delta), a read of an opened entry gives a piece of the entry's own range
  at the offset, never more than asked, and at least one byte before the end.
\<close>

theorem stored_entries_read_exactly:
  assumes "holds Z (z_src I) c" "ze_dataOffset e + ze_size e \<le> length c" "OpenZipEntry I e = Inr r"
  shows "\<exists>k. k \<le> n \<and> ReadZipEntry Z r n (int off) = Inr (clip (clip c (ze_size e) (ze_dataOffset e)) k off) \<and>
    (n = 0 \<or> ze_size e \<le> off \<or> 0 < k)"
  by (rule stored_read [OF assms])

theorem stored_entries_read_exactly_witness:
  "\<exists>r k. OpenZipEntry demo_index demo_entry = Inr r \<and> ReadZipEntry frame_zstd r 9 (int 0) = Inr (clip [2, 3] k 0) \<and> 0 < k"
proof -
  have "holds frame_zstd (z_src demo_index) [1, 2, 3]"
    by (simp add: demo_index_def) (rule holds_mem, simp add: W64_def)
  moreover have "OpenZipEntry demo_index demo_entry =
      Inr \<lparr>zr_stored = True, zr_src = Some (MemSource [1, 2, 3]), zr_dataOffset = 1, zr_size = 2\<rparr>"
    by (simp add: OpenZipEntry_def demo_entry_def demo_index_def)
  ultimately show ?thesis
    using stored_entries_read_exactly [of frame_zstd demo_index "[1, 2, 3]" demo_entry _ 9 0] by (auto simp: demo_entry_def clip_def)
qed

end
