(* ===== verification/ZipTree.thy ===== *)
theory ZipTree
  imports ZipProps OverlayInit
begin

text \<open>
  The directory side of a zip index: every name the index knows, as an entry or as a directory,
  is listed by its parent. This is what makes listings of archives complete.
\<close>

definition known :: "zip_index \<Rightarrow> string \<Rightarrow> bool" where
  "known I n \<longleftrightarrow> byName I n \<noteq> None \<or> dirChildren I n \<noteq> None"

definition lists_child :: "zip_index \<Rightarrow> string \<Rightarrow> string \<Rightarrow> bool" where
  "lists_child I d c \<longleftrightarrow> (\<exists>cs. dirChildren I d = Some cs \<and> c \<in> cs)"

text \<open>Every known name except \<open>cur\<close> is listed by its parent.\<close>

definition listed_but :: "string set \<Rightarrow> zip_index \<Rightarrow> bool" where
  "listed_but X I \<longleftrightarrow> (\<forall>d c. c \<noteq> [] \<and> CHR ''/'' \<notin> set c \<and> known I (child_path d c) \<and> child_path d c \<notin> X \<longrightarrow> lists_child I d c)"

lemma child_path_split:
  assumes "c \<noteq> []" "CHR ''/'' \<notin> set c" "child_path d c = a @ CHR ''/'' # b" "CHR ''/'' \<notin> set b"
  shows "d = a \<and> c = b"
proof -
  have "d \<noteq> []" using assms by (auto simp: child_path_def)
  then have "d @ CHR ''/'' # c = a @ CHR ''/'' # b" using assms(3) by (simp add: child_path_def)
  then show ?thesis using find_last_of_split [OF assms(2), of d] find_last_of_split [OF assms(4), of a] by simp
qed

lemma lists_add [simp]: "lists_child (add_child p n I) d c \<longleftrightarrow> lists_child I d c \<or> (d = p \<and> c = n)"
  by (auto simp: lists_child_def add_child_def split: option.splits)

lemma known_add [simp]: "known (add_child p n I) x \<longleftrightarrow> known I x \<or> x = p"
  by (auto simp: known_def add_child_def)

lemma child_path_ne: "c \<noteq> [] \<Longrightarrow> child_path d c \<noteq> []"
  by (simp add: child_path_def)

lemma RegisterParents_listed: "listed_but {cur} I \<Longrightarrow> listed_but {} (RegisterParents I cur)"
proof (induction I cur rule: RegisterParents.induct)
  case (1 I cur)
  show ?case
  proof (cases rule: find_last_of_cases [of "CHR ''/''" cur])
    case none
    have "RegisterParents I cur = (if cur = [] then I else add_child [] cur I)"
      using none by (subst RegisterParents.simps) simp
    moreover have "listed_but {} I" if "cur = []"
      using "1.prems" that child_path_ne unfolding listed_but_def by blast
    moreover have "listed_but {} (add_child [] cur I)"
      unfolding listed_but_def
    proof (intro allI impI)
      fix d c assume a: "c \<noteq> [] \<and> CHR ''/'' \<notin> set c \<and> known (add_child [] cur I) (child_path d c) \<and> child_path d c \<notin> {}"
      show "lists_child (add_child [] cur I) d c"
      proof (cases "child_path d c = cur")
        case True
        then have "d = []" "c = cur" using none by (auto simp: child_path_def split: if_splits)
        then show ?thesis by simp
      next
        case False
        then show ?thesis using a "1.prems" child_path_ne [of c d] by (auto simp: listed_but_def)
      qed
    qed
    ultimately show ?thesis by simp
  next
    case (found a b)
    have f: "find_last_of (CHR ''/'') cur = Some (length a)" using found by simp
    have t: "take (length a) cur = a" "drop (length a + 1) cur = b" using found by simp_all
    have R: "RegisterParents I cur =
        (if b = [] then I else if a = [] then add_child a b I else RegisterParents (add_child a b I) a)"
      using f t by (subst RegisterParents.simps) (simp add: Let_def)
    have no: "child_path d c \<noteq> cur" if "c \<noteq> []" "CHR ''/'' \<notin> set c" "\<not> (d = a \<and> c = b)" for d c
      using child_path_split [OF that(1,2) _ found(2)] that(3) found(1) by metis
    have here: "listed_but {} I" if "b = []"
      using "1.prems" no that unfolding listed_but_def by (metis singletonD)
    have nxt: "listed_but {a} (add_child a b I)"
      unfolding listed_but_def
    proof (intro allI impI)
      fix d c assume x: "c \<noteq> [] \<and> CHR ''/'' \<notin> set c \<and> known (add_child a b I) (child_path d c) \<and> child_path d c \<notin> {a}"
      show "lists_child (add_child a b I) d c"
      proof (cases "d = a \<and> c = b")
        case False
        then have "child_path d c \<notin> {cur}" using no x by simp
        moreover have "known I (child_path d c)" using x by auto
        ultimately have "lists_child I d c" using x "1.prems" unfolding listed_but_def by blast
        then show ?thesis by simp
      qed simp
    qed
    have top: "listed_but {} (add_child a b I)" if "a = []"
      using nxt that child_path_ne unfolding listed_but_def by blast
    show ?thesis unfolding R using here top nxt "1.IH" [OF f refl refl _ refl] t by (simp add: found(1))
  qed
qed

lemma index_entry_listed:
  assumes r: "index_entry rd lh i st I = Inr J" and I: "listed_but {} I"
  shows "listed_but {} J"
proof -
  consider (same) "J = I" | (entry) z raw where "st = Some z" "zs_name z = Some raw" "NormalizeVPath raw \<noteq> []"
    using r by (auto simp: index_entry_def Let_def split: option.splits if_splits)
  then show ?thesis
  proof cases
    case (entry z raw)
    let ?v = "NormalizeVPath raw"
    have grow: "listed_but {?v} K" if "\<And>n. n \<noteq> ?v \<Longrightarrow> known K n \<Longrightarrow> known I n" "\<And>d c. lists_child I d c \<Longrightarrow> lists_child K d c" for K
      using I that unfolding listed_but_def by blast
    have put: "listed_but {?v} (I\<lparr>byName := (byName I)(?v \<mapsto> e)\<rparr>)" for e
      by (rule grow) (simp_all add: known_def lists_child_def)
    have dir: "listed_but {?v} (I\<lparr>byName := (byName I)(?v \<mapsto> e),
        dirChildren := (if dirChildren I ?v = None then (dirChildren I)(?v \<mapsto> {}) else dirChildren I)\<rparr>)" for e
      by (rule grow) (auto simp: known_def lists_child_def split: if_splits)
    show ?thesis
    proof (cases "raw \<noteq> [] \<and> last raw = CHR ''/''")
      case True
      show ?thesis using r entry True unfolding index_entry_def Let_def
        by (simp only: option.case if_False if_True simp_thms sum.inject, elim subst [where P = "listed_but {}"])
          (rule RegisterParents_listed [OF dir])
    next
      case False
      then obtain d where d: "stored_offset rd lh z ?v = Inr d"
        using r entry by (auto simp: index_entry_def Let_def split: sum.splits)
      show ?thesis using r entry False d unfolding index_entry_def Let_def
        by (simp only: option.case sum.case if_False simp_thms sum.inject, elim subst [where P = "listed_but {}"])
          (rule RegisterParents_listed [OF put])
    qed
  qed (use I in simp)
qed

lemma index_entries_listed: "index_entries rd lh i sts I = Inr J \<Longrightarrow> listed_but {} I \<Longrightarrow> listed_but {} J"
  by (induction sts arbitrary: i I) (auto simp: bindE_Inr dest: index_entry_listed)

lemma BuildZipIndex_listed: "BuildZipIndex Z lib src name = Inr (Some I) \<Longrightarrow> listed_but {} I"
  by (auto simp: BuildZipIndex_def Let_def bindE_Inr map_sum_Inr split: option.splits dest!: index_entries_listed)
    (simp add: listed_but_def known_def)

end
