(* ===== verification/InitProps.thy ===== *)
theory InitProps
  imports Frame SpecProps RemovalProps ZipTree
begin

text \<open>
  What mounting establishes and every session keeps: the well-formedness of the layers (an
  archive layer has its index, a kept folder its masks, a priority is a position, no delta is
  left) and of the tables derived from them.
\<close>

section \<open>Well-formed layers\<close>

definition wf_layer :: "layer \<Rightarrow> bool" where
  "wf_layer L \<longleftrightarrow> l_type L \<noteq> Delta \<and> (l_type L = Zip \<longleftrightarrow> l_zip L \<noteq> None) \<and>
     (case l_zip L of None \<Rightarrow> True | Some I \<Rightarrow> listed_but {} I) \<and>
     (l_type L = File \<longrightarrow> fileBase L = BaseName (l_source L))"

definition masks_ok :: "layer \<Rightarrow> bool" where
  "masks_ok L \<longleftrightarrow> (kept L \<noteq> None \<longleftrightarrow> l_type L = Dir \<and> l_rw L)"

text \<open>The masks aside, the layers of a mount: well-formed, and numbered from the bottom.\<close>

definition stack_ok :: "layer list \<Rightarrow> bool" where
  "stack_ok Ls \<longleftrightarrow> list_all wf_layer Ls \<and> map priority Ls = map int [0..<length Ls]"

definition wf_vfs :: "'h vfs \<Rightarrow> bool" where
  "wf_vfs S \<longleftrightarrow> stack_ok (layers S) \<and> list_all masks_ok (layers S) \<and> [] \<notin> implicitDirs S \<and>
     table_ok (canonCase S) \<and> (readOnly S \<longrightarrow> writelayer S = [])"

lemma stack_ok_update:
  assumes "stack_ok Ls" "i < length Ls \<Longrightarrow> wf_layer L \<and> priority L = priority (Ls ! i)"
  shows "stack_ok (Ls[i := L])"
proof (cases "i < length Ls")
  case True
  have "map priority (Ls[i := L]) = map priority Ls"
    using assms(2) [OF True] True by (simp add: map_update list_update_same_conv)
  then show ?thesis using assms True by (auto simp: stack_ok_def list_all_iff dest!: set_update_subset_insert [THEN subsetD])
qed (use assms(1) in \<open>simp add: list_update_beyond\<close>)

lemma wf_layer_nth: "stack_ok Ls \<Longrightarrow> i < length Ls \<Longrightarrow> wf_layer (Ls ! i)"
  by (simp add: stack_ok_def list_all_length)

lemma wf_layer_mask: "wf_layer (mask_layer t L) = wf_layer L" "priority (mask_layer t L) = priority L"
  by (simp_all add: wf_layer_def mask_layer_def)

lemma wf_layer_kept: "wf_layer (L\<lparr>kept := k\<rparr>) = wf_layer L"
  by (simp add: wf_layer_def)

lemma hide_bases_stack: "stack_ok (in_layers I) \<Longrightarrow> stack_ok (in_layers (hide_bases gi bases I))"
  by (auto simp: hide_bases_def wf_layer_mask intro!: fold_keeps [where P = stack_ok] stack_ok_update dest: wf_layer_nth)

text \<open>The layer loop keeps the stack and the next priority.\<close>

definition index_ok :: "layer_spec \<Rightarrow> zip_index option \<Rightarrow> bool" where
  "index_ok l zi \<longleftrightarrow> (zip_like l \<longleftrightarrow> zi \<noteq> None) \<and> (case zi of None \<Rightarrow> True | Some I \<Rightarrow> listed_but {} I)"

definition counted :: "'h init \<Rightarrow> bool" where
  "counted I \<longleftrightarrow> stack_ok (in_layers I) \<and> in_prio I = int (length (in_layers I)) \<and> list_all (\<lambda>L. kept L = None) (in_layers I)"

lemma new_layer_ok:
  "index_ok l zi \<Longrightarrow> wf_layer (new_layer l zi p m) \<and> priority (new_layer l zi p m) = p \<and> kept (new_layer l zi p m) = None"
  by (cases "ls_type l") (auto simp: new_layer_def wf_layer_def zip_like_def index_ok_def Let_def)

lemma add_mounts_counted:
  "counted I \<Longrightarrow> index_ok l zi \<Longrightarrow> counted (add_mounts gi l zi ms I)"
proof (induction ms arbitrary: I)
  case (Cons m ms)
  have "counted (I\<lparr>in_layers := in_layers I @ [new_layer l zi (in_prio I) m],
        mountedAs := (mountedAs I)(gi := mountedAs I gi @ [length (in_layers I)]), in_prio := in_prio I + 1\<rparr>)"
    using Cons.prems new_layer_ok [OF Cons.prems(2), of "in_prio I" m] by (simp add: counted_def stack_ok_def)
  then show ?case using Cons.IH Cons.prems(2) by simp
qed simp

lemma hide_bases_counted: "counted I \<Longrightarrow> counted (hide_bases gi bases I)"
proof -
  assume c: "counted I"
  let ?P = "\<lambda>Ls. length Ls = length (in_layers I) \<and> list_all (\<lambda>L. kept L = None) Ls"
  have step: "?P Ls \<Longrightarrow> ?P (Ls[i := mask_layer t (Ls ! i)])" for Ls i t
    by (cases "i < length Ls")
      (auto simp: list_all_iff mask_layer_def list_update_beyond dest!: set_update_subset_insert [THEN subsetD])
  have "?P (in_layers (hide_bases gi bases I))"
    unfolding hide_bases_def using c by (simp, intro fold_keeps [where P = ?P] step) (simp_all add: counted_def)
  moreover have "in_prio (hide_bases gi bases I) = in_prio I" by (simp add: hide_bases_def)
  ultimately show ?thesis using hide_bases_stack [of I] c by (simp add: counted_def)
qed

lemma mount_layer_counted: "counted I \<Longrightarrow> index_ok l zi \<Longrightarrow> counted (mount_layer gi l zi behind I)"
  by (simp add: mount_layer_def Let_def hide_bases_counted add_mounts_counted)

lemma counted_other:
  "counted (I\<lparr>in_host := h\<rparr>) = counted I" "counted (I\<lparr>chainSeen := s\<rparr>) = counted I"
  "counted (I\<lparr>baseByTarget := b, baseLayersByTarget := bl\<rparr>) = counted I"
  by (simp_all add: counted_def)

lemma step_layer_counted: "step_layer E lib tops gi l I = Inr J \<Longrightarrow> counted I \<Longrightarrow> counted J"
  by (auto simp: step_layer_def Let_def counted_other mount_layer_counted index_ok_def dest: BuildZipIndex_listed split: if_splits prod.splits sum.splits option.splits)

lemma init_loop_counted: "init_loop E lib tops gi ls I = Inr J \<Longrightarrow> counted I \<Longrightarrow> counted J"
  by (induction ls arbitrary: gi I) (auto simp: bindE_Inr dest: step_layer_counted)

lemma seed_layers_ok:
  "seed_layers E h Ls = Inr Ms \<Longrightarrow> list_all (\<lambda>L. kept L = None) Ls \<Longrightarrow>
    list_all masks_ok Ms \<and> map (\<lambda>L. L\<lparr>kept := None\<rparr>) Ms = map (\<lambda>L. L\<lparr>kept := None\<rparr>) Ls"
proof (induction Ls arbitrary: Ms)
  case (Cons L Ls)
  then obtain L' Ms' where s: "(if l_type L = Dir \<and> l_rw L then SeedKeptMasks E h L else Inr L) = Inr L'"
    "seed_layers E h Ls = Inr Ms'" "Ms = L' # Ms'" by (auto simp: bindE_Inr)
  have "masks_ok L' \<and> L'\<lparr>kept := None\<rparr> = L\<lparr>kept := None\<rparr>"
    using s(1) Cons.prems(2) by (auto simp: SeedKeptMasks_def masks_ok_def split: if_splits option.splits)
  then show ?case using Cons.IH [OF s(2)] Cons.prems(2) s(3) by simp
qed simp

lemma stack_ok_skeleton: "stack_ok (map (\<lambda>L. L\<lparr>kept := None\<rparr>) Ls) = stack_ok Ls"
  by (simp add: stack_ok_def wf_layer_kept list.pred_map comp_def)

lemma SeedMasks_fields:
  "SeedMasksFromWritelayer E S = Inr T \<Longrightarrow> T = S\<lparr>whiteoutSet := whiteoutSet T, opaqueSet := opaqueSet T\<rparr>"
  by (auto simp: SeedMasksFromWritelayer_def split: if_splits option.splits)

text \<open>The states between the steps of mounting.\<close>

definition vfs_start :: "spec \<Rightarrow> bool \<Rightarrow> 'h \<Rightarrow> 'h vfs" where
  "vfs_start Sp flatten h = \<lparr>writelayer = sp_writelayer Sp, readOnly = sp_readOnly Sp, flattenSymlinks = flatten,
     v_uid = sp_uid Sp, v_gid = sp_gid Sp, layers = [], implicitDirs = {}, caseInsensitive = False, canonCase = [],
     whiteoutSet = {}, opaqueSet = {}, host_state = h\<rparr>"

definition loop_start :: "'h \<Rightarrow> 'h init" where
  "loop_start h = \<lparr>in_layers = [], baseByTarget = Map.empty, baseLayersByTarget = Map.empty, mountedAs = (\<lambda>_. []),
     chainSeen = {}, in_prio = 0, in_host = h\<rparr>"

definition vfs_final :: "(zip_index \<Rightarrow> string list) \<Rightarrow> spec \<Rightarrow> 'h init \<Rightarrow> layer list \<Rightarrow> 'h vfs \<Rightarrow> 'h vfs" where
  "vfs_final names Sp I Ls S = S\<lparr>layers := Ls, implicitDirs := implicit_dirs (in_layers I),
     caseInsensitive := sp_caseInsensitive Sp,
     canonCase := (if sp_caseInsensitive Sp then canon_table names Ls (implicit_dirs (in_layers I)) else []),
     host_state := in_host I\<rparr>"

lemma Init_steps:
  "Init E lib names flatten Sp h =
    bindE (SeedMasksFromWritelayer E (vfs_start Sp flatten
        (if sp_writelayer Sp \<noteq> [] then snd (create_directories (io E) (sp_writelayer Sp) h) else h))) (\<lambda>S.
    bindE (init_loop E lib (chainTop (sp_layers Sp)) 0 (sp_layers Sp) (loop_start (host_state S))) (\<lambda>I.
    bindE (seed_layers E (in_host I) (in_layers I)) (\<lambda>Ls. Inr (vfs_final names Sp I Ls S))))"
  unfolding Init_def vfs_start_def loop_start_def vfs_final_def Let_def by (rule refl)

lemma Init_Inr:
  assumes "Init E lib names flatten Sp h = Inr S"
  obtains T I Ls h0 where "SeedMasksFromWritelayer E (vfs_start Sp flatten h0) = Inr T"
    "init_loop E lib (chainTop (sp_layers Sp)) 0 (sp_layers Sp) (loop_start (host_state T)) = Inr I"
    "seed_layers E (in_host I) (in_layers I) = Inr Ls" "S = vfs_final names Sp I Ls T"
  using assms unfolding Init_steps bindE_Inr by auto

lemma Init_wf:
  assumes "Init E lib names flatten Sp h = Inr S" "spec_ok Sp"
  shows "wf_vfs S"
proof -
  obtain T I Ls h0 where i: "SeedMasksFromWritelayer E (vfs_start Sp flatten h0) = Inr T"
    "init_loop E lib (chainTop (sp_layers Sp)) 0 (sp_layers Sp) (loop_start (host_state T)) = Inr I"
    "seed_layers E (in_host I) (in_layers I) = Inr Ls" "S = vfs_final names Sp I Ls T"
    by (rule Init_Inr [OF assms(1)])
  have c: "counted I" by (rule init_loop_counted [OF i(2)]) (simp add: counted_def stack_ok_def loop_start_def)
  then have l: "list_all masks_ok Ls" "stack_ok Ls"
    using seed_layers_ok [OF i(3)] stack_ok_skeleton [of Ls] stack_ok_skeleton [of "in_layers I"] by (auto simp: counted_def)
  have "readOnly T = sp_readOnly Sp" "writelayer T = sp_writelayer Sp"
    by (subst SeedMasks_fields [OF i(1)], simp add: vfs_start_def)+
  moreover have "[] \<notin> implicit_dirs (in_layers I)" by (simp add: implicit_dirs_def)
  moreover have "table_ok []" by (simp add: table_ok_def)
  ultimately show ?thesis using l canon_table_ok assms(2) by (simp add: wf_vfs_def vfs_final_def i(4) spec_ok_def)
qed

lemma wf_vfs_layers:
  assumes "wf_vfs S"
  shows "wf_vfs (S\<lparr>layers := (layers S)[i := (layers S ! i)\<lparr>kept := map_option f (kept (layers S ! i))\<rparr>]\<rparr>)"
proof (cases "i < length (layers S)")
  case True
  let ?L = "(layers S ! i)\<lparr>kept := map_option f (kept (layers S ! i))\<rparr>"
  have s: "stack_ok (layers S)" "list_all masks_ok (layers S)" using assms by (simp_all add: wf_vfs_def)
  have "stack_ok ((layers S)[i := ?L])"
    by (rule stack_ok_update [OF s(1)]) (use wf_layer_nth [OF s(1) True] in \<open>simp add: wf_layer_kept\<close>)
  moreover have "masks_ok ?L" using s(2) True by (auto simp: list_all_length masks_ok_def)
  then have "list_all masks_ok ((layers S)[i := ?L])"
    using s(2) by (auto simp: list_all_iff dest!: set_update_subset_insert [THEN subsetD])
  ultimately show ?thesis using assms by (simp add: wf_vfs_def)
qed (use assms in \<open>simp add: list_update_beyond\<close>)

interpretation wf: mask_frame wf_vfs
  by unfold_locales (use wf_vfs_layers in \<open>auto simp: wf_vfs_def\<close>)

text \<open>A hit in an archive comes from a layer that has an index.\<close>

lemma zip_hit_index: "Resolve E S v = r \<Longrightarrow> r_kind r = ZipHit \<Longrightarrow> \<exists>L I. r_layer r = Some L \<and> L \<in> set (layers S) \<and> l_zip L = Some I"
proof -
  have one: "resolve_layer E S L v = Hit r \<Longrightarrow> r_kind r = ZipHit \<Longrightarrow> r_layer r = Some L \<and> (\<exists>I. l_zip L = Some I)" for L
    by (auto simp: resolve_layer_def resolve_dir_def resolve_file_def resolve_zip_def zip_hit_def no_hit_def Let_def
        split: if_splits sum.splits option.splits)
  have "resolve_layers E S v Ls = r \<Longrightarrow> r_kind r = ZipHit \<Longrightarrow> \<exists>L I. r_layer r = Some L \<and> L \<in> set Ls \<and> l_zip L = Some I" for Ls
  proof (induction Ls)
    case (Cons L Ls)
    then show ?case using one [of L] by (cases "resolve_layer E S L v") auto
  qed (auto simp: no_hit_def split: if_splits)
  from this [of "rev (layers S)"] show "Resolve E S v = r \<Longrightarrow> r_kind r = ZipHit \<Longrightarrow> ?thesis"
    by (auto simp: Resolve_def no_hit_def Let_def split: if_splits sum.splits)
qed

section \<open>Properties\<close>

text \<open>
  C8: mounted states are well typed. What \<^verbatim>\<open>Init\<close> builds from a parsed specification is well
  formed, every session of requests keeps it so, and at any time a hit in an archive carries a
  layer whose index is there to be used.
\<close>

theorem sessions_stay_well_formed:
  assumes "Init E lib names flatten Sp h = Inr S0" "spec_ok Sp" "snd (serve_all E' qs S0) = S"
  shows "wf_vfs S \<and> (r_kind (Resolve E S v) = ZipHit \<longrightarrow>
    (\<exists>L I. r_layer (Resolve E S v) = Some L \<and> L \<in> set (layers S) \<and> l_zip L = Some I))"
  using wf.serve_all_keeps [OF Init_wf [OF assms(1,2)], of E' qs] assms(3) zip_hit_index [OF refl] by auto

definition demo_spec :: spec where
  "demo_spec = \<lparr>sp_mountpoint = ''/m'', sp_uid = 1000, sp_gid = 1000, sp_readOnly = False, sp_writelayer = ''/wl'',
     sp_layers = [\<lparr>ls_type = Dir, ls_source = ''/low'', ls_target = ''a'', ls_baseTargets = [], ls_submounts = [], ls_rw = False\<rparr>],
     sp_caseInsensitive = False\<rparr>"

lemma demo_spec_ok: "spec_ok demo_spec"
  by (simp add: demo_spec_def spec_ok_def layer_spec_ok_def normal_def)

lemma demo_Init: "\<exists>S. Init mem_env (\<lambda>_ _. None) (\<lambda>_. []) True demo_spec demo_mem = Inr S"
proof -
  have walk: "seed_walk (Suc k) mem_host demo_mem p v a = Some a" if "mem_names demo_mem (p v) = []" for k p v a
    using that by simp
  have "mem_names demo_mem ''/wl'' = []" by (simp add: mem_names_def demo_mem_def demo_nodes_def)
  then have s: "SeedMasksFromWritelayer mem_env (vfs_start demo_spec True demo_mem) = Inr (vfs_start demo_spec True demo_mem)"
    using walk [where k = 7] by (simp add: SeedMasksFromWritelayer_def vfs_start_def demo_spec_def WLPath_def)
  have "snd (mem_dirs ''/wl'' demo_mem) = demo_mem" by (simp add: run_eval)
  then show ?thesis using s
    by (simp add: Init_steps) (simp add: demo_spec_def step_layer_def zip_like_def mount_layer_def mounts_of_def loop_start_def new_layer_def Let_def)
qed

theorem sessions_stay_well_formed_witness:
  "\<exists>S0. Init mem_env (\<lambda>_ _. None) (\<lambda>_. []) True demo_spec demo_mem = Inr S0 \<and>
    wf_vfs (snd (serve_all mem_env [MkdirReq ''/a/sub'' 0x1ED] S0))"
proof -
  obtain S0 where s: "Init mem_env (\<lambda>_ _. None) (\<lambda>_. []) True demo_spec demo_mem = Inr S0" using demo_Init by blast
  then show ?thesis using sessions_stay_well_formed [OF s demo_spec_ok refl, of mem_env "[MkdirReq ''/a/sub'' 0x1ED]" "[]"] by auto
qed

end
