(* ===== verification/CopyProps.thy ===== *)
theory CopyProps
  imports RemovalProps ZipProps
begin

text \<open>
  Copy-up copies. \<open>file_host\<close> is what the code relies on the host's files for: names lead to
  files, a descriptor is a file and an offset, reads and writes may be short, writes may be
  interrupted. Inside it the copying loops are shown to append exactly the source's bytes.
\<close>

lemma trym_Inr:
  "run_state (trym m f) S = (Inr y, S') \<longleftrightarrow> (\<exists>x T. run_state m S = (Inr x, T) \<and> run_state (f x) T = (Inr y, S'))"
  by (auto simp: run_state_trym split: prod.splits sum.splits)

text \<open>Between two host states \<open>dst\<close> came to hold \<open>b\<close> and every file there was kept its bytes.\<close>

definition copied :: "('h \<Rightarrow> string \<Rightarrow> 'f option) \<Rightarrow> ('h \<Rightarrow> 'f \<Rightarrow> bytes) \<Rightarrow> 'h \<Rightarrow> 'h \<Rightarrow> string \<Rightarrow> bytes \<Rightarrow> bool" where
  "copied file_of data h h' dst b \<longleftrightarrow> (\<exists>g. file_of h' dst = Some g \<and> data h' g = b) \<and>
     (\<forall>q k. file_of h q = Some k \<longrightarrow> file_of h' q = Some k \<and> data h' k = data h k)"

section \<open>The steps of a copy\<close>

text \<open>What a copy does with the new descriptor before it closes it.\<close>

definition fill_host :: "'h env \<Rightarrow> string \<Rightarrow> fd \<Rightarrow> ('h, unit res) op" where
  "fill_host E p out = trym (host_do (Open (io E) p O_RDONLY 0)) (\<lambda>inp. do {
     rc \<leftarrow> copy_host_loop (turns E) E inp out;
     _ \<leftarrow> host_do (Close (io E) inp);
     S \<leftarrow> State_Monad.get;
     (case Lstat (io E) (host_state S) p of
        Inl _ \<Rightarrow> ret ()
      | Inr st \<Rightarrow> ignore (host_do (Fchmod (io E) out (or (and (st_mode st) 0x1FF) 0x80))));
     ret rc
   })"

definition fill_zip :: "'h env \<Rightarrow> zip_index \<Rightarrow> zip_entry \<Rightarrow> fd \<Rightarrow> ('h, unit res) op" where
  "fill_zip E I e out = trym (ret (OpenZipEntry I e)) (\<lambda>zr.
     trym (copy_zip_loop (turns E) E zr out 0) (\<lambda>_. do {
       _ \<leftarrow> host_do (Fchmod (io E) out (or 0x16D 0x80));
       ret ok
     }))"

definition fill :: "'h env \<Rightarrow> resolve_result \<Rightarrow> fd \<Rightarrow> ('h, unit res) op" where
  "fill E rr = (case (r_kind rr, r_zipEntry rr) of
     (ZipHit, Some e) \<Rightarrow> fill_zip E (the (l_zip (the (r_layer rr)))) e
   | _ \<Rightarrow> fill_host E (r_hostPath rr))"

lemma copy_file_fill:
  "copy_file E rr dst = trym (host_do (Open (io E) dst (or O_CREAT (or O_WRONLY O_TRUNC)) 0x1A4)) (\<lambda>out. do {
     rc \<leftarrow> fill E rr out;
     _ \<leftarrow> host_do (Close (io E) out);
     if rc \<noteq> ok then do { _ \<leftarrow> host_do (Unlink (io E) dst); ret rc } else ret rc
   })"
  unfolding copy_file_def fill_def fill_host_def fill_zip_def
  by (cases "r_kind rr"; cases "r_zipEntry rr") simp_all

lemma copy_file_ok:
  assumes "run_state (copy_file E rr dst) S = (ok, S')"
  obtains out h T where "Open (io E) dst (or O_CREAT (or O_WRONLY O_TRUNC)) 0x1A4 (host_state S) = (Inr out, h)"
    "run_state (fill E rr out) (S\<lparr>host_state := h\<rparr>) = (ok, T)"
    "host_state S' = snd (Close (io E) out (host_state T))"
proof -
  obtain out h where o: "Open (io E) dst (or O_CREAT (or O_WRONLY O_TRUNC)) 0x1A4 (host_state S) = (Inr out, h)"
    using assms by (auto simp: copy_file_fill run_state_trym split: prod.splits sum.splits)
  obtain rc T where f: "run_state (fill E rr out) (S\<lparr>host_state := h\<rparr>) = (rc, T)" by fastforce
  show ?thesis
    using assms f that [OF o] by (auto simp: copy_file_fill run_state_trym o split: prod.splits if_splits)
qed

lemma fill_host_ok:
  assumes "run_state (fill_host E p out) S = (ok, S')"
  obtains inp h T where "Open (io E) p O_RDONLY 0 (host_state S) = (Inr inp, h)"
    "run_state (copy_host_loop (turns E) E inp out) (S\<lparr>host_state := h\<rparr>) = (ok, T)"
    "host_state S' = snd (Close (io E) inp (host_state T)) \<or>
     (\<exists>m. host_state S' = snd (Fchmod (io E) out m (snd (Close (io E) inp (host_state T)))))"
proof -
  obtain inp h where o: "Open (io E) p O_RDONLY 0 (host_state S) = (Inr inp, h)"
    using assms by (auto simp: fill_host_def run_state_trym split: prod.splits sum.splits)
  obtain rc T where f: "run_state (copy_host_loop (turns E) E inp out) (S\<lparr>host_state := h\<rparr>) = (rc, T)" by fastforce
  define c where "c = snd (Close (io E) inp (host_state T))"
  have "rc = ok \<and> (host_state S' = c \<or> (\<exists>m. host_state S' = snd (Fchmod (io E) out m c)))"
    using assms f by (auto simp: fill_host_def run_state_trym o ignore_def c_def split: prod.splits sum.splits) (metis snd_conv)
  then show ?thesis using that [OF o] f by (auto simp: c_def)
qed

lemma fill_zip_ok:
  assumes "run_state (fill_zip E I e out) S = (ok, S')"
  obtains zr T where "OpenZipEntry I e = Inr zr" "run_state (copy_zip_loop (turns E) E zr out 0) S = (ok, T)"
    "host_state S' = snd (Fchmod (io E) out (or 0x16D 0x80) (host_state T))"
proof -
  obtain zr where o: "OpenZipEntry I e = Inr zr"
    using assms by (auto simp: fill_zip_def run_state_trym split: prod.splits sum.splits)
  obtain rc T where f: "run_state (copy_zip_loop (turns E) E zr out 0) S = (rc, T)" by fastforce
  show ?thesis
    using assms f that [OF o] by (cases rc) (auto simp: fill_zip_def run_state_trym o split: prod.splits)
qed

section \<open>Host files\<close>

text \<open>
  \<open>file\<close> gives the file a path leads to, \<open>data\<close> its bytes, \<open>cursor\<close> the file and offset of an
  open descriptor.
\<close>

locale file_host =
  fixes H :: "'h host"
    and file_of :: "'h \<Rightarrow> string \<Rightarrow> 'f option"
    and data :: "'h \<Rightarrow> 'f \<Rightarrow> bytes"
    and cursor :: "'h \<Rightarrow> fd \<Rightarrow> ('f \<times> nat) option"
  assumes creates: "Open H p (or O_CREAT (or O_WRONLY O_TRUNC)) m h = (Inr fd, h') \<Longrightarrow> isl (Lstat H h p) \<Longrightarrow>
      \<exists>f. file_of h' p = Some f \<and> (\<forall>q. file_of h q \<noteq> Some f) \<and> data h' f = [] \<and> cursor h' fd = Some (f, 0) \<and>
        (\<forall>q g. file_of h q = Some g \<longrightarrow> file_of h' q = Some g \<and> data h' g = data h g)"
    and opens: "Open H p O_RDONLY m h = (Inr fd, h') \<Longrightarrow> file_of h p = Some f \<Longrightarrow>
      cursor h fd = None \<and> cursor h' = (cursor h)(fd \<mapsto> (f, 0)) \<and> file_of h' = file_of h \<and> data h' = data h"
    and reads: "Read H fd n h = (Inr bs, h') \<Longrightarrow> cursor h fd = Some (f, pos) \<Longrightarrow>
      (\<exists>k \<le> n. bs = clip (data h f) k pos) \<and> (bs = [] \<longrightarrow> n = 0 \<or> length (data h f) \<le> pos) \<and>
      cursor h' = (cursor h)(fd \<mapsto> (f, pos + length bs)) \<and> file_of h' = file_of h \<and> data h' = data h"
    and writes: "Write H fd b h = (Inr w, h') \<Longrightarrow> cursor h fd = Some (f, length (data h f)) \<Longrightarrow>
      w \<le> length b \<and> data h' = (data h)(f := data h f @ take w b) \<and>
      cursor h' = (cursor h)(fd \<mapsto> (f, length (data h f) + w)) \<and> file_of h' = file_of h"
    and interrupted: "Write H fd b h = (Inl EINTR, h') \<Longrightarrow> cursor h' = cursor h \<and> file_of h' = file_of h \<and> data h' = data h"
    and closes: "Close H fd h = (r, h') \<Longrightarrow> file_of h' = file_of h \<and> data h' = data h"
    and chmods: "Fchmod H fd m h = (r, h') \<Longrightarrow> file_of h' = file_of h \<and> data h' = data h"
    and mkdirs: "create_directories H p h = (r, h') \<Longrightarrow> file_of h q = Some f \<Longrightarrow>
      file_of h' q = Some f \<and> data h' f = data h f"
    and mkdirs_inside: "create_directories H p h = (r, h') \<Longrightarrow> isl (Lstat H h (p @ ''/'' @ c)) \<Longrightarrow> c \<noteq> [] \<Longrightarrow>
      CHR ''/'' \<notin> set c \<Longrightarrow> isl (Lstat H h' (p @ ''/'' @ c))"
    and regular: "file_of h p = Some f \<Longrightarrow> \<exists>st. StatFollow H h p = Inr st \<and> \<not> st_isDir st"
begin

lemma kept_after_close: "file_of (snd (Close H fd h)) = file_of h" "data (snd (Close H fd h)) = data h"
  using closes by (metis prod.collapse)+

lemma kept_after_chmod: "file_of (snd (Fchmod H fd m h)) = file_of h" "data (snd (Fchmod H fd m h)) = data h"
  using chmods by (metis prod.collapse)+

text \<open>A run of the write loop that succeeds has appended the whole buffer.\<close>

lemma FullWrite_appends:
  "FullWrite H n fd buf h = (Inr (), h') \<Longrightarrow> cursor h fd = Some (f, length (data h f)) \<Longrightarrow>
    data h' = (data h)(f := data h f @ buf) \<and> cursor h' = (cursor h)(fd \<mapsto> (f, length (data h f @ buf))) \<and>
    file_of h' = file_of h"
proof (induction n arbitrary: buf h)
  case 0
  then show ?case unfolding FullWrite.simps [of H 0 fd buf h] by (auto split: if_splits)
next
  case (Suc n)
  show ?case
  proof (cases "buf = []")
    case True
    then show ?thesis using Suc.prems unfolding FullWrite.simps [of H "Suc n" fd buf h] by auto
  next
    case False
    obtain r g where w: "Write H fd buf h = (r, g)" by (cases "Write H fd buf h")
    show ?thesis
    proof (cases r)
      case (Inl e)
      then have "e = EINTR" and run: "FullWrite H n fd buf g = (Inr (), h')"
        using Suc.prems(1) False w unfolding FullWrite.simps [of H "Suc n" fd buf h] by (auto split: if_splits)
      then have same: "cursor g = cursor h" "file_of g = file_of h" "data g = data h"
        using interrupted w Inl by blast+
      then show ?thesis using Suc.IH [OF run] Suc.prems(2) by simp
    next
      case (Inr k)
      then have run: "FullWrite H n fd (drop k buf) g = (Inr (), h')"
        using Suc.prems(1) False w unfolding FullWrite.simps [of H "Suc n" fd buf h] by (auto split: if_splits)
      note g = writes [OF w [unfolded Inr] Suc.prems(2)]
      then have "cursor g fd = Some (f, length (data g f))" by (simp add: min_def)
      then show ?thesis using Suc.IH [OF run] g by (auto simp: fun_eq_iff)
    qed
  qed
qed

text \<open>The host-to-host loop: from the reader's offset to its end.\<close>

lemma copy_host_loop_appends:
  assumes "io E = H"
  shows "run_state (copy_host_loop n E inp out) S = (ok, S') \<Longrightarrow>
    cursor (host_state S) out = Some (g, length (data (host_state S) g)) \<Longrightarrow>
    cursor (host_state S) inp = Some (f, pos) \<Longrightarrow> inp \<noteq> out \<Longrightarrow> f \<noteq> g \<Longrightarrow>
    data (host_state S') = (data (host_state S))(g := data (host_state S) g @ drop pos (data (host_state S) f)) \<and>
    file_of (host_state S') = file_of (host_state S) \<and> S' = S\<lparr>host_state := host_state S'\<rparr>"
proof (induction n arbitrary: S pos)
  case (Suc n)
  obtain r h where rd: "Read H inp BUF (host_state S) = (r, h)" by (cases "Read H inp BUF (host_state S)")
  then obtain bs where r: "r = Inr bs" using Suc.prems(1) assms by (cases r) auto
  note h = reads [OF rd [unfolded r] Suc.prems(3)]
  show ?case
  proof (cases "bs = []")
    case True
    then have "S' = S\<lparr>host_state := h\<rparr>" using Suc.prems(1) rd r assms by simp
    moreover have "length (data (host_state S) f) \<le> pos" using h True by (auto simp: BUF_def)
    ultimately show ?thesis using h by auto
  next
    case False
    obtain T where w: "FullWrite H (turns E) out bs h = (Inr (), T)"
      and run: "run_state (copy_host_loop n E inp out) (S\<lparr>host_state := T\<rparr>) = (ok, S')"
      using Suc.prems(1) rd r False assms by (auto simp: trym_Inr split: prod.splits)
    have "cursor h out = Some (g, length (data h g))" using h Suc.prems(2,4) by simp
    note T = FullWrite_appends [OF w this]
    have c: "cursor T out = Some (g, length (data T g))" "cursor T inp = Some (f, pos + length bs)"
      using T h Suc.prems(4) by simp_all
    have "bs @ drop (pos + length bs) (data (host_state S) f) = drop pos (data (host_state S) f)"
      using h by (metis add.commute append_take_drop_id clip_def clip_self drop_drop)
    then show ?thesis using Suc.IH [of "S\<lparr>host_state := T\<rparr>", OF run] c Suc.prems(4,5) T h by auto
  qed
qed simp

text \<open>The loop from a stored entry whose bytes are \<open>D\<close>.\<close>

lemma copy_zip_loop_appends:
  assumes "io E = H"
    and read: "\<And>n off. \<exists>k \<le> n. ReadZipEntry (zs E) zr n (int off) = Inr (clip D k off) \<and> (n = 0 \<or> length D \<le> off \<or> 0 < k)"
  shows "run_state (copy_zip_loop n E zr out off) S = (ok, S') \<Longrightarrow>
    cursor (host_state S) out = Some (g, length (data (host_state S) g)) \<Longrightarrow>
    data (host_state S') = (data (host_state S))(g := data (host_state S) g @ drop off D) \<and>
    file_of (host_state S') = file_of (host_state S) \<and> S' = S\<lparr>host_state := host_state S'\<rparr>"
proof (induction n arbitrary: S off)
  case (Suc n)
  obtain k where k: "ReadZipEntry (zs E) zr BUF (int off) = Inr (clip D k off)" "length D \<le> off \<or> 0 < k"
    using read [of BUF off] by (auto simp: BUF_def)
  show ?case
  proof (cases "clip D k off = []")
    case True
    then have "S' = S" "length D \<le> off" using Suc.prems(1) k by (auto simp: clip_def)
    then show ?thesis by simp
  next
    case False
    then obtain T where w: "FullWrite H (turns E) out (clip D k off) (host_state S) = (Inr (), T)"
      and run: "run_state (copy_zip_loop n E zr out (off + length (clip D k off))) (S\<lparr>host_state := T\<rparr>) = (ok, S')"
      using Suc.prems(1) k assms(1) by (auto simp: trym_Inr split: prod.splits)
    note T = FullWrite_appends [OF w Suc.prems(2)]
    have c: "cursor T out = Some (g, length (data T g))" using T by simp
    have "clip D k off @ drop (off + length (clip D k off)) D = drop off D"
      by (metis add.commute append_take_drop_id clip_def clip_self drop_drop)
    then show ?thesis using Suc.IH [of _ "S\<lparr>host_state := T\<rparr>", OF run] c T by (auto simp: fun_eq_iff)
  qed
qed simp

text \<open>Whatever source the copy has, a new file that received \<open>b\<close> is a copy.\<close>

lemma copied_new:
  assumes "\<forall>q. file_of h q \<noteq> Some g" "file_of h1 dst = Some g"
    and "\<forall>q k. file_of h q = Some k \<longrightarrow> file_of h1 q = Some k \<and> data h1 k = data h k"
    and "file_of h2 = file_of h1" "data h2 = (data h1)(g := b)"
  shows "copied file_of data h h2 dst b"
  using assms by (auto simp: copied_def)

lemma copy_file_host:
  assumes "io E = H" "r_kind rr \<noteq> ZipHit" "file_of (host_state S) (r_hostPath rr) = Some f"
    and "isl (Lstat H (host_state S) dst)" "run_state (copy_file E rr dst) S = (ok, S')"
  shows "copied file_of data (host_state S) (host_state S') dst (data (host_state S) f)"
proof -
  obtain out h1 T1 where o: "Open H dst (or O_CREAT (or O_WRONLY O_TRUNC)) 0x1A4 (host_state S) = (Inr out, h1)"
    and t1: "run_state (fill E rr out) (S\<lparr>host_state := h1\<rparr>) = (ok, T1)" "host_state S' = snd (Close H out (host_state T1))"
    using copy_file_ok [OF assms(5)] assms(1) by metis
  obtain g where g: "file_of h1 dst = Some g" "\<forall>q. file_of (host_state S) q \<noteq> Some g" "data h1 g = []" "cursor h1 out = Some (g, 0)"
    "\<forall>q k. file_of (host_state S) q = Some k \<longrightarrow> file_of h1 q = Some k \<and> data h1 k = data (host_state S) k"
    using creates [OF o assms(4)] by blast
  have "fill E rr out = fill_host E (r_hostPath rr) out" using assms(2) by (auto simp: fill_def split: HitKind.splits)
  with t1(1) have "run_state (fill_host E (r_hostPath rr) out) (S\<lparr>host_state := h1\<rparr>) = (ok, T1)" by simp
  then obtain inp h2 T where f: "Open (io E) (r_hostPath rr) O_RDONLY 0 (host_state (S\<lparr>host_state := h1\<rparr>)) = (Inr inp, h2)"
    "run_state (copy_host_loop (turns E) E inp out) (S\<lparr>host_state := h1\<rparr>\<lparr>host_state := h2\<rparr>) = (ok, T)"
    "host_state T1 = snd (Close (io E) inp (host_state T)) \<or>
     (\<exists>m. host_state T1 = snd (Fchmod (io E) out m (snd (Close (io E) inp (host_state T)))))"
    by (rule fill_host_ok)
  have i: "Open H (r_hostPath rr) O_RDONLY 0 h1 = (Inr inp, h2)"
    and t: "run_state (copy_host_loop (turns E) E inp out) (S\<lparr>host_state := h2\<rparr>) = (ok, T)"
    using f(1,2) assms(1) by simp_all
  note e = f(3) [unfolded assms(1)]
  have src: "file_of h1 (r_hostPath rr) = Some f" using g(5) assms(3) by simp
  note h2 = opens [OF i src]
  have ne: "inp \<noteq> out" "f \<noteq> g" using h2 g(2,4) assms(3) by auto
  have "cursor h2 out = Some (g, length (data h2 g))" "cursor h2 inp = Some (f, 0)"
    using h2 g(3,4) ne by auto
  then have d: "data (host_state T) = (data h2)(g := data h2 f)" "file_of (host_state T) = file_of h2"
    using copy_host_loop_appends [OF assms(1) t, of g f 0] h2 g(3) ne by auto
  have "file_of (host_state S') = file_of (host_state T)" "data (host_state S') = data (host_state T)"
    using e t1(2) kept_after_close kept_after_chmod by auto
  then show ?thesis using copied_new [OF g(2,1,5)] d h2 g(5) assms(3) by auto
qed

lemma copy_file_zip:
  assumes "io E = H" "r_kind rr = ZipHit" "r_zipEntry rr = Some e" "r_layer rr = Some L" "l_zip L = Some I"
    and "\<And>zr n off. OpenZipEntry I e = Inr zr \<Longrightarrow>
      \<exists>k \<le> n. ReadZipEntry (zs E) zr n (int off) = Inr (clip D k off) \<and> (n = 0 \<or> length D \<le> off \<or> 0 < k)"
    and "isl (Lstat H (host_state S) dst)" "run_state (copy_file E rr dst) S = (ok, S')"
  shows "copied file_of data (host_state S) (host_state S') dst D"
proof -
  obtain out h1 T1 where o: "Open H dst (or O_CREAT (or O_WRONLY O_TRUNC)) 0x1A4 (host_state S) = (Inr out, h1)"
    and t1: "run_state (fill E rr out) (S\<lparr>host_state := h1\<rparr>) = (ok, T1)" "host_state S' = snd (Close H out (host_state T1))"
    using copy_file_ok [OF assms(8)] assms(1) by metis
  obtain g where g: "file_of h1 dst = Some g" "\<forall>q. file_of (host_state S) q \<noteq> Some g" "data h1 g = []" "cursor h1 out = Some (g, 0)"
    "\<forall>q k. file_of (host_state S) q = Some k \<longrightarrow> file_of h1 q = Some k \<and> data h1 k = data (host_state S) k"
    using creates [OF o assms(7)] by blast
  have "fill E rr out = fill_zip E I e out" using assms(2-5) by (simp add: fill_def)
  with t1(1) have "run_state (fill_zip E I e out) (S\<lparr>host_state := h1\<rparr>) = (ok, T1)" by simp
  from fill_zip_ok [OF this] assms(1) obtain zr T where z: "OpenZipEntry I e = Inr zr"
    and t: "run_state (copy_zip_loop (turns E) E zr out 0) (S\<lparr>host_state := h1\<rparr>) = (ok, T)"
    and e: "host_state T1 = snd (Fchmod H out (or 0x16D 0x80) (host_state T))"
    by metis
  have "data (host_state T) = (data h1)(g := D)" "file_of (host_state T) = file_of h1"
    using copy_zip_loop_appends [OF assms(1) assms(6) [OF z] t, of g] g(3,4) by auto
  moreover have "file_of (host_state S') = file_of (host_state T)" "data (host_state S') = data (host_state T)"
    using e t1(2) kept_after_close kept_after_chmod by auto
  ultimately show ?thesis using copied_new [OF g(2,1,5)] by auto
qed

end

section \<open>Copy-up\<close>

text \<open>The path of a name is its parent's path and its own segment.\<close>

lemma WLPath_split:
  assumes "v \<noteq> []" "hd v \<noteq> CHR ''/''"
  shows "WLPath S v = WLPath S (ParentVRel v) @ ''/'' @ BaseName v" "CHR ''/'' \<notin> set (BaseName v)"
  by (cases rule: find_last_of_cases [of "CHR ''/''" v], use assms in \<open>auto simp: WLPath_def ParentVRel_def BaseName_def\<close>)+

text \<open>The part of copy-up after the destination's parent is there.\<close>

definition copy_new :: "'h env \<Rightarrow> resolve_result \<Rightarrow> string \<Rightarrow> ('h, unit res) op" where
  "copy_new E rr dst = do {
     S \<leftarrow> State_Monad.get;
     if copy_is_dir E S rr then do {
       e \<leftarrow> host_do (create_directories (io E) dst);
       ret (case e of Inl _ \<Rightarrow> Inl EIO | Inr _ \<Rightarrow> ok)
     }
     else
       (case (r_kind rr, r_zipEntry rr) of
          (ZipHit, Some e) \<Rightarrow>
            if ze_symlink e then
              trym (ret (zip_link_target E rr e)) (\<lambda>tgt. host_do (Symlink (io E) tgt dst))
            else copy_file E rr dst
        | _ \<Rightarrow>
            if \<not> flattenSymlinks S \<and> (r_kind rr = DirLayer \<or> r_kind rr = FileLayer) \<and>
               (case Lstat (io E) (host_state S) (r_hostPath rr) of
                  Inl _ \<Rightarrow> False | Inr st \<Rightarrow> st_isSymlink st)
            then trym (ret (Readlink (io E) (host_state S) (r_hostPath rr)))
                   (\<lambda>tgt. host_do (Symlink (io E) tgt dst))
            else copy_file E rr dst)
   }"

lemma CopyUp_to_writelayer:
  assumes "writelayer S \<noteq> []" "r_kind rr \<noteq> WriteLayer" "\<not> r_rwPassthrough rr" "PassthroughHost S v = None"
    and "isl (Lstat (io E) (host_state S) (WLPath S v))"
  shows "run_state (CopyUp E v rr) S = run_state (trym (EnsureWriteParent E v) (\<lambda>_. copy_new E rr (WLPath S v))) S"
  using assms by (cases "Lstat (io E) (host_state S) (WLPath S v)") 
    (simp_all add: CopyUp_def copy_new_def Let_def
      cong del: if_weak_cong option.case_cong_weak HitKind.case_cong_weak prod.case_cong_weak)

context file_host
begin

lemma CopyUp_new:
  assumes "io E = H" "writelayer S \<noteq> []" "r_kind rr \<noteq> WriteLayer" "\<not> r_rwPassthrough rr" "PassthroughHost S v = None"
    and "isl (Lstat H (host_state S) (WLPath S v))" "BaseName v \<noteq> []" "v \<noteq> []" "hd v \<noteq> CHR ''/''"
    and "run_state (CopyUp E v rr) S = (ok, S')"
  obtains h where "isl (Lstat H h (WLPath S v))"
    "\<forall>q k. file_of (host_state S) q = Some k \<longrightarrow> file_of h q = Some k \<and> data h k = data (host_state S) k"
    "run_state (copy_new E rr (WLPath S v)) (S\<lparr>host_state := h\<rparr>) = (ok, S')"
proof -
  obtain r h where d: "create_directories H (WLPath S (ParentVRel v)) (host_state S) = (r, h)" by fastforce
  note split = WLPath_split(1) [OF assms(8,9), of S] WLPath_split(2) [OF assms(8,9)]
  have "isl (Lstat H h (WLPath S v))"
    using mkdirs_inside [OF d, of "BaseName v"] assms(6,7) split by simp
  moreover have "\<forall>q k. file_of (host_state S) q = Some k \<longrightarrow> file_of h q = Some k \<and> data h k = data (host_state S) k"
    using mkdirs [OF d] by blast
  moreover have "run_state (EnsureWriteParent E v) S = (case r of Inl _ \<Rightarrow> Inl EIO | Inr _ \<Rightarrow> ok, S\<lparr>host_state := h\<rparr>)"
    using d assms(1) by (simp add: EnsureWriteParent_def)
  then have "run_state (copy_new E rr (WLPath S v)) (S\<lparr>host_state := h\<rparr>) = (ok, S')"
    using assms(1,10) CopyUp_to_writelayer [OF assms(2-5), of E] assms(6) by (cases r) (simp_all add: run_state_trym)
  ultimately show ?thesis by (rule that)
qed

lemma copied_after:
  assumes "\<forall>q k. file_of h q = Some k \<longrightarrow> file_of h1 q = Some k \<and> data h1 k = data h k"
    and "copied file_of data h1 h2 dst b"
  shows "copied file_of data h h2 dst b"
  using assms unfolding copied_def by metis

lemma regular_not_dir:
  assumes "io E = H" "flattenSymlinks S" "\<not> r_rwPassthrough rr" "r_kind rr = DirLayer \<or> r_kind rr = FileLayer"
    and "file_of (host_state S) (r_hostPath rr) = Some f"
  shows "\<not> copy_is_dir E S rr"
  using regular [OF assms(5)] assms(1-4) by (auto simp: copy_is_dir_def)

lemma CopyUp_copies_file:
  assumes "io E = H" "writelayer S \<noteq> []" "flattenSymlinks S" "\<not> r_rwPassthrough rr" "PassthroughHost S v = None"
    and "r_kind rr = DirLayer \<or> r_kind rr = FileLayer" "file_of (host_state S) (r_hostPath rr) = Some f"
    and "isl (Lstat H (host_state S) (WLPath S v))" "BaseName v \<noteq> []" "v \<noteq> []" "hd v \<noteq> CHR ''/''"
    and "run_state (CopyUp E v rr) S = (ok, S')"
  shows "copied file_of data (host_state S) (host_state S') (WLPath S v) (data (host_state S) f)"
proof -
  obtain h where h: "isl (Lstat H h (WLPath S v))"
    "\<forall>q k. file_of (host_state S) q = Some k \<longrightarrow> file_of h q = Some k \<and> data h k = data (host_state S) k"
    "run_state (copy_new E rr (WLPath S v)) (S\<lparr>host_state := h\<rparr>) = (ok, S')"
    by (rule CopyUp_new [OF assms(1,2) _ assms(4,5,8-12)]) (use assms(6) in auto)
  have f: "file_of h (r_hostPath rr) = Some f" using h(2) assms(7) by simp
  have "\<not> copy_is_dir E (S\<lparr>host_state := h\<rparr>) rr"
    using regular_not_dir [OF assms(1) _ assms(4,6), of "S\<lparr>host_state := h\<rparr>"] assms(3) f by simp
  then have c: "run_state (copy_file E rr (WLPath S v)) (S\<lparr>host_state := h\<rparr>) = (ok, S')"
    using h(3) assms(3,6) by (auto simp: copy_new_def)
  have "copied file_of data h (host_state S') (WLPath S v) (data h f)"
    using copy_file_host [OF assms(1) _ _ _ c, of f] assms(6) f h(1) by auto
  then show ?thesis using copied_after [OF h(2)] h(2) assms(7) by auto
qed

lemma CopyUp_copies_entry:
  assumes "io E = H" "writelayer S \<noteq> []" "\<not> r_rwPassthrough rr" "PassthroughHost S v = None"
    and "r_kind rr = ZipHit" "r_zipEntry rr = Some e" "r_layer rr = Some L" "l_zip L = Some I" "\<not> ze_symlink e" "\<not> ze_isDir e"
    and "\<And>zr n off. OpenZipEntry I e = Inr zr \<Longrightarrow>
      \<exists>k \<le> n. ReadZipEntry (zs E) zr n (int off) = Inr (clip D k off) \<and> (n = 0 \<or> length D \<le> off \<or> 0 < k)"
    and "isl (Lstat H (host_state S) (WLPath S v))" "BaseName v \<noteq> []" "v \<noteq> []" "hd v \<noteq> CHR ''/''"
    and "run_state (CopyUp E v rr) S = (ok, S')"
  shows "copied file_of data (host_state S) (host_state S') (WLPath S v) D"
proof -
  obtain h where h: "isl (Lstat H h (WLPath S v))"
    "\<forall>q k. file_of (host_state S) q = Some k \<longrightarrow> file_of h q = Some k \<and> data h k = data (host_state S) k"
    "run_state (copy_new E rr (WLPath S v)) (S\<lparr>host_state := h\<rparr>) = (ok, S')"
    by (rule CopyUp_new [OF assms(1,2) _ assms(3,4,12-16)]) (use assms(5) in auto)
  have c: "run_state (copy_file E rr (WLPath S v)) (S\<lparr>host_state := h\<rparr>) = (ok, S')"
    using h(3) assms(5,6,9,10) by (simp add: copy_new_def copy_is_dir_def)
  have "copied file_of data h (host_state S') (WLPath S v) D"
    using copy_file_zip [OF assms(1,5-8) assms(11) _ c] h(1) by auto
  then show ?thesis by (rule copied_after [OF h(2)])
qed

end

section \<open>The in-memory host\<close>

definition mem_file :: "mem \<Rightarrow> string \<Rightarrow> string option" where
  "mem_file h p = (case node_at h p of Some (FileNode _ _) \<Rightarrow> Some p | _ \<Rightarrow> None)"

definition mem_data :: "mem \<Rightarrow> string \<Rightarrow> bytes" where
  "mem_data h p = (case node_at h p of Some (FileNode _ b) \<Rightarrow> b | _ \<Rightarrow> [])"

definition mem_cursor :: "mem \<Rightarrow> fd \<Rightarrow> (string \<times> nat) option" where
  "mem_cursor h fd = (if fd < length (fds h) \<and> mem_file h (fst (fds h ! fd)) \<noteq> None then Some (fds h ! fd) else None)"

lemmas mem_files = mem_file_def mem_data_def mem_cursor_def

lemma node_at_put [simp]: "node_at (put_node p n h) q = (if q = p then Some n else node_at h q)"
proof -
  have "map_of (filter (\<lambda>e. fst e \<noteq> p) ns) q = (if q = p then None else map_of ns q)" for ns :: "(string \<times> node) list"
    by (induction ns) auto
  then show ?thesis by (simp add: node_at_def put_node_def)
qed

lemma put_node_fds [simp]: "fds (put_node p n h) = fds h"
  by (simp add: put_node_def)

lemma node_at_fds [simp]: "node_at (h\<lparr>fds := x\<rparr>) p = node_at h p"
  by (simp add: node_at_def)

lemma mem_dirs_nodes:
  "node_at (fold (\<lambda>d h. if node_at h d = None \<and> d \<noteq> ''/'' then put_node d (DirNode 0x1ED) h else h) ds h) q =
    (if node_at h q = None \<and> q \<noteq> ''/'' \<and> q \<in> set ds then Some (DirNode 0x1ED) else node_at h q)"
  by (induction ds arbitrary: h) auto

lemma dir_chain_length: "d \<in> set (dir_chain acc p) \<Longrightarrow> length d \<le> length acc + length p"
  by (induction acc p rule: dir_chain.induct) (auto split: if_splits)

lemma regular_mode: "\<not> S_ISDIR (or S_IFREG m)"
proof
  assume "S_ISDIR (or S_IFREG m)"
  then have "bit (and (or S_IFREG m) S_IFMT) 15 = bit S_IFDIR 15" by (simp add: S_ISDIR_def)
  moreover have "bit S_IFREG 15" "bit S_IFMT 15" "\<not> bit S_IFDIR 15"
    by (simp_all add: S_IFREG_def S_IFMT_def S_IFDIR_def bit_iff_odd)
  ultimately show False by (simp only: bit_and_iff bit_or_iff simp_thms)
qed

interpretation mem: file_host mem_host mem_file mem_data mem_cursor
proof unfold_locales
  show "\<exists>f. mem_file h' p = Some f \<and> (\<forall>q. mem_file h q \<noteq> Some f) \<and> mem_data h' f = [] \<and> mem_cursor h' fd = Some (f, 0) \<and>
      (\<forall>q g. mem_file h q = Some g \<longrightarrow> mem_file h' q = Some g \<and> mem_data h' g = mem_data h g)"
    if "Open mem_host p (or O_CREAT (or O_WRONLY O_TRUNC)) m h = (Inr fd, h')" "isl (Lstat mem_host h p)" for p m h fd h'
    using that by (auto simp: mem_open_def mem_lstat_def mem_files Let_def nth_append split: option.splits node.splits if_splits)
  show "mem_cursor h fd = None \<and> mem_cursor h' = (mem_cursor h)(fd \<mapsto> (f, 0)) \<and> mem_file h' = mem_file h \<and> mem_data h' = mem_data h"
    if op: "Open mem_host p O_RDONLY m h = (Inr fd, h')" and mf: "mem_file h p = Some f" for p m h fd h' f
  proof -
    obtain m' b where n: "node_at h p = Some (FileNode m' b)" "f = p"
      using mf by (auto simp: mem_file_def split: option.splits node.splits)
    have h': "fd = length (fds h)" "h' = h\<lparr>fds := fds h @ [(f, 0)]\<rparr>"
      using op n by (simp_all add: mem_open_def Let_def O_RDONLY_def)
    then show ?thesis using n by (auto simp: mem_files fun_eq_iff nth_append)
  qed
  show "(\<exists>k \<le> n. bs = clip (mem_data h f) k pos) \<and> (bs = [] \<longrightarrow> n = 0 \<or> length (mem_data h f) \<le> pos) \<and>
      mem_cursor h' = (mem_cursor h)(fd \<mapsto> (f, pos + length bs)) \<and> mem_file h' = mem_file h \<and> mem_data h' = mem_data h"
    if rd: "Read mem_host fd n h = (Inr bs, h')" and cur: "mem_cursor h fd = Some (f, pos)" for fd n h bs h' f pos
  proof -
    obtain m c where f: "fd < length (fds h)" "fds h ! fd = (f, pos)" "node_at h f = Some (FileNode m c)" "mem_data h f = c"
      using cur by (auto simp: mem_files split: if_splits option.splits node.splits)
    have "h' = h\<lparr>fds := (fds h)[fd := (f, pos + length (clip c n pos))]\<rparr>" "bs = clip c n pos"
      using rd f by (auto simp: mem_read_def content_of_def Let_def)
    then show ?thesis using f by (auto simp: mem_files fun_eq_iff nth_list_update clip_def)
  qed
  show "w \<le> length b \<and> mem_data h' = (mem_data h)(f := mem_data h f @ take w b) \<and>
      mem_cursor h' = (mem_cursor h)(fd \<mapsto> (f, length (mem_data h f) + w)) \<and> mem_file h' = mem_file h"
    if wr: "Write mem_host fd b h = (Inr w, h')" and cur: "mem_cursor h fd = Some (f, length (mem_data h f))" for fd b h w h' f
  proof -
    obtain m c where f: "fd < length (fds h)" "fds h ! fd = (f, length c)" "node_at h f = Some (FileNode m c)" "mem_data h f = c"
      using cur by (auto simp: mem_files split: if_splits option.splits node.splits)
    have "h' = (put_node f (FileNode m (c @ b)) h)\<lparr>fds := (fds h)[fd := (f, length c + length b)]\<rparr>" "w = length b"
      using wr f by (auto simp: mem_write_def set_content_def content_of_def splice_def)
    then show ?thesis using f by (auto simp: mem_files fun_eq_iff nth_list_update)
  qed
  show "mem_cursor h' = mem_cursor h \<and> mem_file h' = mem_file h \<and> mem_data h' = mem_data h"
    if "Write mem_host fd b h = (Inl EINTR, h')" for fd b h h'
    using that by (auto simp: mem_write_def split: if_splits)
  show "mem_file h' = mem_file h \<and> mem_data h' = mem_data h" if "Close mem_host fd h = (r, h')" for fd h r h'
    using that by simp
  show "mem_file h' = mem_file h \<and> mem_data h' = mem_data h" if "Fchmod mem_host fd m h = (r, h')" for fd m h r h'
    using that by (auto simp: mem_host_def mem_chmod_def mem_files fun_eq_iff split: if_splits option.splits node.splits)
  show "mem_file h' q = Some f \<and> mem_data h' f = mem_data h f"
    if "create_directories mem_host p h = (r, h')" "mem_file h q = Some f" for p h r h' q f
    using that by (auto simp: mem_dirs_def Let_def mem_files mem_dirs_nodes split: if_splits option.splits node.splits)
  show "isl (Lstat mem_host h' (p @ ''/'' @ c))"
    if "create_directories mem_host p h = (r, h')" "isl (Lstat mem_host h (p @ ''/'' @ c))" "c \<noteq> []" for p h r h' c
  proof -
    have "p @ ''/'' @ c \<notin> set (dir_chain [] p)" using dir_chain_length [of "p @ ''/'' @ c" "[]" p] by auto
    then show ?thesis using that by (auto simp: mem_dirs_def Let_def mem_lstat_def mem_dirs_nodes split: if_splits option.splits)
  qed
  show "\<exists>st. StatFollow mem_host h p = Inr st \<and> \<not> st_isDir st" if "mem_file h p = Some f" for h p f
    using that regular_mode by (auto simp: mem_files mem_follow_def mem_lstat_def mem_stat_def FromStat_def split: option.splits node.splits)
qed

section \<open>A run on the in-memory host\<close>

lemma demo_host [simp]: "(demo ro h)\<lparr>host_state := h'\<rparr> = demo ro h'"
  by (simp add: demo_def)

definition with_dir :: mem where
  "with_dir = demo_mem\<lparr>nodes := (''/wl/d'', DirNode 0x1ED) # demo_nodes\<rparr>"

definition with_copy :: mem where
  "with_copy = \<lparr>nodes = (''/wl/d/old'', FileNode 0x1A4 []) # (''/wl/d'', DirNode 0x1ED) # demo_nodes, fds = [(''/wl/d/old'', 0)]\<rparr>"

definition both_open :: mem where
  "both_open = with_copy\<lparr>fds := [(''/wl/d/old'', 0), (''/low/d/old'', 0)]\<rparr>"

definition low_hit :: resolve_result where
  "low_hit = \<lparr>r_kind = DirLayer, r_hostPath = ''/low/d/old'', r_layer = Some (plain_layer ''/low'' [] False 0),
     r_zipEntry = None, r_rwPassthrough = False\<rparr>"

definition zip_layer :: layer where
  "zip_layer = (plain_layer ''/a.zip'' [] False 0)\<lparr>l_type := Zip, l_zip := Some demo_index\<rparr>"

definition entry_hit :: resolve_result where
  "entry_hit = \<lparr>r_kind = ZipHit, r_hostPath = [], r_layer = Some zip_layer, r_zipEntry = Some demo_entry, r_rwPassthrough = False\<rparr>"

definition demo_reader :: zip_reader where
  "demo_reader = \<lparr>zr_stored = True, zr_src = Some (MemSource [1, 2, 3]), zr_dataOffset = 1, zr_size = 2\<rparr>"

lemma demo_run_parent: "run_state (EnsureWriteParent mem_env ''d/old'') (demo False demo_mem) = (ok, demo False with_dir)"
  by (simp add: EnsureWriteParent_def run_eval ParentVRel_def Let_def with_dir_def)

lemma demo_run_create:
  "mem_open ''/wl/d/old'' (or O_CREAT (or O_WRONLY O_TRUNC)) 0x1A4 with_dir = (Inr 0, with_copy)"
  by (simp add: run_eval Let_def with_copy_def with_dir_def open_flags)

lemma demo_run_open: "mem_open ''/low/d/old'' O_RDONLY 0 with_copy = (Inr (Suc 0), both_open)"
  by (simp add: run_eval Let_def with_copy_def both_open_def open_flags)

lemma demo_run_write:
  "b \<noteq> [] \<Longrightarrow> fd < length (fds h) \<Longrightarrow> FullWrite mem_host (turns mem_env) fd b h = (Inr (), snd (mem_write fd b h))"
  by (simp add: FullWrite.simps [of mem_host _ fd b h] FullWrite.simps [of mem_host _ fd "[]"] mem_write_def split: nat.split)

lemmas demo_loops = run_state_trym demo_run_write mem_read_def mem_write_def content_of_def set_content_def splice_def clip_def
  both_open_def with_copy_def node_at_def put_node_def demo_nodes_def Let_def

lemma demo_run_host_loop: "\<exists>h. run_state (copy_host_loop (Suc (Suc n)) mem_env (Suc 0) 0) (demo False both_open) = (ok, demo False h)"
  by (simp add: demo_loops BUF_def del: mem_env_fields(2)) (rule exI, rule refl)

lemma demo_reads: "ReadZipEntry Z demo_reader BUF (int 0) = Inr [2, 3]" "ReadZipEntry Z demo_reader BUF (int 2) = Inr []"
  by (simp_all add: ReadZipEntry_def demo_reader_def BUF_def Let_def mem_pread_def clip_def W64_def u64_def)

lemma demo_run_zip_loop: "\<exists>h. run_state (copy_zip_loop (Suc (Suc n)) mem_env demo_reader 0 0) (demo False with_copy) = (ok, demo False h)"
  by (simp add: demo_reads [simplified] demo_loops del: mem_env_fields(2)) (rule exI, rule refl)

lemma demo_run_copy:
  assumes "rr = low_hit \<or> rr = entry_hit"
  shows "fst (run_state (copy_file mem_env rr ''/wl/d/old'') (demo False with_dir)) = ok"
proof -
  obtain h where h: "run_state (copy_host_loop 8 mem_env (Suc 0) 0) (demo False both_open) = (ok, demo False h)"
    using demo_run_host_loop [of 6] by auto
  obtain g where g: "run_state (copy_zip_loop 8 mem_env demo_reader 0 0) (demo False with_copy) = (ok, demo False g)"
    using demo_run_zip_loop [of 6] by auto
  have "OpenZipEntry demo_index demo_entry = Inr demo_reader"
    by (simp add: OpenZipEntry_def demo_entry_def demo_index_def demo_reader_def)
  then show ?thesis using assms
    by (auto simp: copy_file_def run_state_trym demo_run_create demo_run_open h g low_hit_def entry_hit_def zip_layer_def ignore_def
        split: sum.splits prod.splits)
qed

lemma demo_not_there: "isl (Lstat (io mem_env) (host_state (demo False demo_mem)) (WLPath (demo False demo_mem) ''d/old''))"
  by (simp add: demo_eval)

lemma demo_run_CopyUp:
  assumes "rr = low_hit \<or> rr = entry_hit"
  shows "\<exists>S'. run_state (CopyUp mem_env ''d/old'' rr) (demo False demo_mem) = (ok, S')"
proof -
  have w: "WLPath (demo False h) ''d/old'' = ''/wl/d/old''" for h :: mem by (simp add: WLPath_def)
  have "\<not> copy_is_dir mem_env (demo False with_dir) low_hit"
    by (rule mem.regular_not_dir [of _ _ _ "''/low/d/old''"]) (simp_all add: low_hit_def mem_file_def with_dir_def demo_eval)
  moreover have "\<not> copy_is_dir mem_env (demo False with_dir) entry_hit"
    by (simp add: copy_is_dir_def entry_hit_def demo_entry_def)
  ultimately have "run_state (copy_new mem_env rr ''/wl/d/old'') (demo False with_dir) =
      run_state (copy_file mem_env rr ''/wl/d/old'') (demo False with_dir)"
    using assms by (auto simp: copy_new_def low_hit_def entry_hit_def demo_entry_def)
  then have "fst (run_state (CopyUp mem_env ''d/old'' rr) (demo False demo_mem)) = ok"
    using CopyUp_to_writelayer [OF _ _ _ demo_not_kept(1) demo_not_there, of rr] demo_run_copy [OF assms] assms w
    by (auto simp: run_state_trym demo_run_parent low_hit_def entry_hit_def)
  then show ?thesis by (metis prod.collapse)
qed

section \<open>Properties\<close>

text \<open>
  C6: copy-up copies. When the copy-up of a regular file from a lower folder succeeds, the
  writelayer's path leads to a new file with exactly the bytes of the source, however short the
  reads and writes and however often they were interrupted, and every file that was there has
  kept its bytes.
\<close>

theorem copied_up_files_are_exact:
  assumes "file_host (io E) file_of data cursor" "writelayer S \<noteq> []" "flattenSymlinks S" "PassthroughHost S v = None"
    and "r_kind rr = DirLayer \<or> r_kind rr = FileLayer" "\<not> r_rwPassthrough rr" "file_of (host_state S) (r_hostPath rr) = Some f"
    and "isl (Lstat (io E) (host_state S) (WLPath S v))" "v \<noteq> []" "BaseName v \<noteq> []" "hd v \<noteq> CHR ''/''"
    and "run_state (CopyUp E v rr) S = (ok, S')"
  shows "(\<exists>g. file_of (host_state S') (WLPath S v) = Some g \<and> data (host_state S') g = data (host_state S) f) \<and>
    (\<forall>q k. file_of (host_state S) q = Some k \<longrightarrow>
      file_of (host_state S') q = Some k \<and> data (host_state S') k = data (host_state S) k)"
  using file_host.CopyUp_copies_file [OF assms(1) refl assms(2,3,6,4,5,7,8,10,9,11,12)] by (auto simp: copied_def)

theorem copied_up_files_are_exact_witness:
  "\<exists>S'. run_state (CopyUp mem_env ''d/old'' low_hit) (demo False demo_mem) = (ok, S') \<and>
    (\<exists>g. mem_file (host_state S') ''/wl/d/old'' = Some g \<and> mem_data (host_state S') g = [1, 2])"
proof -
  obtain S' where s: "run_state (CopyUp mem_env ''d/old'' low_hit) (demo False demo_mem) = (ok, S')"
    using demo_run_CopyUp by blast
  have f: "mem_file demo_mem ''/low/d/old'' = Some ''/low/d/old''" "mem_data demo_mem ''/low/d/old'' = [1, 2]"
    by (simp_all add: mem_files demo_eval)
  have w: "WLPath (demo False demo_mem) ''d/old'' = ''/wl/d/old''" by (simp add: WLPath_def)
  have n: "BaseName ''d/old'' = ''old''" by (simp add: BaseName_def find_last_of_def)
  have "file_host (io mem_env) mem_file mem_data mem_cursor" using mem.file_host_axioms by simp
  from copied_up_files_are_exact [OF this _ _ demo_not_kept(1) _ _ _ demo_not_there _ _ _ s, of "''/low/d/old''"]
  show ?thesis using s f w n by (simp add: low_hit_def)
qed

text \<open>
  C19: copy-up from an archive. When the copy-up of a stored archive entry succeeds, the
  writelayer's path leads to a new file with exactly the entry's bytes, whatever the archive's
  bytes come from, and every file that was there has kept its bytes.
\<close>

theorem copied_up_entries_are_exact:
  assumes "file_host (io E) file_of data cursor" "writelayer S \<noteq> []" "PassthroughHost S v = None"
    and "r_kind rr = ZipHit" "r_zipEntry rr = Some e" "r_layer rr = Some L" "l_zip L = Some I" "\<not> r_rwPassthrough rr"
    and "\<not> ze_symlink e" "\<not> ze_isDir e" "holds (zs E) (z_src I) c" "ze_dataOffset e + ze_size e \<le> length c"
    and "isl (Lstat (io E) (host_state S) (WLPath S v))" "v \<noteq> []" "BaseName v \<noteq> []" "hd v \<noteq> CHR ''/''"
    and "run_state (CopyUp E v rr) S = (ok, S')"
  shows "(\<exists>g. file_of (host_state S') (WLPath S v) = Some g \<and>
      data (host_state S') g = clip c (ze_size e) (ze_dataOffset e)) \<and>
    (\<forall>q k. file_of (host_state S) q = Some k \<longrightarrow>
      file_of (host_state S') q = Some k \<and> data (host_state S') k = data (host_state S) k)"
proof -
  have len: "length (clip c (ze_size e) (ze_dataOffset e)) = ze_size e" using assms(12) by (simp add: clip_def)
  have "copied file_of data (host_state S) (host_state S') (WLPath S v) (clip c (ze_size e) (ze_dataOffset e))"
    by (rule file_host.CopyUp_copies_entry [OF assms(1) refl assms(2,8,3,4,5,6,7,9,10) _ assms(13,15,14,16,17)])
      (use stored_read [OF assms(11,12)] len in auto)
  then show ?thesis by (auto simp: copied_def)
qed

theorem copied_up_entries_are_exact_witness:
  "\<exists>S'. run_state (CopyUp mem_env ''d/old'' entry_hit) (demo False demo_mem) = (ok, S') \<and>
    (\<exists>g. mem_file (host_state S') ''/wl/d/old'' = Some g \<and> mem_data (host_state S') g = [2, 3])"
proof -
  obtain S' where s: "run_state (CopyUp mem_env ''d/old'' entry_hit) (demo False demo_mem) = (ok, S')"
    using demo_run_CopyUp by blast
  have w: "WLPath (demo False demo_mem) ''d/old'' = ''/wl/d/old''" by (simp add: WLPath_def)
  have n: "BaseName ''d/old'' = ''old''" by (simp add: BaseName_def find_last_of_def)
  have "holds (zs mem_env) (z_src demo_index) [1, 2, 3]"
    by (simp add: demo_index_def) (rule holds_mem, simp add: W64_def)
  moreover have "file_host (io mem_env) mem_file mem_data mem_cursor" using mem.file_host_axioms by simp
  ultimately show ?thesis
    using copied_up_entries_are_exact [OF _ _ demo_not_kept(1) _ _ _ _ _ _ _ _ _ demo_not_there _ _ _ s, of mem_file mem_data mem_cursor
        demo_entry zip_layer demo_index "[1, 2, 3]"] s w n
    by (simp add: entry_hit_def zip_layer_def demo_entry_def clip_def)
qed

end
