(* ===== verification/CreateProps.thy ===== *)
theory CreateProps
  imports CopyProps
begin

text \<open>
  Making names: what create, mkdir and symlink leave in the writelayer can be looked up.
  \<open>name_host\<close> is what that takes of the host: a call that made a name leaves it there, and
  opening and closing files removes none.
\<close>

section \<open>Host names\<close>

abbreviation there :: "'h host \<Rightarrow> 'h \<Rightarrow> string \<Rightarrow> bool" where
  "there H h p \<equiv> \<not> isl (Lstat H h p)"

locale name_host =
  fixes H :: "'h host"
  assumes create_makes: "Open H p fl m h = (Inr fd, h') \<Longrightarrow> and fl O_CREAT \<noteq> 0 \<Longrightarrow> there H h' p"
    and mkdir_makes: "Mkdir H p m h = (Inr (), h') \<Longrightarrow> there H h' p"
    and symlink_makes: "Symlink H t p h = (Inr (), h') \<Longrightarrow> there H h' p"
    and open_keeps: "Open H q fl m h = (r, h') \<Longrightarrow> there H h p \<Longrightarrow> there H h' p"
    and close_keeps: "Close H fd h = (c, h') \<Longrightarrow> there H h p \<Longrightarrow> there H h' p"
begin

lemma touch_there:
  assumes "io E = H" "there H (host_state S) p"
  shows "there H (host_state (snd (run_state (touch E q) S))) p"
  using assms open_keeps close_keeps
  by (auto simp: touch_def ignore_def split: prod.split sum.split)

lemma MarkOpaque_there:
  assumes "io E = H" "there H (host_state S) p"
  shows "there H (host_state (snd (run_state (MarkOpaque E v) S))) p"
  using touch_there [OF assms] assms(2) by (auto simp: MarkOpaque_def MutateOpaques_def split: prod.split) (metis snd_conv)

end

text \<open>The look-up of a name that is in the writelayer and not deleted there.\<close>

definition in_writelayer :: "'h env \<Rightarrow> 'h vfs \<Rightarrow> string \<Rightarrow> bool" where
  "in_writelayer E S v \<longleftrightarrow> Resolve E S v = no_hit\<lparr>r_kind := WriteLayer, r_hostPath := WLPath S v\<rparr>"

lemma there_resolves:
  "writelayer S \<noteq> [] \<Longrightarrow> v \<notin> whiteoutSet S \<Longrightarrow> there (io E) (host_state S) (WLPath S v) \<Longrightarrow> in_writelayer E S v"
  by (auto simp: in_writelayer_def Resolve_def IsWhiteouted_def Let_def isl_def split: sum.split)

lemma write_hit_there: "r_kind (Resolve E S v) = WriteLayer \<Longrightarrow> \<exists>st. Lstat (io E) (host_state S) (WLPath S v) = Inr st"
  by (auto simp: Resolve_def no_hit_def Let_def resolve_layers_kind split: if_splits sum.splits)

text \<open>The common front of the three operations, and \<^verbatim>\<open>O_CREAT\<close> survives the change of the flags.\<close>

lemma front_effect:
  assumes "writelayer S \<noteq> []"
  obtains r h where "run_state (do { RemoveWhiteout E v; EnsureWriteParent E v }) S =
    (r, S\<lparr>host_state := h, whiteoutSet := whiteoutSet S - {v}\<rparr>)"
proof -
  obtain h where h: "run_state (RemoveWhiteout E v) S = ((), S\<lparr>host_state := h, whiteoutSet := whiteoutSet S - {v}\<rparr>)"
    using RemoveWhiteout_effect [OF assms] by blast
  obtain r g where "run_state (EnsureWriteParent E v) (S\<lparr>host_state := h, whiteoutSet := whiteoutSet S - {v}\<rparr>) =
      (r, S\<lparr>host_state := h, whiteoutSet := whiteoutSet S - {v}\<rparr>\<lparr>host_state := g\<rparr>)"
    using EnsureWriteParent_effect [of E v "S\<lparr>host_state := h, whiteoutSet := whiteoutSet S - {v}\<rparr>"] by auto
  then show ?thesis using that [of r g] h by simp
qed

lemma creating_flags: "and (and (or fl O_CREAT) (not O_NOFOLLOW)) O_CREAT \<noteq> 0"
proof
  assume "and (and (or fl O_CREAT) (not O_NOFOLLOW)) O_CREAT = 0"
  then have "bit (and (and (or fl O_CREAT) (not O_NOFOLLOW)) O_CREAT) 6 = bit (0 :: flags) 6" by simp
  moreover have "bit O_CREAT 6" "\<not> bit O_NOFOLLOW 6"
    by (simp_all add: O_CREAT_def O_NOFOLLOW_def bit_iff_odd)
  ultimately show False by (simp add: bit_and_iff bit_or_iff bit_not_iff)
qed

context name_host
begin

lemma VfsCreate_there:
  assumes "io E = H" "writelayer S \<noteq> []" "v \<noteq> []" "PassthroughHost S v = None"
    and "run_state (VfsCreate E v md fl) S = (Inr x, T)"
  shows "in_writelayer E T v"
proof -
  obtain r h where f: "run_state (do { RemoveWhiteout E v; EnsureWriteParent E v }) S =
      (r, S\<lparr>host_state := h, whiteoutSet := whiteoutSet S - {v}\<rparr>)" by (rule front_effect [OF assms(2)])
  let ?S = "S\<lparr>host_state := h, whiteoutSet := whiteoutSet S - {v}\<rparr>"
  have "\<not> readOnly S" using assms(5) by (auto simp: VfsCreate_def)
  then obtain fd g where o: "Open H (WLPath S v) (and (or fl O_CREAT) (not O_NOFOLLOW)) md h = (Inr fd, g)" "T = ?S\<lparr>host_state := g\<rparr>"
    using assms(1,4,5) f by (auto simp: VfsCreate_def run_state_trym WLPath_def Let_def split: prod.splits sum.splits if_splits)
  then have "there H (host_state T) (WLPath T v)" using create_makes [OF o(1) creating_flags] assms(3) by (simp add: WLPath_def)
  then show ?thesis using there_resolves [of T v E] o(2) assms(1,2) by simp
qed

lemma VfsMkdir_there:
  assumes "io E = H" "writelayer S \<noteq> []" "v \<noteq> []" "PassthroughHost S v = None"
    and "run_state (VfsMkdir E v md) S = (ok, T)"
  shows "in_writelayer E T v"
proof -
  obtain r h where f: "run_state (do { RemoveWhiteout E v; EnsureWriteParent E v }) S =
      (r, S\<lparr>host_state := h, whiteoutSet := whiteoutSet S - {v}\<rparr>)" by (rule front_effect [OF assms(2)])
  let ?S = "S\<lparr>host_state := h, whiteoutSet := whiteoutSet S - {v}\<rparr>"
  have "\<not> readOnly S" using assms(5) by (auto simp: VfsMkdir_def)
  then obtain g where o: "Mkdir H (WLPath S v) md h = (Inr (), g)"
    "T = ?S\<lparr>host_state := g\<rparr> \<or> T = snd (run_state (MarkOpaque E v) (?S\<lparr>host_state := g\<rparr>))"
    using assms(1,4,5) f by (auto simp: VfsMkdir_def run_state_trym Let_def split: prod.splits sum.splits if_splits)
  have t: "there H g (WLPath S v)" using mkdir_makes [OF o(1)] .
  obtain k where k: "run_state (MarkOpaque E v) (?S\<lparr>host_state := g\<rparr>) =
      ((), ?S\<lparr>host_state := k, opaqueSet := Set.insert v (opaqueSet S)\<rparr>)"
    using MarkOpaque_effect [of "?S\<lparr>host_state := g\<rparr>" E v] assms(2) by auto
  then have "there H k (WLPath S v)" using MarkOpaque_there [OF assms(1), of "?S\<lparr>host_state := g\<rparr>" "WLPath S v" v] t by simp
  then have "there H (host_state T) (WLPath T v)" "whiteoutSet T = whiteoutSet S - {v}" "writelayer T = writelayer S"
    using o(2) k t by (auto simp: WLPath_def)
  then show ?thesis using there_resolves [of T v E] assms(1,2) by simp
qed

lemma VfsSymlink_there:
  assumes "io E = H" "writelayer S \<noteq> []" "v \<noteq> []" "PassthroughHost S v = None"
    and "run_state (VfsSymlink E t v) S = (ok, T)"
  shows "in_writelayer E T v"
proof -
  obtain r h where f: "run_state (do { RemoveWhiteout E v; EnsureWriteParent E v }) S =
      (r, S\<lparr>host_state := h, whiteoutSet := whiteoutSet S - {v}\<rparr>)" by (rule front_effect [OF assms(2)])
  let ?S = "S\<lparr>host_state := h, whiteoutSet := whiteoutSet S - {v}\<rparr>"
  have "\<not> readOnly S" using assms(5) by (auto simp: VfsSymlink_def)
  then obtain g where o: "Symlink H t (WLPath S v) h = (Inr (), g)" "T = ?S\<lparr>host_state := g\<rparr>"
    using assms(1,4,5) f by (auto simp: VfsSymlink_def run_state_trym split: prod.splits sum.splits if_splits)
  then have "there H (host_state T) (WLPath T v)" using symlink_makes [OF o(1)] assms(3) by (simp add: WLPath_def)
  then show ?thesis using there_resolves [of T v E] o(2) assms(1,2) by simp
qed

end

interpretation mem_names: name_host mem_host
  by unfold_locales
    (auto simp: mem_open_def mem_make_def mem_lstat_def Let_def split: if_splits option.splits node.splits)

section \<open>Properties\<close>

text \<open>
  C13: what is made exists. On any host whose calls make the names they say they made, a name
  that create, mkdir or symlink made outside the kept folders resolves to the writelayer's own
  file at its path, whatever was deleted there before and whatever the lower layers hold.
\<close>

theorem created_names_exist:
  assumes "name_host (io E)" "writelayer S \<noteq> []" "v \<noteq> []" "PassthroughHost S v = None"
    and "(\<exists>f. run_state (VfsCreate E v md fl) S = (Inr f, T)) \<or> run_state (VfsMkdir E v md) S = (ok, T) \<or>
      run_state (VfsSymlink E t v) S = (ok, T)"
  shows "r_kind (Resolve E T v) = WriteLayer \<and> r_hostPath (Resolve E T v) = WLPath T v \<and> VfsGetattr E T v \<noteq> Inl ENOENT"
proof -
  have "in_writelayer E T v"
    using assms(5) name_host.VfsCreate_there [OF assms(1) refl assms(2-4)] name_host.VfsMkdir_there [OF assms(1) refl assms(2-4)]
      name_host.VfsSymlink_there [OF assms(1) refl assms(2-4)] by blast
  moreover from this have "\<exists>st. Lstat (io E) (host_state T) (WLPath T v) = Inr st"
    using write_hit_there [of E T v] by (simp add: in_writelayer_def)
  ultimately show ?thesis using assms(3) by (auto simp: in_writelayer_def VfsGetattr_def Let_def)
qed

theorem created_names_exist_witness:
  "r_kind (Resolve mem_env (snd (run_state (VfsMkdir mem_env ''n'' 0x1ED) (demo False demo_mem))) ''n'') = WriteLayer"
proof -
  have p: "PassthroughHost (demo False demo_mem) ''n'' = None"
    by (simp add: PassthroughHost_def kept_for_def plain_layer_def LayerCovers_def)
  have "fst (run_state (VfsMkdir mem_env ''n'' 0x1ED) (demo False demo_mem)) = ok"
    using p by (simp add: VfsMkdir_def run_state_trym RemoveWhiteout_def EnsureWriteParent_def IsWhiteouted_def MutateWhiteouts_def
        WhiteoutPath_def ParentVRel_def BaseName_def run_eval Let_def)
  then have "run_state (VfsMkdir mem_env ''n'' 0x1ED) (demo False demo_mem) =
      (ok, snd (run_state (VfsMkdir mem_env ''n'' 0x1ED) (demo False demo_mem)))" by (metis prod.collapse)
  moreover have "name_host (io mem_env)" using mem_names.name_host_axioms by simp
  ultimately show ?thesis using created_names_exist [of mem_env "demo False demo_mem" "''n''" "0x1ED"] p by fastforce
qed

end
