(* ===== verification/ListProps.thy ===== *)
theory ListProps
  imports InitProps CreateProps
begin

text \<open>
  Listings are complete: a name that can be looked up in a directory is among the directory's
  children, so a directory with anything visible in it is never taken for empty.
\<close>

section \<open>Names in a directory\<close>

text \<open>
  A directory that can be opened for reading lists every name that can be looked up in it. One that may
  only be searched lists nothing.
\<close>

locale dir_host =
  fixes H :: "'h host" and readable :: "'h \<Rightarrow> string \<Rightarrow> bool"
  assumes listed: "readable h p \<Longrightarrow> Lstat H h (p @ ''/'' @ n) = Inr st \<Longrightarrow> n \<noteq> [] \<Longrightarrow> CHR ''/'' \<notin> set n \<Longrightarrow>
    n \<noteq> ''.'' \<Longrightarrow> n \<noteq> ''..'' \<Longrightarrow> n \<in> set (ReadDir H h p)"

text \<open>A directory's path and a name in it, as the kernel sends them.\<close>

definition child_name :: "string \<Rightarrow> string \<Rightarrow> bool" where
  "child_name v n \<longleftrightarrow> (v = [] \<or> last v \<noteq> CHR ''/'') \<and> n \<noteq> [] \<and> CHR ''/'' \<notin> set n \<and> n \<noteq> ''.'' \<and> n \<noteq> ''..''"

lemma prefix_child:
  assumes "CHR ''/'' \<notin> set n"
  shows "prefix (a @ ''/'') (child_path v n) \<longleftrightarrow> v \<noteq> [] \<and> (a = v \<or> prefix (a @ ''/'') v)"
proof (cases "v = []")
  case True
  then show ?thesis using assms by (auto simp: child_path_def prefix_def)
qed (use ancestor_cases [OF assms, of a v] in \<open>simp add: child_path_def\<close>)

lemma below_child: "below v (child_path v n)"
  by (simp add: below_def child_path_def)

lemma covers_child:
  assumes "child_name v n" "l_type L \<noteq> File" "LayerCovers L (child_path v n)"
  shows "LayerCovers L v \<or> l_target L = child_path v n"
  using assms prefix_child [of n "l_target L" v] by (auto simp: LayerCovers_def child_name_def split: if_splits)

lemma masked_child: "CHR ''/'' \<notin> set n \<Longrightarrow> LayerMasked L v \<Longrightarrow> LayerMasked L (child_path v n)"
  using prefix_child [of n _ v] by (auto simp: LayerMasked_def Within_def list_ex_iff child_path_def)

lemma RelUnder_child:
  assumes "child_name v n" "l_type L \<noteq> File" "LayerCovers L v"
  shows "RelUnder L (child_path v n) = child_path (RelUnder L v) n"
proof (cases "l_target L = [] \<or> v = l_target L")
  case True
  then show ?thesis by (auto simp: RelUnder_def child_path_def)
next
  case False
  then obtain x where x: "v = l_target L @ ''/'' @ x" "x \<noteq> []"
    using assms by (auto simp: LayerCovers_def prefix_def child_name_def split: if_splits)
  then show ?thesis using False by (auto simp: RelUnder_def child_path_def)
qed

lemma SourceRel_child:
  assumes "child_name v n" "l_type L \<noteq> File" "LayerCovers L v"
  shows "SourceRel L (child_path v n) = child_path (SourceRel L v) n"
proof -
  have "child_path (RelUnder L v) n \<noteq> []" using assms(1) by (simp add: child_path_def child_name_def)
  then show ?thesis unfolding SourceRel_def Let_def RelUnder_child [OF assms] by (auto simp: child_path_def)
qed

lemma source_path_child: "n \<noteq> [] \<Longrightarrow> source_path L (child_path r n) = source_path L r @ ''/'' @ n"
  by (simp add: source_path_def child_path_def)

lemma WLPath_child: "n \<noteq> [] \<Longrightarrow> WLPath S (child_path v n) = WLPath S v @ ''/'' @ n"
  by (simp add: WLPath_def child_path_def)

lemma SegmentAfter_child: "CHR ''/'' \<notin> set n \<Longrightarrow> SegmentAfter v (child_path v n) = n"
  by (simp add: SegmentAfter_def child_path_def find_first_of_None [THEN iffD2])

section \<open>What one layer adds\<close>

lemma list_layer_out: "li_out li \<subseteq> li_out (list_layer E S v opq L li)"
  by (auto simp: list_layer_def list_dir_layer_def list_zip_layer_def list_structure_def Let_def split: option.splits)

lemma list_layer_kept:
  assumes "\<not> kept_for v L"
  shows "li_keptWhiteouts (list_layer E S v opq L li) = li_keptWhiteouts li"
  using assms
  by (auto simp: list_layer_def list_dir_layer_def list_zip_layer_def list_structure_def kept_for_def Let_def split: option.splits)

lemma fold_list_out: "li_out li \<subseteq> li_out (fold (list_layer E S v opq) Ls li)"
proof (induction Ls arbitrary: li)
  case (Cons L Ls)
  show ?case using subset_trans [OF list_layer_out [of li E S v opq L] Cons.IH] by simp
qed simp

lemma fold_list_member:
  assumes "L \<in> set Ls" "\<And>li. n \<in> li_out (list_layer E S v opq L li)"
  shows "n \<in> li_out (fold (list_layer E S v opq) Ls li)"
  using assms(1)
proof (induction Ls arbitrary: li)
  case (Cons M Ls)
  show ?case
  proof (cases "M = L")
    case True
    then show ?thesis using assms(2) [of li] fold_list_out [of "list_layer E S v opq M li" E S v opq Ls] by auto
  next
    case False
    then show ?thesis using Cons by simp
  qed
qed simp

lemma fold_list_kept:
  "\<forall>L \<in> set Ls. \<not> kept_for v L \<Longrightarrow> li_keptWhiteouts (fold (list_layer E S v opq) Ls li) = li_keptWhiteouts li"
  by (induction Ls arbitrary: li) (simp_all add: list_layer_kept)

lemma no_kept_prio: "\<forall>L \<in> set (layers S). \<not> kept_for v L \<Longrightarrow> opaque_prio S v = - 1"
proof -
  have "\<forall>L \<in> set Ls. \<not> kept_for v L \<Longrightarrow>
    fold (\<lambda>L p. if l_type L = Dir \<and> l_rw L \<and> LayerCovers L v \<and> priority L > p \<and> KeptOpaqueDir L v
            then priority L else p) Ls p = p" for Ls p
    by (induction Ls) (auto simp: kept_for_def)
  then show "\<forall>L \<in> set (layers S). \<not> kept_for v L \<Longrightarrow> ?thesis" by (simp add: opaque_prio_def)
qed

context dir_host
begin

text \<open>A layer that serves a name lists it.\<close>

lemma list_layer_hit:
  assumes "io E = H" "child_name v n" "resolve_layer E S L (child_path v n) = Hit r" "r_kind r \<noteq> HitNone"
    and "wf_layer L" "0 \<le> priority L" "opaque_prio S v = - 1" "\<not> kept_for v L"
    and "l_type L = Dir \<Longrightarrow> LayerCovers L v \<Longrightarrow> readable (host_state S) (source_path L (SourceRel L v))"
  shows "n \<in> li_out (list_layer E S v False L li)"
proof -
  have n: "n \<noteq> []" "CHR ''/'' \<notin> set n" "n \<noteq> ''.''" "n \<noteq> ''..''" using assms(2) by (simp_all add: child_name_def)
  have c: "LayerCovers L (child_path v n)" "\<not> LayerMasked L v"
    using assms(3) masked_child [OF n(2), of L v] by (auto simp: resolve_layer_def split: if_splits)
  let ?add = "if LayerCovers L v then
      (if l_type L = Dir then list_dir_layer E S L v li else if l_type L = Zip then list_zip_layer E S L v li else li) else li"
  have all: "list_layer E S v False L li = list_structure L v ?add"
    using assms(6,7) c(2) by (simp add: list_layer_def)
  have struct: "n \<in> li_out (list_structure L v li')" if "(if l_type L = File then fileVPath L else l_target L) = child_path v n" for li'
    using that SegmentAfter_child [OF n(2), of v] n(1) by (auto simp: list_structure_def nonempty_def Let_def)
  have mono: "li_out li' \<subseteq> li_out (list_structure L v li')" for li' by (auto simp: list_structure_def Let_def)
  show ?thesis
  proof (cases "l_type L = File \<or> \<not> LayerCovers L v")
    case True
    then show ?thesis using c(1) covers_child [OF assms(2) _ c(1)] struct
      unfolding all by (cases "l_type L = File") (auto simp: LayerCovers_def)
  next
    case False
    then have cov: "LayerCovers L v" "l_type L \<noteq> File" by simp_all
    note rel = SourceRel_child [OF assms(2) cov(2,1)]
    have t: "l_type L = Dir \<or> l_type L = Zip" using cov(2) assms(5) by (cases "l_type L") (auto simp: wf_layer_def)
    have "n \<in> li_out ?add"
    proof (cases "l_type L = Dir")
      case True
      then obtain st where "Lstat H (host_state S) (source_path L (SourceRel L v) @ ''/'' @ n) = Inr st"
        using assms(1,3,4) rel n(1) c(1)
        by (auto simp: resolve_layer_def resolve_dir_def no_hit_def source_path_child Let_def split: if_splits sum.splits)
      then have "n \<in> set (ReadDir H (host_state S) (source_path L (SourceRel L v)))"
        using listed n assms(9) [OF True cov(1)] by blast
      moreover have "\<not> l_rw L" using assms(8) cov(1) True by (simp add: kept_for_def)
      ultimately show ?thesis using cov(1) True assms(1) by (simp add: list_dir_layer_def Let_def)
    next
      case False
      then have zip: "l_type L = Zip" using t by simp
      then obtain I where I: "l_zip L = Some I" "listed_but {} I" using assms(5) by (auto simp: wf_layer_def)
      have z: "resolve_zip E S L (child_path v n) = Hit r" using assms(3) zip by (auto simp: resolve_layer_def split: if_splits)
      then have "known I (child_path (SourceRel L v) n)"
        using I(1) rel by (auto simp: resolve_zip_def known_def Let_def split: option.splits if_splits)
      then obtain cs where cs: "dirChildren I (SourceRel L v) = Some cs" "n \<in> cs"
        using I(2) n unfolding listed_but_def lists_child_def by blast
      have "zip_listed E S I (SourceRel L v) n"
        using z I(1) rel by (auto simp: resolve_zip_def zip_listed_def Let_def split: option.splits if_splits)
      then show ?thesis using cs cov(1) zip I(1) by (simp add: list_zip_layer_def Let_def)
    qed
    then show ?thesis unfolding all using mono by blast
  qed
qed

text \<open>The markers on disk of a directory are in the masks.\<close>

lemma children_complete:
  assumes H: "io E = H" and c: "child_name v n" "\<not> is_marker n" and wf: "stack_ok (layers S)"
    and kept: "\<forall>L \<in> set (layers S). \<not> kept_for v L"
    and del: "\<forall>m \<in> marker_names (ReadDir H (host_state S) (WLPath S v)). child_path v m \<in> whiteoutSet S"
    and opq: "''.wh..wh..opq'' \<in> set (ReadDir H (host_state S) (WLPath S v)) \<longrightarrow> v \<in> opaqueSet S"
    and wr: "readable (host_state S) (WLPath S v)"
    and lr: "\<forall>L \<in> set (layers S). l_type L = Dir \<and> LayerCovers L v \<longrightarrow> readable (host_state S) (source_path L (SourceRel L v))"
    and r: "r_kind (Resolve E S (child_path v n)) \<noteq> HitNone"
  shows "n \<in> CollectChildren E S v"
proof -
  have n: "n \<noteq> []" "CHR ''/'' \<notin> set n" "n \<noteq> ''.''" "n \<noteq> ''..''" using c(1) by (simp_all add: child_name_def)
  have ne: "child_path v n \<noteq> []" using n(1) by (simp add: child_path_def)
  define wl where "wl = (if writelayer S = [] then [] else ReadDir H (host_state S) (WLPath S v))"
  define o' where "o' \<longleftrightarrow> ''.wh..wh..opq'' \<in> set wl"
  define li where "li = fold (list_layer E S v o') (layers S) \<lparr>li_out = plain_names wl, li_keptWhiteouts = {}, li_keptOwn = {}\<rparr>"
  have kw: "li_keptWhiteouts li = {}" by (simp add: li_def fold_list_kept [OF kept])
  have C: "CollectChildren E S v = (if o' then li_out li
      else li_out li \<union> \<Union> ((\<lambda>d. nonempty (SegmentAfter v d)) ` implicitDirs S)) - marker_names wl"
    by (simp only: CollectChildren_def Let_def H wl_def [symmetric] o'_def [symmetric] li_def [symmetric] kw Diff_empty empty_Diff)
  have start: "plain_names wl \<subseteq> li_out li" using fold_list_out [of "\<lparr>li_out = plain_names wl, li_keptWhiteouts = {}, li_keptOwn = {}\<rparr>"]
    unfolding li_def by simp
  have live: "n \<notin> marker_names wl"
  proof
    assume "n \<in> marker_names wl"
    then have "child_path v n \<in> whiteoutSet S" "writelayer S \<noteq> []" using del by (auto simp: wl_def marker_names_def split: if_splits)
    then show False using r ne by (simp add: Resolve_whiteout no_hit_def)
  qed
  have "n \<in> (if o' then li_out li else li_out li \<union> \<Union> ((\<lambda>d. nonempty (SegmentAfter v d)) ` implicitDirs S))"
  proof (cases "passes E S (child_path v n)")
    case False
    then have "r_kind (Resolve E S (child_path v n)) = WriteLayer" "writelayer S \<noteq> []"
      using Resolve_stops [OF False] r by (auto simp: passes_def)
    then obtain st where "Lstat H (host_state S) (WLPath S v @ ''/'' @ n) = Inr st"
      using write_hit_there [of E S "child_path v n"] H n(1) by (auto simp: WLPath_child)
    then have "n \<in> plain_names wl"
      using listed [OF wr] n c(2) \<open>writelayer S \<noteq> []\<close> by (auto simp: plain_names_def wl_def)
    then show ?thesis using start by auto
  next
    case True
    have no: "\<not> o'"
    proof
      assume "o'"
      then have "writelayer S \<noteq> []" "v \<in> opaqueSet S" using opq by (auto simp: o'_def wl_def split: if_splits)
      then have "hidden S (child_path v n)" using below_child [of v n] by (auto simp: hidden_def)
      then show False using True \<open>writelayer S \<noteq> []\<close> by (simp add: passes_def)
    qed
    have "r_kind (resolve_layers E S u Ls) \<noteq> HitNone \<Longrightarrow>
        u \<in> implicitDirs S \<or> (\<exists>L r. L \<in> set Ls \<and> resolve_layer E S L u = Hit r \<and> r_kind r \<noteq> HitNone)" for u Ls
      by (induction Ls) (auto simp: no_hit_def split: if_splits answer.splits)
    then consider "child_path v n \<in> implicitDirs S"
      | L r where "L \<in> set (layers S)" "resolve_layer E S L (child_path v n) = Hit r" "r_kind r \<noteq> HitNone"
      using r Resolve_passes [OF True] by fastforce
    then show ?thesis
    proof cases
      case 1
      then show ?thesis using no SegmentAfter_child [OF n(2), of v] n(1) by (auto simp: nonempty_def intro!: bexI [of _ "child_path v n"])
    next
      case (2 L r)
      obtain i where i: "i < length (layers S)" "layers S ! i = L" using 2(1) by (auto simp: in_set_conv_nth)
      have "map priority (layers S) ! i = map int [0..<length (layers S)] ! i" using wf by (simp add: stack_ok_def)
      then have "0 \<le> priority L" using i by simp
      then have "n \<in> li_out (list_layer E S v False L li')" for li'
        using list_layer_hit [OF H c(1) 2(2,3)] 2(1) wf kept lr no_kept_prio [OF kept] by (auto simp: stack_ok_def list_all_iff)
      then show ?thesis using fold_list_member [OF 2(1), of n E S v False] no unfolding li_def by simp
    qed
  qed
  then show ?thesis using live C by simp
qed

end

interpretation mem_dir: dir_host mem_host "\<lambda>h p. True"
proof
  fix h p n st
  assume a: "Lstat mem_host h (p @ ''/'' @ n) = Inr st" "n \<noteq> []" "CHR ''/'' \<notin> set n"
  have "p @ ''/'' @ n \<noteq> ''/''" using a(2) by (cases p) auto
  then have "map_of (nodes h) (p @ ''/'' @ n) \<noteq> None" using a by (auto simp: mem_lstat_def node_at_def split: option.splits if_splits)
  then obtain x where "(p @ ''/'' @ n, x) \<in> set (nodes h)" using map_of_SomeD by fastforce
  then show "n \<in> set (ReadDir mem_host h p)" using a(3) by (force simp: mem_names_def)
qed

section \<open>Properties\<close>

text \<open>
  C7: a directory with something in it stays. Outside the kept folders, when the directory can be
  read on the host wherever it has a part and the writelayer's markers in it agree with the masks,
  every name that can be looked up in it is listed, and removing the directory is refused and
  changes nothing: with \<^verbatim>\<open>ENOTEMPTY\<close> on a writable mount, with \<^verbatim>\<open>EROFS\<close> on a read-only one.
\<close>

theorem visible_names_keep_their_directory:
  assumes "dir_host (io E) readable" "wf_vfs S" "child_name v n" "\<not> is_marker n"
    and "\<forall>L \<in> set (layers S). \<not> kept_for v L"
    and "\<forall>m \<in> marker_names (ReadDir (io E) (host_state S) (WLPath S v)). child_path v m \<in> whiteoutSet S"
    and "''.wh..wh..opq'' \<in> set (ReadDir (io E) (host_state S) (WLPath S v)) \<longrightarrow> v \<in> opaqueSet S"
    and "readable (host_state S) (WLPath S v)"
    and "\<forall>L \<in> set (layers S). l_type L = Dir \<and> LayerCovers L v \<longrightarrow> readable (host_state S) (source_path L (SourceRel L v))"
    and "r_kind (Resolve E S (child_path v n)) \<noteq> HitNone"
  shows "n \<in> CollectChildren E S v \<and>
    run_state (VfsRmdir E v) S = (Inl (if readOnly S then EROFS else ENOTEMPTY), S)"
proof -
  have "n \<in> CollectChildren E S v"
    using dir_host.children_complete [OF assms(1) refl assms(3,4) _ assms(5-10)] assms(2) by (simp add: wf_vfs_def)
  then show ?thesis by (auto simp: VfsRmdir_def)
qed

lemma demo_found: "r_kind (Resolve mem_env (demo False demo_mem) ''d/old'') \<noteq> HitNone"
proof -
  obtain r where r: "resolve_layer mem_env (demo False demo_mem) (plain_layer ''/low'' [] False 0) ''d/old'' = Hit r" "r_kind r \<noteq> HitNone"
    using offers_hit [OF demo_offers] by blast
  have "resolve_layer mem_env (demo False demo_mem) (plain_layer ''/keep'' ''save'' True 1) ''d/old'' = Next"
    by (simp add: resolve_layer_def LayerCovers_def plain_layer_def)
  then show ?thesis using r by (simp add: Resolve_passes [OF demo_passes])
qed

theorem visible_names_keep_their_directory_witness:
  "run_state (VfsRmdir mem_env ''d'') (demo False demo_mem) = (Inl ENOTEMPTY, demo False demo_mem)"
proof -
  have w: "mem_names demo_mem ''/wl/d'' = []" by (simp add: mem_names_def demo_mem_def demo_nodes_def)
  have wl: "WLPath (demo False demo_mem) ''d'' = ''/wl/d''" by (simp add: WLPath_def)
  have "wf_vfs (demo False demo_mem)"
    by (simp add: wf_vfs_def stack_ok_def wf_layer_def masks_ok_def table_ok_def demo_def plain_layer_def upt_rec)
  moreover have "r_kind (Resolve mem_env (demo False demo_mem) (child_path ''d'' ''old'')) \<noteq> HitNone"
    using demo_found by (simp add: child_path_def)
  moreover have "dir_host (io mem_env) (\<lambda>h p. True)" using mem_dir.dir_host_axioms by simp
  ultimately show ?thesis
    using visible_names_keep_their_directory [of mem_env "\<lambda>h p. True" "demo False demo_mem" "''d''" "''old''"] w wl
    by (simp add: child_name_def is_marker_def marker_names_def kept_for_def plain_layer_def LayerCovers_def)
qed

end
