(* ===== verification/SeedProps.thy ===== *)
theory SeedProps
  imports InitProps
begin

text \<open>
  The deletion masks at mount time are exactly the markers on disk: the directories the walk
  reaches as an inductive relation, the walk's result in terms of it, and the walk's end.
\<close>

section \<open>The directories of a tree\<close>

definition subdir :: "'h host \<Rightarrow> 'h \<Rightarrow> (string \<Rightarrow> string) \<Rightarrow> string \<Rightarrow> string \<Rightarrow> bool" where
  "subdir H h path d n \<longleftrightarrow> n \<in> set (ReadDir H h (path d)) \<and> \<not> is_marker n \<and>
     (\<exists>st. Lstat H h (path d @ ''/'' @ n) = Inr st \<and> st_isDir st)"

text \<open>
  \<open>reach H h path r k d\<close>: the directory \<open>d\<close> lies \<open>k\<close> levels below \<open>r\<close>. Marker names are not
  descended into; \<open>path\<close> maps a virtual directory to its host path.
\<close>

inductive reach :: "'h host \<Rightarrow> 'h \<Rightarrow> (string \<Rightarrow> string) \<Rightarrow> string \<Rightarrow> nat \<Rightarrow> string \<Rightarrow> bool"
  for H h path r where
  root: "reach H h path r 0 r"
| sub: "reach H h path r k d \<Longrightarrow> subdir H h path d n \<Longrightarrow> reach H h path r (Suc k) (child_path d n)"

inductive_simps reach_0: "reach H h path r 0 d"
inductive_simps reach_Suc: "reach H h path r (Suc k) d"

lemma reach_trans: "reach H h path m j d \<Longrightarrow> reach H h path r k m \<Longrightarrow> reach H h path r (k + j) d"
  by (induction rule: reach.induct) (auto intro: reach.intros)

lemma reach_first:
  "reach H h path r (Suc k) d \<longleftrightarrow> (\<exists>n. subdir H h path r n \<and> reach H h path (child_path r n) k d)"
proof
  show "reach H h path r (Suc k) d \<Longrightarrow> \<exists>n. subdir H h path r n \<and> reach H h path (child_path r n) k d"
  proof (induction k arbitrary: d)
    case 0
    then show ?case by (auto simp: reach_0 reach_Suc)
  next
    case (Suc k)
    from Suc.prems obtain e n where e: "reach H h path r (Suc k) e" "subdir H h path e n" "d = child_path e n"
      unfolding reach_Suc [of H h path r "Suc k" d] by blast
    then show ?case using Suc.IH [OF e(1)] reach.sub by metis
  qed
next
  assume "\<exists>n. subdir H h path r n \<and> reach H h path (child_path r n) k d"
  then obtain n where n: "subdir H h path r n" "reach H h path (child_path r n) k d" by blast
  have "reach H h path r (Suc 0) (child_path r n)" by (rule reach.sub [OF reach.root n(1)])
  then show "reach H h path r (Suc k) d" using reach_trans [OF n(2)] by fastforce
qed

section \<open>The markers in it\<close>

definition marks_in :: "'h host \<Rightarrow> 'h \<Rightarrow> (string \<Rightarrow> string) \<Rightarrow> string \<Rightarrow> string set" where
  "marks_in H h path d = {child_path d (drop 4 n) |n. n \<in> set (ReadDir H h (path d)) \<and> is_marker n \<and> n \<noteq> ''.wh..wh..opq''}"

definition deleted_below :: "'h host \<Rightarrow> 'h \<Rightarrow> (string \<Rightarrow> string) \<Rightarrow> string \<Rightarrow> string set" where
  "deleted_below H h path r = (\<Union>d \<in> {d. \<exists>k. reach H h path r k d}. marks_in H h path d)"

definition opaque_below :: "'h host \<Rightarrow> 'h \<Rightarrow> (string \<Rightarrow> string) \<Rightarrow> string \<Rightarrow> string set" where
  "opaque_below H h path r = {d. (\<exists>k. reach H h path r k d) \<and> ''.wh..wh..opq'' \<in> set (ReadDir H h (path d))}"

lemma reach_cases: "(\<exists>k. reach H h path r k d) \<longleftrightarrow> d = r \<or> (\<exists>n k. subdir H h path r n \<and> reach H h path (child_path r n) k d)"
proof -
  have "(\<exists>k. reach H h path r k d) \<longleftrightarrow> reach H h path r 0 d \<or> (\<exists>k. reach H h path r (Suc k) d)"
    by (metis not0_implies_Suc)
  then show ?thesis by (auto simp: reach_0 reach_first)
qed

lemma below_first:
  "deleted_below H h path r = marks_in H h path r \<union> (\<Union>n \<in> Collect (subdir H h path r). deleted_below H h path (child_path r n))"
  "opaque_below H h path r = {d. d = r \<and> ''.wh..wh..opq'' \<in> set (ReadDir H h (path r))} \<union>
    (\<Union>n \<in> Collect (subdir H h path r). opaque_below H h path (child_path r n))"
  by (auto simp: deleted_below_def opaque_below_def reach_cases [of H h path r])

text \<open>What one name adds to the masks.\<close>

definition adds :: "'h host \<Rightarrow> 'h \<Rightarrow> (string \<Rightarrow> string) \<Rightarrow> string \<Rightarrow> string \<Rightarrow> string set \<times> string set" where
  "adds H h path d n =
     (if n = ''.wh..wh..opq'' then ({}, {d})
      else if is_marker n then ({child_path d (drop 4 n)}, {})
      else if subdir H h path d n then (deleted_below H h path (child_path d n), opaque_below H h path (child_path d n))
      else ({}, {}))"

lemma Union_split:
  "(\<Union>n \<in> N. fst (if n = q then ({}, {d}) else if M n then ({c n}, {}) else if D n then (A n, B n) else ({}, {}))) =
    {c n |n. n \<in> N \<and> M n \<and> n \<noteq> q} \<union> (\<Union>n \<in> {n \<in> N. n \<noteq> q \<and> \<not> M n \<and> D n}. A n)"
  "(\<Union>n \<in> N. snd (if n = q then ({}, {d}) else if M n then ({c n}, {}) else if D n then (A n, B n) else ({}, {}))) =
    {x. x = d \<and> q \<in> N} \<union> (\<Union>n \<in> {n \<in> N. n \<noteq> q \<and> \<not> M n \<and> D n}. B n)"
  by (auto split: if_splits)

lemma subdir_names:
  "{n \<in> set (ReadDir H h (path d)). n \<noteq> ''.wh..wh..opq'' \<and> \<not> is_marker n \<and> subdir H h path d n} = Collect (subdir H h path d)"
proof -
  have "is_marker ''.wh..wh..opq''" by (simp add: is_marker_def)
  then show ?thesis unfolding subdir_def by blast
qed

lemma adds_all:
  "(\<Union>n \<in> set (ReadDir H h (path d)). fst (adds H h path d n)) = deleted_below H h path d"
  "(\<Union>n \<in> set (ReadDir H h (path d)). snd (adds H h path d n)) = opaque_below H h path d"
  unfolding below_first [of H h path d] adds_def Union_split subdir_names marks_in_def by (rule refl)+

text \<open>A walk whose steps each add a set adds them all.\<close>

lemma walk_names_adds:
  assumes "\<And>n a. n \<in> set ns \<Longrightarrow> f n a = Some (fst a \<union> fst (g n), snd a \<union> snd (g n))"
  shows "walk_names f ns a = Some (fst a \<union> (\<Union>n \<in> set ns. fst (g n)), snd a \<union> (\<Union>n \<in> set ns. snd (g n)))"
  using assms by (induction ns arbitrary: a) (auto simp: Un_assoc)

lemma seed_walk_total:
  "(\<And>k d. reach H h path r k d \<Longrightarrow> k < n) \<Longrightarrow>
    seed_walk n H h path r a = Some (fst a \<union> deleted_below H h path r, snd a \<union> opaque_below H h path r)"
proof (induction n arbitrary: r a)
  case 0
  show ?case using 0 [OF reach.root] by simp
next
  case (Suc n)
  have sub: "seed_walk n H h path (child_path r c) a =
      Some (fst a \<union> deleted_below H h path (child_path r c), snd a \<union> opaque_below H h path (child_path r c))"
    if "subdir H h path r c" for c a
  proof (rule Suc.IH)
    fix k d assume "reach H h path (child_path r c) k d"
    then have "reach H h path r (Suc k) d" using that by (auto simp: reach_first)
    then show "k < n" using Suc.prems by fastforce
  qed
  show ?case unfolding seed_walk.simps adds_all [symmetric]
  proof (rule walk_names_adds)
    fix c a assume c: "c \<in> set (ReadDir H h (path r))"
    show "(if c = ''.wh..wh..opq'' then Some (fst a, Set.insert r (snd a))
       else if is_marker c then Some (Set.insert (child_path r (drop 4 c)) (fst a), snd a)
       else (case Lstat H h (path r @ ''/'' @ c) of
               Inr st \<Rightarrow> if st_isDir st then seed_walk n H h path (child_path r c) a else Some a
             | Inl _ \<Rightarrow> Some a)) = Some (fst a \<union> fst (adds H h path r c), snd a \<union> snd (adds H h path r c))"
      using c sub [of c a] by (auto simp: adds_def subdir_def split: sum.splits)
  qed
qed

section \<open>Properties\<close>

text \<open>
  C9: deletions survive a remount. On a tree no deeper than the walk goes, seeding returns, and
  the masks of the writelayer are exactly the markers in the directories reached from its root;
  the same for the masks of a kept folder. Nothing else of the state changes.
\<close>

theorem seeding_reads_the_markers:
  assumes "writelayer S \<noteq> []" "\<And>k d. reach (io E) (host_state S) (WLPath S) [] k d \<Longrightarrow> k < turns E"
    and "\<And>k d. reach (io E) h (source_path L) (l_subpath L) k d \<Longrightarrow> k < turns E"
  shows "SeedMasksFromWritelayer E S = Inr (S\<lparr>
      whiteoutSet := deleted_below (io E) (host_state S) (WLPath S) [],
      opaqueSet := opaque_below (io E) (host_state S) (WLPath S) []\<rparr>) \<and>
    SeedKeptMasks E h L = Inr (L\<lparr>kept := Some \<lparr>
      deleted = deleted_below (io E) h (source_path L) (l_subpath L),
      opaque = opaque_below (io E) h (source_path L) (l_subpath L)\<rparr>\<rparr>)"
  using assms(1) seed_walk_total [of "io E" "host_state S" "WLPath S" "[]" "turns E" "({}, {})", OF assms(2)]
    seed_walk_total [of "io E" h "source_path L" "l_subpath L" "turns E" "({}, {})", OF assms(3)]
  by (simp add: SeedMasksFromWritelayer_def SeedKeptMasks_def)

definition demo_marked :: mem where
  "demo_marked = demo_mem\<lparr>nodes := (''/wl/.wh.x'', FileNode 0x1A4 []) # demo_nodes\<rparr>"

lemma demo_flat: "reach mem_host demo_marked p r k d \<Longrightarrow> list_all is_marker (mem_names demo_marked (p r)) \<Longrightarrow> k = 0 \<and> d = r"
proof (induction rule: reach.induct)
  case (sub k d n)
  then show ?case by (auto simp: subdir_def list_all_iff)
qed simp

theorem seeding_reads_the_markers_witness:
  "\<exists>T. SeedMasksFromWritelayer mem_env (demo False demo_marked) = Inr T \<and> whiteoutSet T = {''x''}"
proof -
  have w: "mem_names demo_marked ''/wl'' = [''.wh.x'']" and kn: "mem_names demo_marked ''/keep'' = []"
    by (simp_all add: mem_names_def demo_marked_def demo_mem_def demo_nodes_def)
  have wl: "WLPath (demo False demo_marked) [] = ''/wl''" and kp: "source_path (plain_layer ''/keep'' [] True 1) [] = ''/keep''"
    by (simp_all add: WLPath_def source_path_def plain_layer_def)
  have d: "reach mem_host demo_marked (WLPath (demo False demo_marked)) [] k d \<Longrightarrow> k = 0 \<and> d = []" for k d
    using demo_flat [of "WLPath (demo False demo_marked)" "[]" k d] by (simp add: w wl is_marker_def)
  have e: "reach mem_host demo_marked (source_path (plain_layer ''/keep'' [] True 1)) [] k d \<Longrightarrow> k = 0 \<and> d = []" for k d
    using demo_flat [of "source_path (plain_layer ''/keep'' [] True 1)" "[]" k d] by (simp add: kn kp)
  have "deleted_below mem_host demo_marked (WLPath (demo False demo_marked)) [] = {''x''}"
    using d reach.root [of mem_host demo_marked "WLPath (demo False demo_marked)" "[]"]
    by (auto simp: deleted_below_def marks_in_def w wl is_marker_def child_path_def)
  then show ?thesis
    using seeding_reads_the_markers [of "demo False demo_marked" mem_env demo_marked "plain_layer ''/keep'' [] True 1"] d e
    by (fastforce simp: plain_layer_def)
qed

end
