(* ===== verification/SourceProps.thy ===== *)
theory SourceProps
  imports DeltaCorrect
begin

text \<open>
  Byte sources as their users see them: a read of a whole range is all or nothing, and a
  concatenation is read as one stream.
\<close>

section \<open>Reading a whole range\<close>

context byte_source
begin

text \<open>Over a source that keeps the contract the loop of \<^verbatim>\<open>preadAll\<close> always returns.\<close>

lemma preadAll_loop_returns: "off + n < W64 \<Longrightarrow> length acc \<le> n \<Longrightarrow> \<exists>r. preadAll_loop rd n off acc = Inr r"
proof (induction "n - length acc" arbitrary: acc rule: less_induct)
  case less
  show ?case
  proof (cases "length acc < n")
    case False
    then show ?thesis by (simp add: preadAll_loop.simps [of rd n off acc])
  next
    case True
    with less.prems(1) have o: "off + length acc < W64" by linarith
    with prefix_read [of "off + length acc" "n - length acc"] obtain k where
      k: "k \<le> n - length acc" "rd (n - length acc) (off + length acc) = Inr (clip c k (off + length acc))"
      by auto
    show ?thesis
    proof (cases "clip c k (off + length acc)")
      case Nil
      then show ?thesis using True k o by (simp add: preadAll_loop.simps [of rd n off acc])
    next
      case (Cons x xs)
      have "length (x # xs) \<le> n - length acc" using k(1) by (simp add: Cons [symmetric] clip_def)
      then have "n - length (acc @ x # xs) < n - length acc" "length (acc @ x # xs) \<le> n" using True by simp_all
      then have "\<exists>r. preadAll_loop rd n off (acc @ x # xs) = Inr r" using less.hyps less.prems(1) by blast
      then show ?thesis using True k o Cons by (simp add: preadAll_loop.simps [of rd n off acc])
    qed
  qed
qed

lemma preadAll_whole:
  assumes "off + n < W64"
  shows "preadAll rd n off = Inr (if off + n \<le> length c \<or> n = 0 then Some (clip c n off) else None)"
proof (cases "off + n \<le> length c")
  case True
  then show ?thesis by (simp add: preadAll_ok)
next
  case False
  obtain r where r: "preadAll rd n off = Inr r"
    using preadAll_loop_returns [OF assms, of "[]"] by (auto simp: preadAll_def)
  show ?thesis
  proof (cases r)
    case (Some b)
    have b: "b = clip c n off \<and> length b = n" by (rule preadAll_sound [OF r [unfolded Some] assms])
    then have l: "length (clip c n off) = n" by metis
    then have "n = 0" using False by (auto simp: clip_def)
    then show ?thesis using r Some b by (simp add: l)
  next
    case None
    have "preadAll rd 0 off = Inr (Some [])" by (simp add: preadAll_def preadAll_loop.simps [of rd 0 off "[]"])
    then have "n \<noteq> 0" using r None by (cases "n = 0") simp_all
    then show ?thesis using False r None by simp
  qed
qed

end

section \<open>Properties\<close>

text \<open>
  C31: reads stay in bounds. Over any well-formed source (a file, a buffer, a mapping, a
  concatenation, a composed delta) one read never returns more than asked nor anything but the
  source's own bytes at the offset, past the end it returns nothing, and a read of a whole range
  gives exactly the range when it lies inside the source and fails otherwise.
\<close>

theorem source_reads_stay_in_bounds:
  assumes "holds Z s c" "off + n < W64"
  shows "(\<exists>k \<le> n. pread Z s n off = Inr (clip c k off) \<and> off + k \<le> max off (length c)) \<and>
    preadAll (pread Z s) n off = Inr (if off + n \<le> length c \<or> n = 0 then Some (clip c n off) else None) \<and>
    src_size s = length c"
proof -
  have b: "byte_source (pread Z s) c" and z: "src_size s = length c" using holds_correct(1) [OF assms(1)] by simp_all
  obtain k where k: "k \<le> n" "pread Z s n off = Inr (clip c k off)"
    using byte_source.prefix_read [OF b, of off n] assms(2) by auto
  have "clip c k off = clip c (min k (length c - off)) off" by (simp add: clip_def min_def)
  then have "\<exists>k \<le> n. pread Z s n off = Inr (clip c k off) \<and> off + k \<le> max off (length c)"
    using k by (intro exI [of _ "min k (length c - off)"]) auto
  then show ?thesis using byte_source.preadAll_whole [OF b assms(2)] z by simp
qed

theorem source_reads_stay_in_bounds_witness:
  "preadAll (pread frame_zstd (MemSource [1, 2, 3])) 3 1 = Inr None \<and>
   preadAll (pread frame_zstd (MemSource [1, 2, 3])) 2 1 = Inr (Some [2, 3])"
proof -
  have "holds frame_zstd (MemSource [1, 2, 3]) [1, 2, 3]" by (rule holds_mem) (simp add: W64_def)
  from source_reads_stay_in_bounds [OF this, of 1 3] source_reads_stay_in_bounds [OF this, of 1 2]
  show ?thesis by (simp add: W64_def clip_def)
qed

text \<open>
  C32: a concatenation is one stream. A read of the concatenation of well-formed sources (null
  pointers among them count as empty) gives exactly the bytes of the parts one after the other,
  also across the seams, and its size is the sum of theirs.
\<close>

theorem concatenation_reads_as_one_stream:
  assumes "\<And>x. Some x \<in> set xs \<Longrightarrow> holds Z x (cont x)" "length (concat_bytes cont xs) < W64" "off < W64"
  shows "pread Z (mk_concat xs) n off = Inr (clip (concat_bytes cont xs) n off) \<and>
    src_size (mk_concat xs) = length (concat_bytes cont xs)"
proof -
  have ok: "\<forall>x. Some x \<in> set xs \<longrightarrow> byte_source (pread Z x) (cont x)" "\<forall>x. Some x \<in> set xs \<longrightarrow> src_size x = length (cont x)"
    using assms(1) holds_correct(1) by blast+
  obtain ps t where p: "concat_parts src_size 0 xs = (ps, t)" by fastforce
  have "exact_source (concat_pread (reader_parts (pread Z) ps) t) (concat_bytes cont xs)"
    by (rule concat_exact [OF ok assms(2) p])
  moreover have "t = length (concat_bytes cont xs)" using concat_parts_spec [OF ok(2) _ p] assms(2) by simp
  ultimately show ?thesis using assms(3) by (simp add: mk_concat_def p exact_source.exact_read)
qed

theorem concatenation_reads_as_one_stream_witness:
  "pread frame_zstd (mk_concat [Some (MemSource [1, 2]), None, Some (MemSource [3])]) 2 1 = Inr [2, 3]"
proof -
  let ?c = "\<lambda>s. case s of MemSource d \<Rightarrow> d | _ \<Rightarrow> []"
  have m: "length d < W64 \<Longrightarrow> holds frame_zstd (MemSource d) (?c (MemSource d))" for d by (simp add: holds_mem)
  have "pread frame_zstd (mk_concat [Some (MemSource [1, 2]), None, Some (MemSource [3])]) 2 1 =
      Inr (clip (concat_bytes ?c [Some (MemSource [1, 2]), None, Some (MemSource [3])]) 2 1)"
    by (rule concatenation_reads_as_one_stream [THEN conjunct1]) (use m in \<open>auto simp: W64_def concat_bytes_def part_bytes_def\<close>)
  then show ?thesis by (simp add: clip_def concat_bytes_def part_bytes_def)
qed

end
