(* ===== verification/WinHost.thy ===== *)
theory WinHost
  imports HostIO Endian
begin

text \<open>
  The Win32 implementation \<^verbatim>\<open>hostio_win.cpp\<close> of the host interface. The Win32 calls are the
  system's and so a parameter, a record of functions over a system state \<open>'w\<close>; a call that fails
  gives the code that \<^verbatim>\<open>GetLastError\<close> then reads. The state of the file itself, the table from
  small descriptors to handles, is modelled. Flags and errnos are the development's constants (the
  numbers are those of the Linux headers, the code uses their names only), and the
  32-bit lengths the Win32 calls take are cut off as the casts do. The counter \<^verbatim>\<open>g_next\<close> and the keys of
  the table are 32-bit \<^verbatim>\<open>int\<close>s; C++ leaves their overflow undefined, and the model wraps around.
\<close>

section \<open>The Win32 calls\<close>

type_synonym dword = "32 word"
type_synonym handle = nat
type_synonym wstring = "16 word list"

record filetime =
  dwLowDateTime :: dword
  dwHighDateTime :: dword

record file_info =
  bi_attributes :: dword
  bi_lastWrite :: filetime
  bi_sizeHigh :: dword
  bi_sizeLow :: dword
  bi_links :: dword

record 'w win32 =
  CreateFileW :: "wstring \<Rightarrow> dword \<Rightarrow> dword \<Rightarrow> dword \<Rightarrow> dword \<Rightarrow> 'w \<Rightarrow> (dword + handle) \<times> 'w"
  CloseHandle :: "handle \<Rightarrow> 'w \<Rightarrow> (dword + unit) \<times> 'w"
  ReadFile :: "handle \<Rightarrow> dword \<Rightarrow> (dword \<times> dword) option \<Rightarrow> 'w \<Rightarrow> (dword + bytes) \<times> 'w"
  WriteFile :: "handle \<Rightarrow> bytes \<Rightarrow> (dword \<times> dword) option \<Rightarrow> 'w \<Rightarrow> (dword + dword) \<times> 'w"
  FlushFileBuffers :: "handle \<Rightarrow> 'w \<Rightarrow> (dword + unit) \<times> 'w"
  SetFilePointerEx :: "handle \<Rightarrow> int \<Rightarrow> 'w \<Rightarrow> (dword + unit) \<times> 'w"
  SetEndOfFile :: "handle \<Rightarrow> 'w \<Rightarrow> (dword + unit) \<times> 'w"
  GetFileInformationByHandle :: "handle \<Rightarrow> 'w \<Rightarrow> dword + file_info"
  GetFileAttributesExW :: "wstring \<Rightarrow> 'w \<Rightarrow> dword + file_info"
  GetFileAttributesW :: "wstring \<Rightarrow> 'w \<Rightarrow> dword"
  CreateDirectoryW :: "wstring \<Rightarrow> 'w \<Rightarrow> (dword + unit) \<times> 'w"
  DeleteFileW :: "wstring \<Rightarrow> 'w \<Rightarrow> (dword + unit) \<times> 'w"
  RemoveDirectoryW :: "wstring \<Rightarrow> 'w \<Rightarrow> (dword + unit) \<times> 'w"
  MoveFileExW :: "wstring \<Rightarrow> wstring \<Rightarrow> dword \<Rightarrow> 'w \<Rightarrow> (dword + unit) \<times> 'w"
  CreateHardLinkW :: "wstring \<Rightarrow> wstring \<Rightarrow> 'w \<Rightarrow> (dword + unit) \<times> 'w"
  SetFileTime :: "handle \<Rightarrow> filetime \<Rightarrow> 'w \<Rightarrow> (dword + unit) \<times> 'w"
  GetReparsePoint :: "handle \<Rightarrow> nat \<Rightarrow> 'w \<Rightarrow> dword + bytes"
  CreateSymbolicLinkW :: "wstring \<Rightarrow> wstring \<Rightarrow> dword \<Rightarrow> 'w \<Rightarrow> (dword + unit) \<times> 'w"
  GetVolumePathNameW :: "wstring \<Rightarrow> 'w \<Rightarrow> wstring option"
  GetDiskFreeSpaceExW :: "wstring \<Rightarrow> 'w \<Rightarrow> dword + nat \<times> nat \<times> nat"
  FindFiles :: "wstring \<Rightarrow> 'w \<Rightarrow> wstring list option"
  MultiByteToWideChar :: "string \<Rightarrow> wstring"
  WideCharToMultiByte :: "wstring \<Rightarrow> string"
  win_create_directories :: "string \<Rightarrow> 'w \<Rightarrow> unit res \<times> 'w"
  win_weakly_canonical :: "'w \<Rightarrow> string \<Rightarrow> string list res"

section \<open>The descriptor table\<close>

record 'w win =
  g_table :: "32 word \<Rightarrow> handle option"
  g_next :: "32 word"
  win_sys :: 'w

definition win_start :: "'w \<Rightarrow> 'w win" where
  "win_start w = \<lparr>g_table = Map.empty, g_next = 3, win_sys = w\<rparr>"

definition Register :: "handle \<Rightarrow> 'w win \<Rightarrow> 32 word \<times> 'w win" where
  "Register h s = (g_next s, s\<lparr>g_table := (g_table s)(g_next s \<mapsto> h), g_next := g_next s + 1\<rparr>)"

definition Grab :: "'w win \<Rightarrow> fd \<Rightarrow> handle option" where
  "Grab s fd = g_table s (word_of_nat fd)"

definition Drop :: "fd \<Rightarrow> 'w win \<Rightarrow> 'w win" where
  "Drop fd s = s\<lparr>g_table := (g_table s)(word_of_nat fd := None)\<rparr>"

text \<open>What a caller reads in the number \<^verbatim>\<open>Open\<close> returns: a negative one is an errno.\<close>

definition as_fd :: "32 word \<Rightarrow> fd res" where
  "as_fd k = (if sint k < 0 then Inl (Errno (nat (- sint k))) else Inr (unat k))"

section \<open>Errors, strings, times\<close>

definition Err :: "dword \<Rightarrow> fail" where
  "Err e =
     (if e = 2 \<or> e = 3 \<or> e = 15 then ENOENT
      else if e = 5 \<or> e = 32 \<or> e = 33 then EACCES
      else if e = 80 \<or> e = 183 then EEXIST
      else if e = 145 then ENOTEMPTY
      else if e = 123 \<or> e = 87 then EINVAL
      else if e = 112 then Errno 28
      else if e = 4 then Errno 24
      else if e = 1314 then EPERM
      else EIO)"

definition Wide :: "'w win32 \<Rightarrow> string \<Rightarrow> wstring" where
  "Wide W s = map (\<lambda>c. if c = 0x2F then 0x5C else c) (if s \<noteq> [] then MultiByteToWideChar W s else [])"

definition Narrow :: "'w win32 \<Rightarrow> wstring \<Rightarrow> string" where
  "Narrow W w = (if w = [] then [] else WideCharToMultiByte W w)"

text \<open>\<^verbatim>\<open>ULARGE_INTEGER\<close>: the two halves of a 64-bit value.\<close>

definition quad :: "dword \<Rightarrow> dword \<Rightarrow> 64 word" where
  "quad hi lo = or (push_bit 32 (ucast hi)) (ucast lo)"

definition kEpochDelta :: "64 word" where
  "kEpochDelta = 116444736000000000"

definition FtToUnix :: "filetime \<Rightarrow> int" where
  "FtToUnix ft = sint ((quad (dwHighDateTime ft) (dwLowDateTime ft) - kEpochDelta) div 10000000)"

definition UnixToFt :: "int \<Rightarrow> filetime" where
  "UnixToFt sec =
     (let q = word_of_int sec * 10000000 + kEpochDelta :: 64 word
      in \<lparr>dwLowDateTime = ucast q, dwHighDateTime = ucast (drop_bit 32 q)\<rparr>)"

definition FillStat :: "dword \<Rightarrow> nat \<Rightarrow> filetime \<Rightarrow> hstat" where
  "FillStat attrs sz mtime =
     (let isDir = and attrs 0x10 \<noteq> 0;
          isSymlink = and attrs 0x400 \<noteq> 0;
          perms = (if and attrs 1 \<noteq> 0 then 0x16D else 0x1ED)
      in \<lparr>st_mode = or (if isDir then S_IFDIR else if isSymlink then S_IFLNK else S_IFREG) perms,
          st_size = sz, st_mtime = FtToUnix mtime, st_nlink = 1, st_isDir = isDir,
          st_isSymlink = isSymlink, st_isRegular = (\<not> isDir \<and> \<not> isSymlink)\<rparr>)"

definition fill_info :: "file_info \<Rightarrow> hstat" where
  "fill_info bi = FillStat (bi_attributes bi) (unat (quad (bi_sizeHigh bi) (bi_sizeLow bi))) (bi_lastWrite bi)"

section \<open>The operations\<close>

text \<open>A system call on the system's state, its error mapped; and an operation on an open descriptor.\<close>

definition win_call :: "('w \<Rightarrow> (dword + 'a) \<times> 'w) \<Rightarrow> 'w win \<Rightarrow> 'a res \<times> 'w win" where
  "win_call f s = (case f (win_sys s) of (r, w) \<Rightarrow> (map_sum Err id r, s\<lparr>win_sys := w\<rparr>))"

definition on_handle :: "fd \<Rightarrow> (handle \<Rightarrow> 'w win \<Rightarrow> 'a res \<times> 'w win) \<Rightarrow> 'w win \<Rightarrow> 'a res \<times> 'w win" where
  "on_handle fd f s = (case Grab s fd of None \<Rightarrow> (Inl EBADF, s) | Some hh \<Rightarrow> f hh s)"

definition O_EXCL :: flags where "O_EXCL = 0x80"

definition open_access :: "flags \<Rightarrow> dword" where
  "open_access fl =
     or (if and fl O_WRONLY \<noteq> 0 \<or> and fl O_RDWR \<noteq> 0 then 0x40000000 else 0)
        (if and fl O_WRONLY = 0 then 0x80000000 else 0)"

definition open_disposition :: "flags \<Rightarrow> dword" where
  "open_disposition fl =
     (let creat = (and fl O_CREAT \<noteq> 0); excl = (and fl O_EXCL \<noteq> 0); trunc = (and fl O_TRUNC \<noteq> 0)
      in if creat \<and> excl then 1 else if creat \<and> trunc then 2 else if creat then 4
         else if trunc then 5 else 3)"

text \<open>The share mode of every open, and the flags that open directories and links themselves.\<close>

definition share_all :: dword where "share_all = 7"
definition backup_semantics :: dword where "backup_semantics = 0x02000000"
definition open_reparse_point :: dword where "open_reparse_point = 0x00200000"

definition win_Open :: "'w win32 \<Rightarrow> string \<Rightarrow> flags \<Rightarrow> mode \<Rightarrow> 'w win \<Rightarrow> fd res \<times> 'w win" where
  "win_Open W path fl m s =
     (case win_call (CreateFileW W (Wide W path) (open_access fl) share_all (open_disposition fl)
             (or backup_semantics open_reparse_point)) s of
        (Inl e, s) \<Rightarrow> (Inl e, s)
      | (Inr hh, s) \<Rightarrow> apfst as_fd (Register hh s))"

definition win_Close :: "'w win32 \<Rightarrow> fd \<Rightarrow> 'w win \<Rightarrow> unit res \<times> 'w win" where
  "win_Close W fd = on_handle fd (\<lambda>hh s. win_call (CloseHandle W hh) (Drop fd s))"

text \<open>\<^verbatim>\<open>OVERLAPPED\<close>: the offset in two halves.\<close>

definition overlapped :: "nat \<Rightarrow> (dword \<times> dword) option" where
  "overlapped off = Some (word_of_nat (off mod 2 ^ 32), word_of_nat (off div 2 ^ 32))"

definition win_Pread :: "'w win32 \<Rightarrow> fd \<Rightarrow> nat \<Rightarrow> nat \<Rightarrow> 'w win \<Rightarrow> bytes res \<times> 'w win" where
  "win_Pread W fd n off = on_handle fd (\<lambda>hh s.
     (case ReadFile W hh (word_of_nat n) (overlapped off) (win_sys s) of
        (Inl e, w) \<Rightarrow> (if e = 38 then Inr [] else Inl (Err e), s\<lparr>win_sys := w\<rparr>)
      | (Inr b, w) \<Rightarrow> (Inr b, s\<lparr>win_sys := w\<rparr>)))"

text \<open>\<^verbatim>\<open>WriteFile\<close> is given the first \<^verbatim>\<open>(DWORD)n\<close> bytes.\<close>

definition dword_bytes :: "bytes \<Rightarrow> bytes" where
  "dword_bytes buf = take (unat (word_of_nat (length buf) :: dword)) buf"

definition win_Pwrite :: "'w win32 \<Rightarrow> fd \<Rightarrow> bytes \<Rightarrow> nat \<Rightarrow> 'w win \<Rightarrow> nat res \<times> 'w win" where
  "win_Pwrite W fd buf off = on_handle fd (\<lambda>hh s.
     apfst (map_sum id unat) (win_call (WriteFile W hh (dword_bytes buf) (overlapped off)) s))"

definition win_Read :: "'w win32 \<Rightarrow> fd \<Rightarrow> nat \<Rightarrow> 'w win \<Rightarrow> bytes res \<times> 'w win" where
  "win_Read W fd n = on_handle fd (\<lambda>hh. win_call (ReadFile W hh (word_of_nat n) None))"

definition win_Write :: "'w win32 \<Rightarrow> fd \<Rightarrow> bytes \<Rightarrow> 'w win \<Rightarrow> nat res \<times> 'w win" where
  "win_Write W fd buf = on_handle fd (\<lambda>hh s.
     apfst (map_sum id unat) (win_call (WriteFile W hh (dword_bytes buf) None) s))"

definition win_Fsync :: "'w win32 \<Rightarrow> fd \<Rightarrow> 'w win \<Rightarrow> unit res \<times> 'w win" where
  "win_Fsync W fd = on_handle fd (\<lambda>hh. win_call (FlushFileBuffers W hh))"

definition win_Ftruncate :: "'w win32 \<Rightarrow> fd \<Rightarrow> nat \<Rightarrow> 'w win \<Rightarrow> unit res \<times> 'w win" where
  "win_Ftruncate W fd n = on_handle fd (\<lambda>hh s.
     (case win_call (SetFilePointerEx W hh (sint (word_of_nat n :: 64 word))) s of
        (Inl e, s) \<Rightarrow> (Inl e, s)
      | (Inr _, s) \<Rightarrow> win_call (SetEndOfFile W hh) s))"

definition win_Fchmod :: "fd \<Rightarrow> mode \<Rightarrow> 'w win \<Rightarrow> unit res \<times> 'w win" where
  "win_Fchmod fd m s = (Inr (), s)"

text \<open>A link count of 0 is reported as 1.\<close>

definition win_Fstat :: "'w win32 \<Rightarrow> 'w win \<Rightarrow> fd \<Rightarrow> hstat res" where
  "win_Fstat W s fd =
     (case Grab s fd of
        None \<Rightarrow> Inl EBADF
      | Some hh \<Rightarrow>
          (case GetFileInformationByHandle W hh (win_sys s) of
             Inl e \<Rightarrow> Inl (Err e)
           | Inr bi \<Rightarrow> Inr ((fill_info bi)\<lparr>st_nlink := if bi_links bi \<noteq> 0 then unat (bi_links bi) else 1\<rparr>)))"

definition win_Lstat :: "'w win32 \<Rightarrow> 'w win \<Rightarrow> string \<Rightarrow> hstat res" where
  "win_Lstat W s path = map_sum Err fill_info (GetFileAttributesExW W (Wide W path) (win_sys s))"

text \<open>Opened without \<^verbatim>\<open>OPEN_REPARSE_POINT\<close>, so the handle is the link's target.\<close>

definition win_StatFollow :: "'w win32 \<Rightarrow> string \<Rightarrow> 'w win \<Rightarrow> hstat res \<times> 'w win" where
  "win_StatFollow W path s =
     (case win_call (CreateFileW W (Wide W path) 0x80 share_all 3 backup_semantics) s of
        (Inl e, s) \<Rightarrow> (Inl e, s)
      | (Inr hh, s) \<Rightarrow>
          let r = GetFileInformationByHandle W hh (win_sys s);
              s = snd (win_call (CloseHandle W hh) s)
          in (map_sum Err fill_info r, s))"

definition win_Mkdir :: "'w win32 \<Rightarrow> string \<Rightarrow> mode \<Rightarrow> 'w win \<Rightarrow> unit res \<times> 'w win" where
  "win_Mkdir W path m = win_call (CreateDirectoryW W (Wide W path))"

definition win_Unlink :: "'w win32 \<Rightarrow> string \<Rightarrow> 'w win \<Rightarrow> unit res \<times> 'w win" where
  "win_Unlink W path = win_call (DeleteFileW W (Wide W path))"

definition win_Rmdir :: "'w win32 \<Rightarrow> string \<Rightarrow> 'w win \<Rightarrow> unit res \<times> 'w win" where
  "win_Rmdir W path = win_call (RemoveDirectoryW W (Wide W path))"

text \<open>\<^verbatim>\<open>MOVEFILE_REPLACE_EXISTING | MOVEFILE_COPY_ALLOWED\<close>.\<close>

definition win_Rename :: "'w win32 \<Rightarrow> string \<Rightarrow> string \<Rightarrow> 'w win \<Rightarrow> unit res \<times> 'w win" where
  "win_Rename W a b = win_call (MoveFileExW W (Wide W a) (Wide W b) 3)"

definition win_Link :: "'w win32 \<Rightarrow> string \<Rightarrow> string \<Rightarrow> 'w win \<Rightarrow> unit res \<times> 'w win" where
  "win_Link W existing new_path = win_call (CreateHardLinkW W (Wide W new_path) (Wide W existing))"

definition win_Truncate :: "'w win32 \<Rightarrow> string \<Rightarrow> nat \<Rightarrow> 'w win \<Rightarrow> unit res \<times> 'w win" where
  "win_Truncate W path n s =
     (case win_Open W path O_RDWR 0 s of
        (Inl e, s) \<Rightarrow> (Inl e, s)
      | (Inr fd, s) \<Rightarrow>
          (case win_Ftruncate W fd n s of (r, s) \<Rightarrow> (r, snd (win_Close W fd s))))"

definition win_Chmod :: "string \<Rightarrow> mode \<Rightarrow> 'w win \<Rightarrow> unit res \<times> 'w win" where
  "win_Chmod path m s = (Inr (), s)"

definition win_Utimens :: "'w win32 \<Rightarrow> string \<Rightarrow> int \<Rightarrow> int \<Rightarrow> bool \<Rightarrow> 'w win \<Rightarrow> unit res \<times> 'w win" where
  "win_Utimens W path atimeSec mtimeSec follow s =
     (case win_call (CreateFileW W (Wide W path) 0x100 share_all 3 (or backup_semantics open_reparse_point)) s of
        (Inl e, s) \<Rightarrow> (Inl e, s)
      | (Inr hh, s) \<Rightarrow>
          (case win_call (SetFileTime W hh (UnixToFt mtimeSec)) s of
             (r, s) \<Rightarrow> (r, snd (win_call (CloseHandle W hh) s))))"

text \<open>
  \<^verbatim>\<open>VG_SYMLINK_REPARSE\<close> in the 16 KiB buffer: the tag at 0, the print name's offset and length
  (in bytes) at 12 and 14, the names from 20 on, two bytes to a character; the system fills in the whole structure.
\<close>

fun wide_chars :: "bytes \<Rightarrow> wstring" where
  "wide_chars (a # b # bs) = or (ucast a) (push_bit 8 (ucast b)) # wide_chars bs"
| "wide_chars _ = []"

definition print_name :: "bytes \<Rightarrow> wstring" where
  "print_name buf =
     (let off = unat (Rd16 (drop 12 buf)) div 2; len = unat (Rd16 (drop 14 buf)) div 2
      in take len (drop off (wide_chars (drop 20 buf))))"

definition win_Readlink :: "'w win32 \<Rightarrow> string \<Rightarrow> 'w win \<Rightarrow> string res \<times> 'w win" where
  "win_Readlink W path s =
     (case win_call (CreateFileW W (Wide W path) 0 share_all 3 (or backup_semantics open_reparse_point)) s of
        (Inl e, s) \<Rightarrow> (Inl e, s)
      | (Inr hh, s) \<Rightarrow>
          let r = GetReparsePoint W hh (16 * 1024) (win_sys s);
              s = snd (win_call (CloseHandle W hh) s)
          in (case r of
                Inl e \<Rightarrow> (Inl (Err e), s)
              | Inr buf \<Rightarrow>
                  if Rd32 buf \<noteq> 0xA000000C then (Inl EINVAL, s)
                  else (Inr (map (\<lambda>c. if c = char_of (92::nat) then CHR ''/'' else c) (Narrow W (print_name buf))), s)))"

definition win_Symlink :: "'w win32 \<Rightarrow> string \<Rightarrow> string \<Rightarrow> 'w win \<Rightarrow> unit res \<times> 'w win" where
  "win_Symlink W tgt linkpath s =
     (let wt = Wide W tgt;
          ta = GetFileAttributesW W wt (win_sys s);
          fl = (if ta \<noteq> 0xFFFFFFFF \<and> and ta 0x10 \<noteq> 0 then or 2 1 else 2)
      in win_call (CreateSymbolicLinkW W (Wide W linkpath) wt fl) s)"

definition win_Statvfs :: "'w win32 \<Rightarrow> 'w win \<Rightarrow> string \<Rightarrow> statvfs_info res" where
  "win_Statvfs W s path =
     (let wp = Wide W path;
          q = (case GetVolumePathNameW W wp (win_sys s) of Some vol \<Rightarrow> vol | None \<Rightarrow> wp)
      in case GetDiskFreeSpaceExW W q (win_sys s) of
           Inl e \<Rightarrow> Inl (Err e)
         | Inr (avail, tot, freeb) \<Rightarrow>
             Inr \<lparr>sv_bsize = 4096, sv_blocks = tot div 4096, sv_bfree = freeb div 4096,
                  sv_bavail = avail div 4096, sv_files = 0, sv_ffree = 0, sv_namemax = 255\<rparr>)"

text \<open>\<^verbatim>\<open>FindFirstFileW\<close> and the \<^verbatim>\<open>FindNextFileW\<close> loop give the names in one piece.\<close>

definition win_ReadDir :: "'w win32 \<Rightarrow> 'w win \<Rightarrow> string \<Rightarrow> string list" where
  "win_ReadDir W s path =
     (let w = Wide W path;
          pat = (if w \<noteq> [] \<and> last w \<noteq> 0x5C then w @ [0x5C] else w) @ [0x2A]
      in case FindFiles W pat (win_sys s) of
           None \<Rightarrow> []
         | Some ns \<Rightarrow> map (Narrow W) (filter (\<lambda>n. n \<noteq> [0x2E] \<and> n \<noteq> [0x2E, 0x2E]) ns))"

section \<open>The host\<close>

text \<open>
  The interface's reading operations return no state. \<^verbatim>\<open>ReadFile\<close> at an offset moves the
  handle's file pointer, which only \<^verbatim>\<open>Read\<close> and \<^verbatim>\<open>Write\<close> use, and the core never mixes them
  with \<^verbatim>\<open>Pread\<close> on one descriptor; \<^verbatim>\<open>StatFollow\<close> and \<^verbatim>\<open>Readlink\<close> close the handle they
  opened. What these leave of the system's state is dropped here.
\<close>

definition win_sysop :: "('w \<Rightarrow> 'a \<times> 'w) \<Rightarrow> 'w win \<Rightarrow> 'a \<times> 'w win" where
  "win_sysop f s = (case f (win_sys s) of (r, w) \<Rightarrow> (r, s\<lparr>win_sys := w\<rparr>))"

definition win_host :: "'w win32 \<Rightarrow> 'w win host" where
  "win_host W = \<lparr>
     Open = win_Open W,
     Close = win_Close W,
     Pread = (\<lambda>s fd n off. fst (win_Pread W fd n off s)),
     Pwrite = win_Pwrite W,
     Read = win_Read W,
     Write = win_Write W,
     Fsync = win_Fsync W,
     Ftruncate = win_Ftruncate W,
     Fstat = win_Fstat W,
     Fchmod = win_Fchmod,
     Lstat = win_Lstat W,
     StatFollow = (\<lambda>s p. fst (win_StatFollow W p s)),
     Mkdir = win_Mkdir W,
     Unlink = win_Unlink W,
     Rmdir = win_Rmdir W,
     Rename = win_Rename W,
     Link = win_Link W,
     Truncate = win_Truncate W,
     Chmod = win_Chmod,
     Utimens = win_Utimens W,
     Readlink = (\<lambda>s p. fst (win_Readlink W p s)),
     Symlink = win_Symlink W,
     Statvfs = win_Statvfs W,
     ReadDir = win_ReadDir W,
     create_directories = (\<lambda>p. win_sysop (win_create_directories W p)),
     weakly_canonical = (\<lambda>s p. win_weakly_canonical W (win_sys s) p)\<rparr>"

end
