(* ===== verification/WinHostProps.thy ===== *)
theory WinHostProps
  imports WinHost
begin

text \<open>
  The Win32 host: file times, and the descriptor table as a state machine whose steps are the
  calls of the host.
\<close>

section \<open>File times\<close>

lemma quad_split: "quad (ucast (drop_bit 32 q)) (ucast q) = q"
  unfolding quad_def
  by (rule bit_word_eqI) (auto simp: bit_or_iff bit_push_bit_iff bit_ucast_iff bit_drop_bit_eq)

lemma FtToUnix_UnixToFt: "FtToUnix (UnixToFt sec) = sint ((word_of_int sec * 10000000 :: 64 word) div 10000000)"
  by (simp add: FtToUnix_def UnixToFt_def Let_def quad_split)

lemma sint_div_ticks: "sint ((w :: 64 word) div 10000000) = uint w div 10000000"
proof -
  have "uint w < 2 ^ 64" using uint_bounded [of w] by simp
  then have "uint w div 10000000 < 2 ^ 63" "- (2 ^ 63) \<le> uint w div 10000000"
    using div_int_pos_iff [of "uint w" 10000000] by simp_all
  then show ?thesis by (simp add: sint_uint uint_div_distrib signed_take_bit_int_eq_self_iff)
qed

text \<open>
  File times survive the way through Windows ticks, for 1970 and the 58,000 years after it.
  A time before 1970 does not: the subtraction of the epoch wraps around, and the time read back
  lies 1844674407370 seconds later.
\<close>

theorem file_times_round_trip:
  assumes "- 1844674407370 \<le> sec" and "sec \<le> 1844674407370"
  shows "FtToUnix (UnixToFt sec) = (if 0 \<le> sec then sec else sec + 1844674407370) \<and>
    st_mtime (FillStat attrs n (UnixToFt sec)) = FtToUnix (UnixToFt sec)"
proof -
  have u: "uint (word_of_int sec * 10000000 :: 64 word) = sec * 10000000 mod 2 ^ 64"
    by (simp add: uint_word_ariths uint_word_of_int mod_mult_left_eq)
  have "sec * 10000000 mod 2 ^ 64 div 10000000 = (if 0 \<le> sec then sec else sec + 1844674407370)"
  proof (cases "0 \<le> sec")
    case True
    then have "sec * 10000000 mod 2 ^ 64 = sec * 10000000" using assms(2) by (intro mod_pos_pos_trivial) auto
    then show ?thesis using True by simp
  next
    case False
    have "sec * 10000000 mod 2 ^ 64 = (sec * 10000000 + 2 ^ 64) mod 2 ^ 64" by simp
    also have "\<dots> = sec * 10000000 + 2 ^ 64" using assms(1) False by (intro mod_pos_pos_trivial) auto
    finally show ?thesis using False by simp
  qed
  then show ?thesis
    by (simp add: FtToUnix_UnixToFt sint_div_ticks u FillStat_def Let_def)
qed

theorem file_times_round_trip_witness:
  "FtToUnix (UnixToFt 1700000000) = 1700000000 \<and> FtToUnix (UnixToFt (- 1)) = 1844674407369"
  using file_times_round_trip [of 1700000000] file_times_round_trip [of "- 1"] by simp

section \<open>Descriptors\<close>

text \<open>
  One step: any call of the host, on whatever the program asks. The calls that only read step
  too when they open and close a handle on the way.
\<close>

inductive win_step :: "'w win32 \<Rightarrow> 'w win \<Rightarrow> 'w win \<Rightarrow> bool" for W where
  Open: "win_step W s (snd (Open (win_host W) p fl m s))"
| Close: "win_step W s (snd (Close (win_host W) fd s))"
| Pread: "win_step W s (snd (win_Pread W fd n off s))"
| Pwrite: "win_step W s (snd (Pwrite (win_host W) fd b off s))"
| Read: "win_step W s (snd (Read (win_host W) fd n s))"
| Write: "win_step W s (snd (Write (win_host W) fd b s))"
| Fsync: "win_step W s (snd (Fsync (win_host W) fd s))"
| Ftruncate: "win_step W s (snd (Ftruncate (win_host W) fd n s))"
| Fchmod: "win_step W s (snd (Fchmod (win_host W) fd m s))"
| StatFollow: "win_step W s (snd (win_StatFollow W p s))"
| Mkdir: "win_step W s (snd (Mkdir (win_host W) p m s))"
| Unlink: "win_step W s (snd (Unlink (win_host W) p s))"
| Rmdir: "win_step W s (snd (Rmdir (win_host W) p s))"
| Rename: "win_step W s (snd (Rename (win_host W) p q s))"
| Link: "win_step W s (snd (Link (win_host W) p q s))"
| Truncate: "win_step W s (snd (Truncate (win_host W) p n s))"
| Chmod: "win_step W s (snd (Chmod (win_host W) p m s))"
| Utimens: "win_step W s (snd (Utimens (win_host W) p a t f s))"
| Readlink: "win_step W s (snd (win_Readlink W p s))"
| Symlink: "win_step W s (snd (Symlink (win_host W) p q s))"
| create_directories: "win_step W s (snd (create_directories (win_host W) p s))"

text \<open>
  A run, with the number of handles registered on the way: every open that gets a handle, and every
  \<^verbatim>\<open>Truncate\<close> by path, moves \<open>g_next\<close> on by one.
\<close>

inductive win_run :: "'w win32 \<Rightarrow> nat \<Rightarrow> 'w win \<Rightarrow> 'w win \<Rightarrow> bool" for W where
  none: "win_run W 0 s s"
| more: "win_run W n s s' \<Longrightarrow> win_step W s' s'' \<Longrightarrow> win_run W (if g_next s'' = g_next s' then n else Suc n) s s''"

text \<open>No new descriptor, and no entry replaced.\<close>

definition later :: "'w win \<Rightarrow> 'w win \<Rightarrow> bool" where
  "later s s' \<longleftrightarrow> g_next s' = g_next s \<and> (\<forall>fd. g_table s' fd = None \<or> g_table s' fd = g_table s fd)"

lemma later_refl [simp]: "later s s"
  by (simp add: later_def)

lemma later_sys [simp]: "later s (s'\<lparr>win_sys := w\<rparr>) \<longleftrightarrow> later s s'"
  by (simp add: later_def)

lemma later_trans: "later s s' \<Longrightarrow> later s' s'' \<Longrightarrow> later s s''"
  unfolding later_def by metis

lemma later_Drop [simp]: "later s (Drop fd s)"
  by (auto simp: later_def Drop_def)

lemma later_win_call: "later s s' \<Longrightarrow> later s (snd (win_call f s'))"
  by (auto simp: win_call_def split: prod.splits)

lemma later_on_handle: "(\<And>h. later s (snd (f h s))) \<Longrightarrow> later s (snd (on_handle fd f s))"
  by (auto simp: on_handle_def split: option.splits)

lemma later_case:
  assumes "later s (snd r)" and "\<And>e s'. later s s' \<Longrightarrow> later s (snd (f e s'))"
    and "\<And>a s'. later s s' \<Longrightarrow> later s (snd (g a s'))"
  shows "later s (snd (case r of (Inl e, s') \<Rightarrow> f e s' | (Inr a, s') \<Rightarrow> g a s'))"
  using assms by (cases r; cases "fst r") auto

lemmas later_intros = later_refl later_win_call later_on_handle later_case

lemma later_Close: "later s (snd (win_Close W fd s))"
  unfolding win_Close_def by (intro later_intros later_Drop)

lemma later_Ftruncate: "later s (snd (win_Ftruncate W fd n s))"
  unfolding win_Ftruncate_def by (intro later_intros) auto

text \<open>An open registers one handle or nothing.\<close>

definition opened :: "'w win \<Rightarrow> 'w win \<Rightarrow> bool" where
  "opened s s' \<longleftrightarrow> later s s' \<or> (\<exists>h w. later (snd (Register h (s\<lparr>win_sys := w\<rparr>))) s')"

lemma opened_Open: "opened s (snd (win_Open W p fl m s))"
  by (auto simp: opened_def win_Open_def win_call_def snd_apfst split: prod.splits sum.splits intro: later_refl)

lemma opened_later: "opened s s' \<Longrightarrow> later s' s'' \<Longrightarrow> opened s s''"
  unfolding opened_def by (meson later_trans)

lemma opened_Truncate: "opened s (snd (win_Truncate W p n s))"
proof -
  obtain r s' where o: "win_Open W p O_RDWR 0 s = (r, s')" by fastforce
  have os: "opened s s'" using opened_Open [of s W p O_RDWR 0] by (simp add: o)
  show ?thesis
  proof (cases r)
    case (Inr fd)
    obtain x t where t: "win_Ftruncate W fd n s' = (x, t)" by fastforce
    have "later s' t" using later_Ftruncate [of s' W fd n] by (simp add: t)
    then have "later s' (snd (win_Close W fd t))" using later_Close later_trans by blast
    from opened_later [OF os this] show ?thesis by (simp add: win_Truncate_def o Inr t)
  qed (simp add: win_Truncate_def o os)
qed

lemma later_reading:
  "later s (snd (win_Pread W fd n off s))" "later s (snd (win_StatFollow W p s))" "later s (snd (win_Readlink W p s))"
proof -
  show "later s (snd (win_Pread W fd n off s))"
    unfolding win_Pread_def by (rule later_on_handle) (auto split: prod.splits sum.splits)
  show "later s (snd (win_StatFollow W p s))"
    unfolding win_StatFollow_def
    by (rule later_case [OF later_win_call [OF later_refl]]) (simp_all add: Let_def later_win_call)
  show "later s (snd (win_Readlink W p s))"
    unfolding win_Readlink_def
    by (rule later_case [OF later_win_call [OF later_refl]]) (auto simp: Let_def later_win_call split: sum.splits)
qed

lemma later_writing:
  "later s (snd (win_Pwrite W fd b off s))" "later s (snd (win_Read W fd n s))"
  "later s (snd (win_Write W fd b s))" "later s (snd (win_Fsync W fd s))"
  "later s (snd (win_Utimens W p a t f s))" "later s (snd (win_Symlink W p q s))"
proof -
  show "later s (snd (win_Utimens W p a t f s))"
    unfolding win_Utimens_def
    by (rule later_case [OF later_win_call [OF later_refl]]) (simp_all add: case_prod_beta later_win_call)
qed (auto simp: win_Pwrite_def win_Read_def win_Write_def win_Fsync_def win_Symlink_def Let_def snd_apfst intro!: later_intros)

lemma opened_of_later: "later s s' \<Longrightarrow> opened s s'"
  by (simp add: opened_def)

lemma win_step_opened: "win_step W s s' \<Longrightarrow> opened s s'"
  by (induction rule: win_step.induct)
    (auto simp: win_host_def win_Fchmod_def win_Chmod_def win_Mkdir_def win_Unlink_def win_Rmdir_def win_Rename_def
      win_Link_def win_sysop_def opened_Open opened_Truncate
      intro!: opened_of_later later_win_call later_Close later_Ftruncate later_reading later_writing
      split: prod.splits)

text \<open>The table after \<open>n\<close> registrations, as long as the counter has not overflowed.\<close>

definition numbered :: "nat \<Rightarrow> 'w win \<Rightarrow> bool" where
  "numbered n s \<longleftrightarrow> g_next s = word_of_nat (3 + n) \<and> (\<forall>k. g_table s k \<noteq> None \<longrightarrow> 3 \<le> unat k \<and> unat k < 3 + n)"

lemma numbered_later: "numbered n s \<Longrightarrow> later s s' \<Longrightarrow> numbered n s'"
  unfolding numbered_def later_def by metis

lemma unat_next: "n < 2 ^ 31 \<Longrightarrow> unat (word_of_nat n :: 32 word) = n"
  by (simp add: unat_of_nat)

lemma numbered_Register:
  assumes "numbered n s" "3 + n < 2 ^ 31"
  shows "numbered (Suc n) (snd (Register h s))"
  using assms unat_next [OF assms(2)] unfolding numbered_def Register_def
  by (auto simp: less_Suc_eq)

lemma win_run_numbered:
  assumes "win_run W k s s'" "numbered n s" "3 + n + k \<le> 2 ^ 31"
  shows "numbered (n + k) s' \<and> (\<forall>i. unat i < 3 + n \<longrightarrow> g_table s' i = None \<or> g_table s' i = g_table s i)"
  using assms
proof (induction rule: win_run.induct)
  case (none s)
  then show ?case by simp
next
  case (more k s s' s'')
  have "k \<le> (if g_next s'' = g_next s' then k else Suc k)" by simp
  then have b: "3 + n + k \<le> 2 ^ 31" using more.prems(2) by linarith
  note i = more.IH [OF more.prems(1) b]
  consider (no) "later s' s''" | (yes) h w where "later (snd (Register h (s'\<lparr>win_sys := w\<rparr>))) s''"
    using win_step_opened [OF more.hyps(2)] by (auto simp: opened_def)
  then show ?case
  proof cases
    case no
    then have "numbered (n + k) s''" "g_next s'' = g_next s'" using i numbered_later by (auto simp: later_def)
    moreover have "g_table s'' i = None \<or> g_table s'' i = g_table s i" if "unat i < 3 + n" for i
      using no i that unfolding later_def by metis
    ultimately show ?thesis by simp
  next
    case yes
    let ?t = "snd (Register h (s'\<lparr>win_sys := w\<rparr>))"
    have nx: "g_next s'' = g_next s' + 1" using yes by (simp add: later_def Register_def)
    then have ne: "g_next s'' \<noteq> g_next s'" by simp
    then have lt: "3 + (n + k) < 2 ^ 31" using more.prems(2) by simp
    have "numbered (n + k) (s'\<lparr>win_sys := w\<rparr>)" using i by (simp add: numbered_def)
    from numbered_later [OF numbered_Register [OF this lt] yes]
    have "numbered (Suc (n + k)) s''" .
    moreover have "g_table s'' i = None \<or> g_table s'' i = g_table s i" if "unat i < 3 + n" for i
    proof -
      have "unat (g_next s') = 3 + (n + k)" using i unat_next [OF lt] by (simp add: numbered_def)
      then have "i \<noteq> g_next s'" using that by auto
      then have "g_table ?t i = g_table s' i" by (simp add: Register_def)
      then show ?thesis using yes i that unfolding later_def by metis
    qed
    ultimately show ?thesis using ne by simp
  qed
qed

text \<open>Every call on a descriptor outside the table answers \<^verbatim>\<open>EBADF\<close> and changes nothing.\<close>

lemma dead_descriptor:
  assumes "Grab s fd = None"
  shows "Close (win_host W) fd s = (Inl EBADF, s)" "Pread (win_host W) s fd n off = Inl EBADF"
    "Pwrite (win_host W) fd b off s = (Inl EBADF, s)" "Read (win_host W) fd n s = (Inl EBADF, s)"
    "Write (win_host W) fd b s = (Inl EBADF, s)" "Fsync (win_host W) fd s = (Inl EBADF, s)"
    "Ftruncate (win_host W) fd n s = (Inl EBADF, s)" "Fstat (win_host W) s fd = Inl EBADF"
  using assms
  by (simp_all add: win_host_def on_handle_def win_Close_def win_Pread_def win_Pwrite_def win_Read_def
      win_Write_def win_Fsync_def win_Ftruncate_def win_Fstat_def)

lemma Close_drops:
  assumes "win_Close W fd s = (r, s')" and "r \<noteq> Inl EBADF"
  shows "g_table s (word_of_nat fd) \<noteq> None" "g_table s' (word_of_nat fd) = None"
  using assms by (auto simp: win_Close_def on_handle_def Grab_def Drop_def win_call_def split: option.splits prod.splits)

lemma start_numbered: "numbered 0 (win_start w)"
  by (simp add: numbered_def win_start_def)

lemma Open_number:
  assumes "numbered n s" "3 + n < 2 ^ 31" "fst (win_Open W p fl m s) = Inr q"
  shows "q = 3 + n"
proof -
  have "g_next s = word_of_nat (3 + n)" using assms(1) by (simp add: numbered_def)
  then show ?thesis using assms(3) unat_next [OF assms(2)]
    by (auto simp: win_Open_def win_call_def Register_def as_fd_def split: prod.splits sum.splits if_splits)
qed

text \<open>Where the counter ends: the next open has its handle and answers an error no system has.\<close>

lemma overflowed_open:
  assumes "numbered (2 ^ 31 - 3) s" "CreateFileW W (Wide W p) (open_access fl) share_all (open_disposition fl)
      (or backup_semantics open_reparse_point) (win_sys s) = (Inr h, w)"
  shows "fst (win_Open W p fl m s) = Inl (Errno (2 ^ 31))"
    "g_table (snd (win_Open W p fl m s)) (word_of_nat (2 ^ 31)) = Some h"
  using assms by (simp_all add: numbered_def win_Open_def win_call_def Register_def as_fd_def)

text \<open>
  C34: a closed descriptor never comes back to life. As long as fewer than \<open>2 ^ 31 - 3\<close> handles have been
  registered, so that the 32-bit counter has not overflowed: whatever calls are made after its
  close, no open answers with its number again, since opens answer 3, 4, 5 and so on, and every use
  of it answers \<^verbatim>\<open>EBADF\<close> and reaches no handle; the descriptors that are open are never 0, 1 or 2.
\<close>

theorem closed_descriptors_stay_dead:
  assumes "win_run W j (win_start w) s" and "Close (win_host W) fd s = (r, s1)" and "r \<noteq> Inl EBADF"
    and "win_run W k s1 s2" and "j + k < 2 ^ 31 - 3"
  shows "(\<forall>q. fst (Open (win_host W) p fl m s2) = Inr q \<longrightarrow> q = 3 + j + k \<and> q \<noteq> fd) \<and> 3 \<le> fd \<and>
    Close (win_host W) fd s2 = (Inl EBADF, s2) \<and> Pread (win_host W) s2 fd n off = Inl EBADF \<and>
    Pwrite (win_host W) fd b off s2 = (Inl EBADF, s2) \<and> Read (win_host W) fd n s2 = (Inl EBADF, s2) \<and>
    Write (win_host W) fd b s2 = (Inl EBADF, s2) \<and> Fsync (win_host W) fd s2 = (Inl EBADF, s2) \<and>
    Ftruncate (win_host W) fd n s2 = (Inl EBADF, s2) \<and> Fstat (win_host W) s2 fd = Inl EBADF"
proof -
  have c: "win_Close W fd s = (r, s1)" using assms(2) by (simp add: win_host_def)
  let ?key = "word_of_nat fd :: 32 word"
  have b: "3 + 0 + j \<le> 2 ^ 31" "3 + j + k < 2 ^ 31" using assms(5) by simp_all
  have s: "numbered j s" using win_run_numbered [OF assms(1) start_numbered b(1)] by simp
  have "g_table s ?key \<noteq> None" using Close_drops(1) [OF c assms(3)] .
  then have key: "3 \<le> unat ?key" "unat ?key < 3 + j" using s by (auto simp: numbered_def)
  have "later s s1" using later_Close [of s W fd] by (simp add: c)
  with s have "numbered j s1" by (rule numbered_later)
  from win_run_numbered [OF assms(4) this] b(2)
  have s2: "numbered (j + k) s2" "g_table s2 ?key = None \<or> g_table s2 ?key = g_table s1 ?key" using key(2) by auto
  then have dead: "Grab s2 fd = None" using Close_drops(2) [OF c assms(3)] by (auto simp: Grab_def)
  have le: "unat ?key \<le> fd" by (simp add: unat_of_nat)
  have "q = 3 + j + k \<and> q \<noteq> fd" if "fst (Open (win_host W) p fl m s2) = Inr q" for q
  proof -
    have q: "q = 3 + (j + k)" using Open_number [OF s2(1), of W p fl m q] that b(2) by (simp add: win_host_def)
    have "unat ?key = fd" if "q = fd" using unat_next [of fd] q b(2) that by linarith
    then show ?thesis using q key(2) by auto
  qed
  then show ?thesis using le key(1) by (simp add: dead_descriptor [OF dead])
qed

text \<open>A system whose calls all succeed: one file, empty, of one handle.\<close>

definition demo_win :: "unit win32" where
  "demo_win = \<lparr>
     CreateFileW = (\<lambda>p a sh d at w. (Inr 0, w)),
     CloseHandle = (\<lambda>h w. (Inr (), w)),
     ReadFile = (\<lambda>h n ov w. (Inr [], w)),
     WriteFile = (\<lambda>h b ov w. (Inr (word_of_nat (length b)), w)),
     FlushFileBuffers = (\<lambda>h w. (Inr (), w)),
     SetFilePointerEx = (\<lambda>h n w. (Inr (), w)),
     SetEndOfFile = (\<lambda>h w. (Inr (), w)),
     GetFileInformationByHandle = (\<lambda>h w. Inl 5),
     GetFileAttributesExW = (\<lambda>p w. Inl 2),
     GetFileAttributesW = (\<lambda>p w. 0xFFFFFFFF),
     CreateDirectoryW = (\<lambda>p w. (Inl 5, w)),
     DeleteFileW = (\<lambda>p w. (Inl 5, w)),
     RemoveDirectoryW = (\<lambda>p w. (Inl 2, w)),
     MoveFileExW = (\<lambda>a b fl w. (Inl 5, w)),
     CreateHardLinkW = (\<lambda>a b w. (Inl 5, w)),
     SetFileTime = (\<lambda>h t w. (Inr (), w)),
     GetReparsePoint = (\<lambda>h n w. Inl 1),
     CreateSymbolicLinkW = (\<lambda>a b fl w. (Inl 1314, w)),
     GetVolumePathNameW = (\<lambda>p w. None),
     GetDiskFreeSpaceExW = (\<lambda>p w. Inr (4096, 8192, 4096)),
     FindFiles = (\<lambda>p w. None),
     MultiByteToWideChar = map (\<lambda>c. of_char c),
     WideCharToMultiByte = map (\<lambda>c. char_of (unat c)),
     win_create_directories = (\<lambda>p w. (Inr (), w)),
     win_weakly_canonical = (\<lambda>w p. Inr [p])\<rparr>"

theorem closed_descriptors_stay_dead_witness:
  "Write (win_host demo_win) 3 [1] (snd (Close (win_host demo_win) 3 (snd (Open (win_host demo_win) ''a'' O_RDWR 0 (win_start ()))))) =
   (Inl EBADF, snd (Close (win_host demo_win) 3 (snd (Open (win_host demo_win) ''a'' O_RDWR 0 (win_start ())))))"
proof -
  let ?s = "snd (Open (win_host demo_win) ''a'' O_RDWR 0 (win_start ()))"
  let ?c = "Close (win_host demo_win) 3 ?s"
  have "fst ?c = Inr ()"
    by (simp add: win_host_def win_Open_def win_Close_def win_call_def demo_win_def Register_def on_handle_def
        Grab_def Drop_def win_start_def as_fd_def)
  then have "fst ?c \<noteq> Inl EBADF" by simp
  moreover have "win_run demo_win (if g_next ?s = g_next (win_start ()) then 0 else Suc 0) (win_start ()) ?s"
    by (rule win_run.more [OF win_run.none win_step.Open])
  moreover have "(if g_next ?s = g_next (win_start ()) then 0 else Suc 0) + 0 < (2 ^ 31 - 3 :: nat)" by simp
  moreover have "?c = (fst ?c, snd ?c)" by simp
  ultimately show ?thesis
    using closed_descriptors_stay_dead [of demo_win _ "()" ?s 3 "fst ?c" "snd ?c" 0 "snd ?c", OF _ _ _ win_run.none] by blast
qed

end
