(* ===== verification/WinFsp.thy ===== *)
theory WinFsp
  imports FuseOps
begin

text \<open>
  The WinFsp backend \<^verbatim>\<open>winfsp_backend.cpp\<close>: the same requests as the FUSE backend, marshalled
  for Windows. A path is looked up in the case the package spells it, a writable mount shows every
  name with the owner's write bit, and times are cut to 32 bits by the casts. The table has no
  entry for hard links and for \<^verbatim>\<open>opendir\<close>.
\<close>

section \<open>Attributes\<close>

record win_stat =
  ws_mode :: "32 word"
  ws_nlink :: nat
  ws_size :: nat
  ws_uid :: nat
  ws_gid :: nat
  ws_atim :: int
  ws_mtim :: int
  ws_ctim :: int
  ws_birthtim :: int

definition int32 :: "int \<Rightarrow> int" where
  "int32 n = sint (word_of_int n :: 32 word)"

definition ToStat_win :: "bool \<Rightarrow> vfs_attr \<Rightarrow> win_stat" where
  "ToStat_win ro a =
     (let type = (if a_isDir a then S_IFDIR else if a_isSymlink a then S_IFLNK else S_IFREG);
          perms = and (a_perms a) 0xFFF;
          perms = (if \<not> ro then or perms 0x80 else perms)
      in \<lparr>ws_mode = or type perms, ws_nlink = (if a_nlink a \<noteq> 0 then a_nlink a else 1),
          ws_size = a_size a, ws_uid = a_uid a, ws_gid = a_gid a,
          ws_atim = int32 (a_mtime a), ws_mtim = int32 (a_mtime a),
          ws_ctim = int32 (a_mtime a), ws_birthtim = int32 (a_mtime a)\<rparr>)"

section \<open>Requests\<close>

text \<open>\<^verbatim>\<open>f_frsize\<close> is the second component of \<open>WSpace\<close>. \<open>WUnserved\<close>: the table has no entry.\<close>

datatype win_reply =
    WStatus "unit res"
  | WAttr "win_stat res"
  | WNames "string list"
  | WHandle "open_file option res"
  | WData "bytes res"
  | WCount "nat res"
  | WTarget "string res"
  | WSpace "(statvfs_info \<times> nat) res"
  | WUnserved

definition V_win :: "'h vfs \<Rightarrow> string \<Rightarrow> string" where
  "V_win S p = CanonicalCase S (NormalizeVPath p)"

definition at_path :: "string \<Rightarrow> (string \<Rightarrow> ('h, 'a) op) \<Rightarrow> ('h, 'a) op" where
  "at_path p f = do { S \<leftarrow> State_Monad.get; f (V_win S p) }"

definition win_reading :: "('h vfs \<Rightarrow> win_reply) \<Rightarrow> ('h, win_reply) op" where
  "win_reading f = do { S \<leftarrow> State_Monad.get; ret (f S) }"

definition win_status :: "('h, unit res) op \<Rightarrow> ('h, win_reply) op" where
  "win_status m = do { r \<leftarrow> m; ret (WStatus r) }"

fun serve_win :: "'h env \<Rightarrow> request \<Rightarrow> ('h, win_reply) op" where
  "serve_win E (Getattr p) = win_reading (\<lambda>S.
     WAttr (map_sum id (ToStat_win (readOnly S)) (VfsGetattr E S (V_win S p))))"
| "serve_win E (Readdir p) = win_reading (\<lambda>S. WNames ([''.'', ''..''] @ VfsReaddir E S (V_win S p)))"
| "serve_win E (OpenReq p flags) = do { r \<leftarrow> at_path p (\<lambda>v. VfsOpen E v flags); ret (WHandle r) }"
| "serve_win E (CreateReq p mode flags) = do { r \<leftarrow> at_path p (\<lambda>v. VfsCreate E v mode flags); ret (WHandle r) }"
| "serve_win E (ReadReq f n off) = win_reading (\<lambda>S. WData (VfsRead E S f n off))"
| "serve_win E (WriteReq f buf off) = do { r \<leftarrow> VfsWrite E f buf off; ret (WCount r) }"
| "serve_win E (Release f) = do { VfsRelease E f; ret (WStatus ok) }"
| "serve_win E (MkdirReq p mode) = win_status (at_path p (\<lambda>v. VfsMkdir E v mode))"
| "serve_win E (UnlinkReq p) = win_status (at_path p (VfsUnlink E))"
| "serve_win E (RmdirReq p) = win_status (at_path p (VfsRmdir E))"
| "serve_win E (RenameReq from to' fl) =
     (if fl \<noteq> 0 then ret (WStatus (Inl EINVAL))
      else win_status (at_path from (\<lambda>a. at_path to' (\<lambda>b. VfsRename E a b))))"
| "serve_win E (TruncateReq p n f) = win_status (at_path p (\<lambda>v. VfsTruncate E v f n))"
| "serve_win E (ChmodReq p mode) = win_status (at_path p (\<lambda>v. VfsChmod E v mode))"
| "serve_win E (Chown p) = win_reading (\<lambda>S. WStatus (if readOnly S then Inl EROFS else ok))"
| "serve_win E (UtimensReq p a m) = win_status (at_path p (\<lambda>v. VfsUtimens E v a m))"
| "serve_win E (ReadlinkReq p n) = win_reading (\<lambda>S.
     WTarget (map_sum id (op_readlink n) (VfsReadlink E S (V_win S p))))"
| "serve_win E (SymlinkReq tgt p) = win_status (at_path p (\<lambda>v. VfsSymlink E tgt v))"
| "serve_win E Flush = ret (WStatus ok)"
| "serve_win E (FsyncReq f) = win_status (VfsFsync E f)"
| "serve_win E StatfsReq = win_reading (\<lambda>S. WSpace (map_sum id (\<lambda>si. (si, sv_bsize si)) (VfsStatfs E S)))"
| "serve_win E (LinkReq from to') = ret WUnserved"
| "serve_win E (Opendir p) = ret WUnserved"

fun serve_win_all :: "'h env \<Rightarrow> request list \<Rightarrow> 'h vfs \<Rightarrow> win_reply list \<times> 'h vfs" where
  "serve_win_all E [] S = ([], S)"
| "serve_win_all E (q # qs) S =
     (case run_state (serve_win E q) S of (r, S) \<Rightarrow>
        (case serve_win_all E qs S of (rs, S) \<Rightarrow> (r # rs, S)))"

end
