(* ===== verification/MountProps.thy ===== *)
theory MountProps
  imports MemHost
begin

text \<open>
  Properties of whole sessions of requests, with concrete sessions on the in-memory host that
  meet their hypotheses.
\<close>

definition session :: "request list" where
  "session = [CreateReq ''/d/new'' 1 0x1A4, MkdirReq ''/d/sub'' 0x1ED, UnlinkReq ''/d/old'', UnlinkReq ''/save/s'']"

lemma session_kernel: "\<forall>q \<in> set session. kernel_request q"
  by (simp add: session_def)

lemma mount_roots_set:
  "mount_roots S = set (writelayer S # map l_source (filter (\<lambda>L. l_type L = Dir \<and> l_rw L) (layers S)))"
  by (auto simp: mount_roots_def)

lemma demo_roots: "mount_roots (demo ro h) = {''/wl'', ''/keep''}"
  unfolding mount_roots_set by (auto simp: demo_def plain_layer_def)

text \<open>
  C1: copy-on-write isolation. Whatever sequence of requests the kernel sends, to whatever host,
  every call that can change a path is made at or below the writelayer or a kept folder (or
  makes the directories that lead to one): the lower layers are never written to.
\<close>

theorem mount_writes_only_its_roots:
  assumes "\<forall>r \<in> mount_roots S. clean r" and "host_state S = (h, [])" and "\<forall>q \<in> set qs. kernel_request q"
  shows "\<forall>c \<in> set (snd (host_state (snd (serve_all (logged_env E) qs S)))). confined (mount_roots S) c"
proof -
  have "iso.good (mount_roots S) S"
    using rooted_mount [OF assms(1)] assms(2) by (simp add: iso.good_def all_confined_def)
  then show ?thesis using iso.serve_all_keeps [OF assms(3)] by (auto simp: iso.good_def all_confined_def)
qed

theorem mount_writes_only_its_roots_witness:
  "list_all (confined {''/wl'', ''/keep''})
     (snd (host_state (snd (serve_all (logged_env mem_env) session (demo False (demo_mem, []))))))"
  using mount_writes_only_its_roots [of "demo False (demo_mem, [])" demo_mem session mem_env]
  unfolding list_all_iff by (simp add: demo_roots session_kernel clean_def)

text \<open>
  C10: a read-only mount. Every request for a change is refused with \<^verbatim>\<open>EROFS\<close>, and over any
  session no call that can change the host is made and the filesystem state stays as it was.
\<close>

theorem readonly_mount_never_changes:
  assumes "readOnly S" and "\<forall>q \<in> set qs. kernel_request q"
  shows "snd (host_state (snd (serve_all (logged_env E) qs S))) = snd (host_state S) \<and>
    same_but_host S (snd (serve_all (logged_env E) qs S)) \<and>
    (\<forall>q \<in> set qs. changes q \<longrightarrow> refused (fst (run_state (serve (logged_env E) q) S)))"
  using serve_all_quiet [OF assms, of E] readonly_changes [OF assms(1)] by (auto simp: quiet_def)

theorem readonly_mount_never_changes_witness:
  "snd (host_state (snd (serve_all (logged_env mem_env) session (demo True (demo_mem, []))))) = []"
  using readonly_mount_never_changes [of "demo True (demo_mem, [])" session mem_env] session_kernel
  by (simp add: demo_def)

end
