(* ===== verification/WinFspProps.thy ===== *)
theory WinFspProps
  imports WinFsp SpecProps MountProps InitProps CopyProps
begin

text \<open>
  The WinFsp mount as a FUSE mount: each request acts as the FUSE backend's request for the
  canonically spelled paths, and so do whole sessions.
\<close>

section \<open>Canonical spelling\<close>

lemma fold_char_slash: "fold_char c = CHR ''/'' \<longleftrightarrow> c = CHR ''/''"
proof (cases "CHR ''A'' \<le> c \<and> c \<le> CHR ''Z''")
  case True
  then have b: "65 \<le> (of_char c :: nat)" "(of_char c :: nat) \<le> 90" by (simp_all add: less_eq_char_def)
  then have "of_char (fold_char c) = (of_char c :: nat) + 32" using True by (simp add: fold_char_def)
  then have "of_char (fold_char c) \<noteq> (47 :: nat)" "of_char c \<noteq> (47 :: nat)" using b by simp_all
  then show ?thesis by auto
qed (auto simp: fold_char_def)

lemma FoldCase_normal: "FoldCase u = FoldCase v \<Longrightarrow> normal v \<Longrightarrow> normal u"
proof -
  assume f: "FoldCase u = FoldCase v" and n: "normal v"
  have "map (\<lambda>c. c = CHR ''/'') u = map (\<lambda>c. c = CHR ''/'') v"
    using arg_cong [OF f, of "map (\<lambda>c. c = CHR ''/'')"] by (simp add: FoldCase_def comp_def fold_char_slash)
  moreover have "normal u \<longleftrightarrow> (map (\<lambda>c. c = CHR ''/'') u \<noteq> [] \<longrightarrow>
      \<not> hd (map (\<lambda>c. c = CHR ''/'') u) \<and> \<not> last (map (\<lambda>c. c = CHR ''/'') u))" for u
    by (cases "u = []") (simp_all add: normal_def hd_map last_map)
  ultimately show "normal u" using n by presburger
qed

lemma CanonicalCase_fold:
  assumes "table_ok (canonCase S)"
  shows "FoldCase (CanonicalCase S v) = FoldCase v"
  using canonical_loop_cases [of "FoldCase v" "canonCase S" "length v"]
    FoldCase_hit [OF assms, of _ v] by (auto simp: CanonicalCase_def)

lemma V_win_normal: "table_ok (canonCase S) \<Longrightarrow> NormalizeVPath (V_win S p) = V_win S p"
  unfolding V_win_def
  by (rule NormalizeVPath_id [OF FoldCase_normal [OF CanonicalCase_fold NormalizeVPath_normal]])

section \<open>One request\<close>

text \<open>The FUSE request that a WinFsp request stands for, and what its reply looks like on Windows.\<close>

fun win_spelled :: "'h vfs \<Rightarrow> request \<Rightarrow> request" where
  "win_spelled S (Getattr p) = Getattr (V_win S p)"
| "win_spelled S (Opendir p) = Opendir (V_win S p)"
| "win_spelled S (Readdir p) = Readdir (V_win S p)"
| "win_spelled S (OpenReq p fl) = OpenReq (V_win S p) fl"
| "win_spelled S (CreateReq p m fl) = CreateReq (V_win S p) m fl"
| "win_spelled S (MkdirReq p m) = MkdirReq (V_win S p) m"
| "win_spelled S (UnlinkReq p) = UnlinkReq (V_win S p)"
| "win_spelled S (RmdirReq p) = RmdirReq (V_win S p)"
| "win_spelled S (RenameReq p q fl) = RenameReq (V_win S p) (V_win S q) fl"
| "win_spelled S (TruncateReq p n f) = TruncateReq (V_win S p) n f"
| "win_spelled S (ChmodReq p m) = ChmodReq (V_win S p) m"
| "win_spelled S (Chown p) = Chown (V_win S p)"
| "win_spelled S (UtimensReq p a m) = UtimensReq (V_win S p) a m"
| "win_spelled S (ReadlinkReq p n) = ReadlinkReq (V_win S p) n"
| "win_spelled S (SymlinkReq t p) = SymlinkReq t (V_win S p)"
| "win_spelled S (LinkReq p q) = LinkReq (V_win S p) (V_win S q)"
| "win_spelled S q = q"

fun win_request :: "request \<Rightarrow> bool" where
  "win_request (LinkReq p q) \<longleftrightarrow> False"
| "win_request (Opendir p) \<longleftrightarrow> False"
| "win_request _ \<longleftrightarrow> True"

definition win_stat_of :: "bool \<Rightarrow> fuse_stat \<Rightarrow> win_stat" where
  "win_stat_of ro st =
     \<lparr>ws_mode = (if ro then f_mode st else or (f_mode st) 0x80), ws_nlink = f_nlink st, ws_size = f_size st,
      ws_uid = f_uid st, ws_gid = f_gid st, ws_atim = int32 (f_mtime st), ws_mtim = int32 (f_mtime st),
      ws_ctim = int32 (f_mtime st), ws_birthtim = int32 (f_mtime st)\<rparr>"

fun win_sees :: "bool \<Rightarrow> reply \<Rightarrow> win_reply \<Rightarrow> bool" where
  "win_sees ro (Status r) w \<longleftrightarrow> w = WStatus r"
| "win_sees ro (Attr r) w \<longleftrightarrow> w = WAttr (map_sum id (win_stat_of ro) r)"
| "win_sees ro (Names ns) w \<longleftrightarrow> (\<exists>ms. w = WNames ms \<and> subseq (map fst ns) ms)"
| "win_sees ro (Handle r) w \<longleftrightarrow> w = WHandle r"
| "win_sees ro (Data r) w \<longleftrightarrow> w = WData r"
| "win_sees ro (Count r) w \<longleftrightarrow> w = WCount r"
| "win_sees ro (Target r) w \<longleftrightarrow> w = WTarget r"
| "win_sees ro (Space r) w \<longleftrightarrow> w = WSpace (map_sum id (\<lambda>si. (si, sv_bsize si)) r)"
| "win_sees ro (CachedDir a b) w \<longleftrightarrow> False"

lemma ToStat_win_view: "ToStat_win ro a = win_stat_of ro (ToStat a)"
  by (simp add: ToStat_win_def win_stat_of_def ToStat_def Let_def or.assoc)

lemma map_filter_subseq: "(\<And>x y. f x = Some y \<Longrightarrow> g y = x) \<Longrightarrow> subseq (map g (List.map_filter f xs)) xs"
  by (induction xs) (auto simp: List.map_filter_simps split: option.splits)

lemma typed_names_subseq: "subseq (map fst (VfsReaddirTyped E S v)) (VfsReaddir E S v)"
  unfolding VfsReaddirTyped_def VfsReaddir_def by (rule map_filter_subseq) (auto split: sum.splits)

lemmas win_defs = win_reading_def win_status_def at_path_def reading_def status_def

lemma run_serve_win:
  assumes "table_ok (canonCase S)" and "win_request q"
    and "run_state (serve E (win_spelled S q)) S = (r, S')" and "run_state (serve_win E q) S = (w, S'')"
  shows "S'' = S' \<and> win_sees (readOnly S) r w"
proof -
  note v = V_win_normal [OF assms(1)]
  show ?thesis
  proof (cases q)
    case (Readdir p)
    have "subseq (map fst (VfsReaddirTyped E S (V_win S p))) (VfsReaddir E S (V_win S p))" by (rule typed_names_subseq)
    then show ?thesis using assms(3,4) Readdir by (auto simp: win_defs v comp_def)
  next
    case (Getattr p)
    then show ?thesis using assms(3,4)
      by (cases "VfsGetattr E S (V_win S p)") (auto simp: win_defs v ToStat_win_view)
  qed (use assms(2-4) in \<open>auto simp: win_defs v split: if_splits prod.splits\<close>)
qed

section \<open>Sessions\<close>

lemma V_win_shape: "same_shape S S' \<Longrightarrow> V_win S' = V_win S"
  by (simp add: fun_eq_iff V_win_def CanonicalCase_def same_shape_def)

lemma win_spelled_shape: "same_shape S S' \<Longrightarrow> win_spelled S' q = win_spelled S q"
  by (cases q) (simp_all add: V_win_shape)

lemma serve_shape: "same_shape S (snd (run_state (serve E q) S))"
  using shape.serve_keeps [of S E q] by (simp add: keepsD)

lemma serve_win_all_refines:
  assumes "table_ok (canonCase S)" and "list_all win_request qs" and "same_shape S0 S"
  shows "snd (serve_win_all E qs S) = snd (serve_all E (map (win_spelled S0) qs) S) \<and>
    list_all2 (win_sees (readOnly S0)) (fst (serve_all E (map (win_spelled S0) qs) S)) (fst (serve_win_all E qs S))"
  using assms
proof (induction qs arbitrary: S)
  case (Cons q qs)
  obtain r S' w S'' where r: "run_state (serve E (win_spelled S q)) S = (r, S')" "run_state (serve_win E q) S = (w, S'')"
    by fastforce
  have w: "S'' = S' \<and> win_sees (readOnly S) r w"
    by (rule run_serve_win [OF Cons.prems(1) _ r]) (use Cons.prems(2) in simp)
  have s: "same_shape S S'" using serve_shape [of S E "win_spelled S q"] r(1) by simp
  then have s0: "same_shape S0 S'" and t: "table_ok (canonCase S')" and ro: "readOnly S = readOnly S0"
    using Cons.prems(1,3) by (auto simp: same_shape_def)
  have q: "win_spelled S q = win_spelled S0 q" using win_spelled_shape [OF Cons.prems(3)] .
  show ?case using Cons.IH [OF t _ s0] Cons.prems(2) r w q ro by (auto split: prod.splits)
qed simp

section \<open>Properties\<close>



text \<open>So what is proved of the FUSE sessions holds of the WinFsp sessions: a read-only mount changes nothing.\<close>

lemma kernel_request_spelled [simp]: "kernel_request (win_spelled S q) = kernel_request q"
  by (cases q) simp_all

lemma winfsp_readonly_quiet:
  assumes "table_ok (canonCase S)" "list_all win_request qs" "readOnly S" "\<forall>q \<in> set qs. kernel_request q"
  shows "quiet S (snd (serve_win_all (logged_env E) qs S))"
  using serve_win_all_refines [OF assms(1,2), of S "logged_env E"] serve_all_quiet [OF assms(3), of "map (win_spelled S) qs" E] assms(4)
  by simp


section \<open>Case-only renames\<close>

text \<open>
  C20: a rename that changes only the case loses the file. Windows programs change the case of a name
  by a rename. When the mount knows the name, both spellings have the same canonical one,
  \<^verbatim>\<open>VfsRename\<close> is called with one path twice, and hiding the old name at its end hides the file itself:
  outside the kept folders a rename that was answered with success leaves nothing under either name.
\<close>

theorem case_only_rename_loses_the_file:
  assumes "V_win S p = V_win S q" "V_win S p \<noteq> []" "writelayer S \<noteq> []" "PassthroughHost S (V_win S p) = None"
    and "run_state (serve_win E (RenameReq p q 0)) S = (WStatus ok, S')"
  shows "fst (run_state (serve_win E (Getattr p)) S') = WAttr (Inl ENOENT) \<and>
    fst (run_state (serve_win E (Getattr q)) S') = WAttr (Inl ENOENT)"
proof -
  have run: "run_state (VfsRename E (V_win S p) (V_win S p)) S = (ok, S')"
    using assms(1,5) by (auto simp: win_defs split: prod.splits)
  note e = removal_hides(3) [OF assms(3,2,4), of E "V_win S p"]
  have gone: "r_kind (Resolve E S' (V_win S p)) = HitNone" using e run unfolding ensures_def by (metis shape_refl fst_conv snd_conv)
  have "keeps (same_shape S) (VfsRename E (V_win S p) (V_win S p))" by (rule shape.VfsRename_keeps)
  from keepsD [OF this shape_refl] have "same_shape S S'" using run by simp
  then have v: "V_win S' = V_win S" by (rule V_win_shape)
  have "VfsGetattr E S' (V_win S p) = Inl ENOENT" using gone assms(2) by (simp add: VfsGetattr_def Let_def)
  then show ?thesis using assms(1) by (simp add: win_defs v)
qed

text \<open>Such a run, for a file of the writelayer that the package spells \<open>f\<close>.\<close>

definition own_file :: "mem vfs" where
  "own_file = \<lparr>writelayer = ''/wl'', readOnly = False, flattenSymlinks = True, v_uid = 0, v_gid = 0, layers = [],
     implicitDirs = {}, caseInsensitive = True, canonCase = [(''f'', ''f'')], whiteoutSet = {}, opaqueSet = {},
     host_state = \<lparr>nodes = [(''/wl'', DirNode 0x1ED), (''/wl/f'', FileNode 0x1A4 [7])], fds = []\<rparr>\<rparr>"

lemma own_file_spelling: "V_win own_file ''F'' = ''f''" "V_win own_file ''f'' = ''f''"
proof -
  have "fold_char (CHR ''F'') = CHR ''f''" "fold_char (CHR ''f'') = CHR ''f''" by code_simp+
  moreover have "NormalizeVPath ''F'' = ''F''" "NormalizeVPath ''f'' = ''f''" by (simp_all add: NormalizeVPath_id normal_def)
  ultimately show "V_win own_file ''F'' = ''f''" "V_win own_file ''f'' = ''f''"
    by (simp_all add: V_win_def CanonicalCase_def own_file_def FoldCase_def canonical_loop.simps)
qed

lemma case_only_rename_run:
  "\<exists>S'. run_state (serve_win mem_env (RenameReq ''F'' ''f'' 0)) own_file = (WStatus ok, S') \<and>
    node_at (host_state S') ''/wl/f'' = Some (FileNode 0x1A4 [7])"
proof -
  have r: "Resolve mem_env own_file ''f'' = no_hit\<lparr>r_kind := WriteLayer, r_hostPath := ''/wl/f''\<rparr>"
    by (simp add: Resolve_def own_file_def IsWhiteouted_def WLPath_def mem_lstat_def node_at_def Let_def)
  have d: "\<not> lstat_dir mem_env own_file ''/wl/f''"
    by (simp add: lstat_dir_def own_file_def mem_lstat_def node_at_def mem_stat_def FromStat_def regular_mode)
  have p: "PassthroughHost own_file v = None" "KeptLayerFor own_file v = None" for v
    by (simp_all add: PassthroughHost_def KeptLayerFor_def own_file_def)
  have w: "WLPath own_file ''f'' = ''/wl/f''" "WLPath own_file [] = ''/wl''" "ParentVRel ''f'' = []"
    "WhiteoutPath own_file ''f'' = ''/wl/.wh.f''" "writelayer own_file \<noteq> []" "\<not> readOnly own_file"
    by (simp_all add: WLPath_def own_file_def ParentVRel_def find_last_of_def WhiteoutPath_def BaseName_def)
  have e: "run_state (EnsureWriteParent mem_env ''f'') own_file = (ok, own_file)"
    by (simp add: EnsureWriteParent_def w) (simp add: own_file_def mem_dirs_def node_at_def is_dir_def)
  have u: "run_state (RemoveWhiteout mem_env ''f'') own_file = ((), own_file)"
    by (simp add: RemoveWhiteout_def w) (simp add: own_file_def MutateWhiteouts_def mem_unlink_def node_at_def)
  have n: "mem_rename ''/wl/f'' ''/wl/f'' (host_state own_file) = (Inr (), host_state own_file)"
    by (simp add: own_file_def mem_rename_def node_at_def)
  have c: "\<exists>S'. run_state (CreateWhiteout mem_env ''f'') own_file = ((), S') \<and>
      node_at (host_state S') ''/wl/f'' = Some (FileNode 0x1A4 [7])"
    by (simp add: CreateWhiteout_def w touch_def) (simp add: own_file_def MutateWhiteouts_def mem_dirs_def node_at_def is_dir_def
        mem_open_def up_def find_last_of_def put_node_def open_flags ignore_def Let_def)
  obtain S' where c': "run_state (CreateWhiteout mem_env ''f'') own_file = ((), S')"
    "node_at (host_state S') ''/wl/f'' = Some (FileNode 0x1A4 [7])" using c by blast
  have "run_state (VfsRename mem_env ''f'' ''f'') own_file = (ok, S')"
    unfolding VfsRename_def by (simp add: w r d p e u n c' Let_def virtual_dir_def no_hit_def HideLower_def run_state_trym)
  then show ?thesis using c'(2) by (simp add: win_defs own_file_spelling)
qed

theorem case_only_rename_loses_the_file_witness:
  "\<exists>S'. run_state (serve_win mem_env (RenameReq ''F'' ''f'' 0)) own_file = (WStatus ok, S') \<and>
    node_at (host_state S') ''/wl/f'' = Some (FileNode 0x1A4 [7]) \<and>
    fst (run_state (serve_win mem_env (Getattr ''f'')) S') = WAttr (Inl ENOENT)"
proof -
  obtain S' where r: "run_state (serve_win mem_env (RenameReq ''F'' ''f'' 0)) own_file = (WStatus ok, S')"
    "node_at (host_state S') ''/wl/f'' = Some (FileNode 0x1A4 [7])" using case_only_rename_run by blast
  have "writelayer own_file \<noteq> []" "PassthroughHost own_file ''f'' = None"
    by (simp_all add: own_file_def PassthroughHost_def)
  then show ?thesis using case_only_rename_loses_the_file [OF _ _ _ _ r(1)] r by (simp add: own_file_spelling)
qed

end
