(* ===== verification/Session.thy ===== *)
theory Session
  imports FuseOps
begin

text \<open>
  The mount session: \<^verbatim>\<open>mountsession_fuse.cpp\<close> and \<^verbatim>\<open>mountsession_win.cpp\<close>. \<^verbatim>\<open>Run\<close>
  pins the process to watch, builds the argument vector and hands the operation table over to
  the library's \<^verbatim>\<open>fuse_main\<close>, which serves until the mount goes; a thread of the server waits for
  the watched process and takes the mount down. The system calls are parameters.
\<close>

section \<open>The FUSE session\<close>

text \<open>
  How \<^verbatim>\<open>Run\<close> ends: with an exit code of its own, or in \<^verbatim>\<open>fuse_main\<close> with an argument vector
  and the globals that \<^verbatim>\<open>InitWithWatch\<close> reads there.
\<close>

datatype run =
    Refused nat
  | FuseMain "string list" "fd option" string

text \<open>\<open>pidfd_open\<close> is the system call: an error number or a descriptor.\<close>

definition Run :: "(int \<Rightarrow> nat + fd) \<Rightarrow> string \<Rightarrow> int \<Rightarrow> string list \<Rightarrow> run" where
  "Run pidfd_open mp pid bargs =
     (let fa = [''vidyagodfs'', mp] @ bargs in
      if pid > 0 then
        (case pidfd_open (sint (word_of_int pid :: 32 word)) of
           Inl e \<Rightarrow> Refused 1
         | Inr fd \<Rightarrow> FuseMain fa (Some fd) mp)
      else FuseMain fa None [])"

text \<open>\<^verbatim>\<open>op_init\<close>: the kernel's cache times, in seconds.\<close>

record fuse_config =
  negative_timeout :: nat
  attr_timeout :: nat
  entry_timeout :: nat

definition op_init :: "fuse_config \<Rightarrow> fuse_config" where
  "op_init cfg = cfg\<lparr>negative_timeout := 1, attr_timeout := 1, entry_timeout := 1\<rparr>"

text \<open>
  \<^verbatim>\<open>InitWithWatch\<close>: the inner init, then a thread for the watch when there is a descriptor. The
  result is the configuration and the arguments of the thread that was started.
\<close>

definition InitWithWatch ::
  "(fuse_config \<Rightarrow> fuse_config) option \<Rightarrow> fd option \<Rightarrow> string \<Rightarrow> fuse_config \<Rightarrow> fuse_config \<times> (fd \<times> string) option" where
  "InitWithWatch innerInit spawnerFd mp cfg =
     (case innerInit of Some f \<Rightarrow> f cfg | None \<Rightarrow> cfg, map_option (\<lambda>fd. (fd, mp)) spawnerFd)"

section \<open>The watch\<close>

record 'w watch_sys =
  poll :: "fd \<Rightarrow> 'w \<Rightarrow> (int \<times> nat) \<times> 'w"
  posix_spawnp :: "string list \<Rightarrow> 'w \<Rightarrow> (nat \<times> nat) \<times> 'w"
  syslog :: "string \<Rightarrow> nat \<Rightarrow> 'w \<Rightarrow> 'w"
  waitpid :: "nat \<Rightarrow> 'w \<Rightarrow> 'w"

text \<open>\<^verbatim>\<open>while (poll(...) < 0 && errno == EINTR) {}\<close>; \<open>None\<close>: still interrupted after \<open>n\<close> calls.\<close>

fun poll_loop :: "'w watch_sys \<Rightarrow> nat \<Rightarrow> fd \<Rightarrow> 'w \<Rightarrow> 'w option" where
  "poll_loop Y 0 pidfd w = None"
| "poll_loop Y (Suc n) pidfd w =
     (case poll Y pidfd w of ((r, e), w) \<Rightarrow> if r < 0 \<and> e = 4 then poll_loop Y n pidfd w else Some w)"

definition unmount :: "'w watch_sys \<Rightarrow> string \<Rightarrow> 'w \<Rightarrow> 'w" where
  "unmount Y mp w =
     (case posix_spawnp Y [''fusermount3'', ''-u'', ''-z'', mp] w of ((err, pid), w) \<Rightarrow>
        if err \<noteq> 0 then syslog Y mp err w else waitpid Y pid w)"

definition WatchSpawner :: "'w watch_sys \<Rightarrow> nat \<Rightarrow> fd \<Rightarrow> string \<Rightarrow> 'w \<Rightarrow> 'w option" where
  "WatchSpawner Y n pidfd mp w = map_option (unmount Y mp) (poll_loop Y n pidfd w)"

section \<open>The Windows session\<close>

text \<open>
  The watch thread starts before \<^verbatim>\<open>fuse_main\<close> with the process id; WinFsp takes the mount down when
  the process exits. \<open>open_process\<close> is \<^verbatim>\<open>OpenProcess\<close>; the wait for the handle ends with the
  process, so the outcome is either the end of the thread or \<^verbatim>\<open>ExitProcess(0)\<close> after the wait.
\<close>

datatype win_watch =
    NoWatch
  | ExitAfter nat

definition WatchSpawner_win :: "(32 word \<Rightarrow> nat option) \<Rightarrow> int \<Rightarrow> win_watch" where
  "WatchSpawner_win open_process pid =
     (case open_process (word_of_int pid) of None \<Rightarrow> NoWatch | Some h \<Rightarrow> ExitAfter h)"

text \<open>The argument vector has the mount point last, and the owner options first so that the caller's win.\<close>

definition Run_win :: "string \<Rightarrow> int \<Rightarrow> string list \<Rightarrow> string list \<times> int option" where
  "Run_win mp pid bargs =
     ([''vidyagodfs'', ''-o'', ''uid=-1,gid=-1''] @ bargs @ [mp],
      if pid > 0 then Some pid else None)"

section \<open>The program\<close>

text \<open>\<^verbatim>\<open>main\<close> down to \<^verbatim>\<open>fuse_main\<close>; the result is the exit code where there is one.\<close>

datatype 'h program =
    Exits nat
  | Aborts
  | Stuck
  | Serves "'h vfs" "string list" "(fd \<times> string) option"

definition vidyagodfs ::
  "(int \<Rightarrow> nat + fd) \<Rightarrow> 'h env \<Rightarrow> libzip \<Rightarrow> (zip_index \<Rightarrow> string list) \<Rightarrow> 'j json \<Rightarrow> string list \<Rightarrow> 'h \<Rightarrow> 'h program" where
  "vidyagodfs pidfd_open E lib names J args h =
     (case main E lib names J False args h of
        Exit n msg \<Rightarrow> Exits n
      | Uncaught \<Rightarrow> Aborts
      | Hangs \<Rightarrow> Stuck
      | RunMount S mp pid bargs \<Rightarrow>
          (case Run pidfd_open mp pid bargs of
             Refused n \<Rightarrow> Exits n
           | FuseMain fa spawnerFd g_mountpoint \<Rightarrow>
               Serves S fa (snd (InitWithWatch (Some op_init) spawnerFd g_mountpoint
                 \<lparr>negative_timeout = 0, attr_timeout = 1, entry_timeout = 1\<rparr>))))"

end
