(* ===== verification/SessionProps.thy ===== *)
theory SessionProps
  imports Session InitProps
begin

text \<open>
  The mount session: which runs of the program end in a served mount and what is watched then, and
  the end of the watch.
\<close>

section \<open>The program\<close>

lemma main_runs:
  assumes "main E lib names J win args h = RunMount S mp pid bargs"
  obtains spec rest opt sp0 sp where "args = spec # mp # rest"
    "parse_args rest \<lparr>watchPid = 0, keepSymlinks = False, backendArgs = []\<rparr> = Some opt"
    "ParseSpec J win spec = Inr sp0" "sp = (if sp_mountpoint sp0 = [] then sp0\<lparr>sp_mountpoint := mp\<rparr> else sp0)"
    "Init E lib names (\<not> keepSymlinks opt) sp h = Inr S" "pid = watchPid opt" "bargs = backendArgs opt"
proof -
  obtain spec m rest where a: "args = spec # m # rest"
    using assms by (auto simp: main_def split: list.splits)
  obtain opt where o: "parse_args rest \<lparr>watchPid = 0, keepSymlinks = False, backendArgs = []\<rparr> = Some opt"
    using assms a by (auto simp: main_def split: option.splits)
  obtain sp0 where s: "ParseSpec J win spec = Inr sp0"
    using assms a o by (auto simp: main_def split: sum.splits)
  show ?thesis
    using that [OF _ o s refl] assms a o s by (auto simp: main_def Let_def split: sum.splits)
qed


definition session_doc :: jvalue where
  "session_doc = JObj [(''mountpoint'', JStr ''/m''), (''writelayer'', JStr ''/wl''),
     (''layers'', JArr [JObj [(''type'', JStr ''dir''), (''source'', JStr ''/low''), (''target'', JStr ''a'')]])]"

lemma session_doc_spec: "ParseSpec (demo_json session_doc) False ''spec.json'' = Inr demo_spec"
  by (simp add: ParseSpec_def parse_fields_def parse_layer_def parse_type_def demo_json_def session_doc_def field_def
      try_json_def demo_spec_def NormalizeVPath_id normal_def)

lemma session_pid: "stoll ''42'' = Some 42"
  by (simp add: stoll_def is_digit_def digits_value_def less_eq_char_def char_of_def bit_iff_odd Let_def)


section \<open>The watch\<close>

text \<open>One interrupted call of \<^verbatim>\<open>poll\<close>.\<close>

definition interrupts :: "'w watch_sys \<Rightarrow> fd \<Rightarrow> 'w \<Rightarrow> 'w \<Rightarrow> bool" where
  "interrupts Y fd w w' \<longleftrightarrow> (\<exists>r. r < 0 \<and> poll Y fd w = ((r, 4), w'))"

lemma poll_ends:
  assumes "\<And>v v'. interrupts Y fd v v' \<Longrightarrow> signals v' < signals v"
  shows "\<exists>v r e w'. (interrupts Y fd)\<^sup>*\<^sup>* w v \<and> poll Y fd v = ((r, e), w') \<and> (0 \<le> r \<or> e \<noteq> 4) \<and>
    (\<forall>n. signals w < n \<longrightarrow> poll_loop Y n fd w = Some w')"
proof (induction "signals w" arbitrary: w rule: less_induct)
  case less
  obtain r e w1 where p: "poll Y fd w = ((r, e), w1)" by (metis surj_pair)
  show ?case
  proof (cases "r < 0 \<and> e = 4")
    case True
    then have i: "interrupts Y fd w w1" using p by (auto simp: interrupts_def)
    from less.hyps [OF assms [OF i]] obtain v r' e' w' where v: "(interrupts Y fd)\<^sup>*\<^sup>* w1 v" "poll Y fd v = ((r', e'), w')"
      "0 \<le> r' \<or> e' \<noteq> 4" "\<forall>n. signals w1 < n \<longrightarrow> poll_loop Y n fd w1 = Some w'" by blast
    have "poll_loop Y n fd w = Some w'" if "signals w < n" for n
      using that v(4) p True assms [OF i] by (cases n) auto
    then show ?thesis using converse_rtranclp_into_rtranclp [of "interrupts Y fd", OF i v(1)] v(2,3) by blast
  next
    case False
    have "poll_loop Y n fd w = Some w1" if "signals w < n" for n
      using that p False by (cases n) auto
    then show ?thesis using p False by (meson linorder_not_le rtranclp.rtrancl_refl)
  qed
qed

text \<open>
  C36: the watch ends the mount. Suppose only finitely many signals interrupt \<^verbatim>\<open>poll\<close> on the process's
  descriptor, and when it does report the descriptor the process has exited. Then the watch repeats
  interrupted calls and no others and ends: it runs \<^verbatim>\<open>fusermount3 -u -z\<close> for the mount point once,
  waits for it, or logs the error when it could not be run. The process is gone then, unless \<^verbatim>\<open>poll\<close>
  itself failed with another error, on which the mount of a living process is taken down too.
\<close>

theorem watch_ends_the_mount:
  assumes "\<And>v v'. interrupts Y fd v v' \<Longrightarrow> signals v' < signals v"
    and "\<And>v r e v'. poll Y fd v = ((r, e), v') \<Longrightarrow> 0 \<le> r \<Longrightarrow> \<not> alive v'"
  shows "\<exists>v r e w' err pid w''. (interrupts Y fd)\<^sup>*\<^sup>* w v \<and> poll Y fd v = ((r, e), w') \<and>
    (\<not> alive w' \<or> r < 0 \<and> e \<noteq> 4) \<and>
    posix_spawnp Y [''fusermount3'', ''-u'', ''-z'', mp] w' = ((err, pid), w'') \<and>
    (\<forall>n. signals w < n \<longrightarrow>
      WatchSpawner Y n fd mp w = Some (if err = 0 then waitpid Y pid w'' else syslog Y mp err w''))"
proof -
  obtain v r e w' where v: "(interrupts Y fd)\<^sup>*\<^sup>* w v" "poll Y fd v = ((r, e), w')" "0 \<le> r \<or> e \<noteq> 4"
    "\<forall>n. signals w < n \<longrightarrow> poll_loop Y n fd w = Some w'"
    using poll_ends [of Y fd signals, OF assms(1)] by blast
  obtain err pid w'' where s: "posix_spawnp Y [''fusermount3'', ''-u'', ''-z'', mp] w' = ((err, pid), w'')"
    by (metis surj_pair)
  have "\<not> alive w' \<or> r < 0 \<and> e \<noteq> 4" using v(3) assms(2) [OF v(2)] by (cases "0 \<le> r") auto
  moreover have "WatchSpawner Y n fd mp w = Some (if err = 0 then waitpid Y pid w'' else syslog Y mp err w'')"
    if "signals w < n" for n
    using v(4) that s by (simp add: WatchSpawner_def unmount_def)
  ultimately show ?thesis using v(1,2) s by blast
qed

text \<open>
  The state is the number of signals and process time left and what was run and logged: a process that exits
  after two signals; and a poll that fails for want of memory, under a process that lives on.
\<close>

definition demo_sys :: "(nat \<times> string list list) watch_sys" where
  "demo_sys = \<lparr>poll = (\<lambda>fd w. if fst w > 1 then ((- 1, 4), (fst w - 1, snd w)) else ((1, 0), (0, snd w))),
     posix_spawnp = (\<lambda>argv w. ((0, 7), (fst w, snd w @ [argv]))),
     syslog = (\<lambda>mp e w. (fst w, snd w @ [[''log'', mp]])), waitpid = (\<lambda>pid w. w)\<rparr>"

definition demo_nomem :: "(nat \<times> string list list) watch_sys" where
  "demo_nomem = demo_sys\<lparr>poll := (\<lambda>fd w. ((- 1, 12), w)), posix_spawnp := (\<lambda>argv w. ((12, 0), w))\<rparr>"

theorem watch_ends_the_mount_witness:
  "WatchSpawner demo_sys 4 5 ''/m'' (3, []) = Some (0, [[''fusermount3'', ''-u'', ''-z'', ''/m'']]) \<and>
   WatchSpawner demo_nomem 4 5 ''/m'' (3, []) = Some (3, [[''log'', ''/m'']])"
proof -
  let ?w = "(3 :: nat, [] :: string list list)"
  have "\<exists>v r e w' err pid w''. (interrupts demo_sys 5)\<^sup>*\<^sup>* ?w v \<and> poll demo_sys 5 v = ((r, e), w') \<and>
    (\<not> 0 < fst w' \<or> r < 0 \<and> e \<noteq> 4) \<and>
    posix_spawnp demo_sys [''fusermount3'', ''-u'', ''-z'', ''/m''] w' = ((err, pid), w'') \<and>
    (\<forall>n. fst ?w < n \<longrightarrow> WatchSpawner demo_sys n 5 ''/m'' ?w =
      Some (if err = 0 then waitpid demo_sys pid w'' else syslog demo_sys ''/m'' err w''))"
    by (rule watch_ends_the_mount) (auto simp: demo_sys_def interrupts_def split: if_splits)
  then have 1: "WatchSpawner demo_sys 4 5 ''/m'' ?w \<noteq> None" by auto
  have "\<exists>v r e w' err pid w''. (interrupts demo_nomem 5)\<^sup>*\<^sup>* ?w v \<and> poll demo_nomem 5 v = ((r, e), w') \<and>
    (\<not> 0 < fst w' \<or> r < 0 \<and> e \<noteq> 4) \<and>
    posix_spawnp demo_nomem [''fusermount3'', ''-u'', ''-z'', ''/m''] w' = ((err, pid), w'') \<and>
    (\<forall>n. fst ?w < n \<longrightarrow> WatchSpawner demo_nomem n 5 ''/m'' ?w =
      Some (if err = 0 then waitpid demo_nomem pid w'' else syslog demo_nomem ''/m'' err w''))"
    by (rule watch_ends_the_mount) (auto simp: demo_nomem_def interrupts_def split: if_splits)
  then have "WatchSpawner demo_nomem 4 5 ''/m'' ?w \<noteq> None" by auto
  then show ?thesis using 1
    by (simp add: WatchSpawner_def unmount_def demo_sys_def demo_nomem_def eval_nat_numeral)
qed

end
