(* ===== verification/Spill.thy ===== *)
theory Spill
  imports Delta
begin

text \<open>
  Files below the byte sources: \<^verbatim>\<open>SpillFile\<close> of \<^verbatim>\<open>vgdelta.cpp\<close>, the scratch writer that
  forces its own writeback, and \<^verbatim>\<open>MmapByteSource::Map\<close> of \<^verbatim>\<open>bytesource.h\<close>, each in its POSIX
  and its Windows form. The system calls and the stream library are parameters.
\<close>

section \<open>The scratch writer\<close>

record 'w disk =
  dk_open :: "string \<Rightarrow> 'w \<Rightarrow> int \<times> 'w"
  dk_write :: "int \<Rightarrow> bytes \<Rightarrow> 'w \<Rightarrow> (int \<times> nat) \<times> 'w"
  dk_fdatasync :: "int \<Rightarrow> 'w \<Rightarrow> 'w"
  dk_fadvise :: "int \<Rightarrow> nat \<Rightarrow> 'w \<Rightarrow> 'w"
  dk_close :: "int \<Rightarrow> 'w \<Rightarrow> int \<times> 'w"

record spill_file =
  sf_fd :: int
  sf_synced :: nat
  sf_off :: nat

definition spill_new :: spill_file where
  "spill_new = \<lparr>sf_fd = - 1, sf_synced = 0, sf_off = 0\<rparr>"

definition FLUSH_EVERY :: nat where
  "FLUSH_EVERY = 67108864"

definition Spill_Open :: "'w disk \<Rightarrow> string \<Rightarrow> spill_file \<Rightarrow> 'w \<Rightarrow> bool \<times> spill_file \<times> 'w" where
  "Spill_Open D p s w = (case dk_open D p w of (fd, w) \<Rightarrow> (0 \<le> fd, s\<lparr>sf_fd := fd\<rparr>, w))"

definition Drain :: "'w disk \<Rightarrow> spill_file \<Rightarrow> 'w \<Rightarrow> spill_file \<times> 'w" where
  "Drain D s w =
     (let w = dk_fdatasync D (sf_fd s) w; w = dk_fadvise D (sf_fd s) (sf_off s) w
      in (s\<lparr>sf_synced := sf_off s\<rparr>, w))"

text \<open>The write loop; it is followed for \<open>k\<close> calls, and \<open>NoReturn\<close> says it was still running then.\<close>

fun spill_loop :: "'w disk \<Rightarrow> nat \<Rightarrow> bytes \<Rightarrow> spill_file \<Rightarrow> 'w \<Rightarrow> bool res \<times> spill_file \<times> 'w" where
  "spill_loop D k b s w =
     (if b = [] then (Inr True, s, w)
      else case k of
        0 \<Rightarrow> (Inl NoReturn, s, w)
      | Suc k \<Rightarrow>
          (case dk_write D (sf_fd s) b w of
             ((r, e), w) \<Rightarrow>
               if r < 0 then if e = 4 then spill_loop D k b s w else (Inr False, s, w)
               else if r = 0 then (Inr False, s, w)
               else spill_loop D k (drop (nat r) b) (s\<lparr>sf_off := u64 (sf_off s + nat r)\<rparr>) w))"

declare spill_loop.simps [simp del]

definition Spill_Write :: "'w disk \<Rightarrow> nat \<Rightarrow> bytes \<Rightarrow> spill_file \<Rightarrow> 'w \<Rightarrow> bool res \<times> spill_file \<times> 'w" where
  "Spill_Write D k b s w =
     (case spill_loop D k b s w of
        (Inr True, s, w) \<Rightarrow>
          (Inr True, if sub64 (sf_off s) (sf_synced s) \<ge> FLUSH_EVERY then Drain D s w else (s, w))
      | other \<Rightarrow> other)"

definition Spill_Close :: "'w disk \<Rightarrow> spill_file \<Rightarrow> 'w \<Rightarrow> bool \<times> spill_file \<times> 'w" where
  "Spill_Close D s w =
     (if sf_fd s < 0 then (False, s, w)
      else case Drain D s w of (s, w) \<Rightarrow>
        (case dk_close D (sf_fd s) w of (r, w) \<Rightarrow> (r = 0, s\<lparr>sf_fd := - 1\<rparr>, w)))"

definition Spill_Size :: "spill_file \<Rightarrow> nat" where
  "Spill_Size s = sf_off s"

text \<open>On Windows a buffered stream, whose calls tell whether the stream is good after them.\<close>

record 'w ostream =
  os_open :: "string \<Rightarrow> 'w \<Rightarrow> bool \<times> 'w"
  os_write :: "bytes \<Rightarrow> 'w \<Rightarrow> bool \<times> 'w"
  os_flush :: "'w \<Rightarrow> bool \<times> 'w"
  os_close :: "'w \<Rightarrow> 'w"

definition Spill_Open_win :: "'w ostream \<Rightarrow> string \<Rightarrow> spill_file \<Rightarrow> 'w \<Rightarrow> bool \<times> spill_file \<times> 'w" where
  "Spill_Open_win F p s w = (case os_open F p w of (good, w) \<Rightarrow> (good, s, w))"

definition Spill_Write_win :: "'w ostream \<Rightarrow> bytes \<Rightarrow> spill_file \<Rightarrow> 'w \<Rightarrow> bool \<times> spill_file \<times> 'w" where
  "Spill_Write_win F b s w =
     (case os_write F b w of (good, w) \<Rightarrow> (good, s\<lparr>sf_off := u64 (sf_off s + length b)\<rparr>, w))"

definition Spill_Close_win :: "'w ostream \<Rightarrow> spill_file \<Rightarrow> 'w \<Rightarrow> bool \<times> spill_file \<times> 'w" where
  "Spill_Close_win F s w = (case os_flush F w of (good, w) \<Rightarrow> (good, s, os_close F w))"

section \<open>Mapping a file\<close>

text \<open>
  \<open>mm_mmap fd n\<close> gives the \<open>n\<close> mapped bytes or fails; \<open>mm_fstat\<close> the return value and the size.
\<close>

record 'w mmap_sys =
  mm_open :: "string \<Rightarrow> 'w \<Rightarrow> int \<times> 'w"
  mm_fstat :: "int \<Rightarrow> 'w \<Rightarrow> int \<times> int"
  mm_mmap :: "int \<Rightarrow> nat \<Rightarrow> 'w \<Rightarrow> bytes option"

definition Map_posix :: "'w mmap_sys \<Rightarrow> string \<Rightarrow> 'w \<Rightarrow> source option \<times> 'w" where
  "Map_posix M path w =
     (case mm_open M path w of (fd, w) \<Rightarrow>
        (if fd < 0 then None
         else case mm_fstat M fd w of (r, sz) \<Rightarrow>
           if r \<noteq> 0 \<or> sz \<le> 0 then None else map_option MmapSource (mm_mmap M fd (nat sz) w), w))"

text \<open>
  \<^verbatim>\<open>std::ifstream\<close>: whether it opens, the position of its end (-1 on failure) and what a read of
  that many bytes gives.
\<close>

record ifstream =
  if_good :: bool
  if_end :: int
  if_read :: "nat \<Rightarrow> bytes"

definition Map_win :: "(string \<Rightarrow> ifstream) \<Rightarrow> string \<Rightarrow> source option" where
  "Map_win open_stream path =
     (let f = open_stream path in
      if \<not> if_good f then None
      else if if_end f < 0 then None
      else let d = if_read f (nat (if_end f))
           in if int (length d) \<noteq> if_end f then None else Some (MmapSource d))"

end
