(* ===== verification/SpillProps.thy ===== *)
theory SpillProps
  imports Spill
begin

text \<open>
  The scratch writer keeps every byte and never more than a window of them unsynced.
\<close>

text \<open>
  What the system promises of one open scratch file with content \<open>cont w\<close>: a write appends the
  bytes it counts, at most what it was given, a write that fails appends none, the other calls leave
  the content alone, and only finitely many signals (\<open>signals w\<close>) interrupt writes.
\<close>

definition appends :: "'w disk \<Rightarrow> ('w \<Rightarrow> bytes) \<Rightarrow> ('w \<Rightarrow> nat) \<Rightarrow> bool" where
  "appends D cont signals \<longleftrightarrow>
     (\<forall>fd b w r e w'. dk_write D fd b w = ((r, e), w') \<longrightarrow>
        r \<le> int (length b) \<and> cont w' = cont w @ take (nat r) b \<and> signals w' \<le> signals w \<and>
        (r < 0 \<and> e = 4 \<longrightarrow> signals w' < signals w)) \<and>
     (\<forall>fd w. cont (dk_fdatasync D fd w) = cont w \<and> signals (dk_fdatasync D fd w) \<le> signals w) \<and>
     (\<forall>fd n w. cont (dk_fadvise D fd n w) = cont w \<and> signals (dk_fadvise D fd n w) \<le> signals w)"

lemma appends_write:
  "appends D cont signals \<Longrightarrow> dk_write D fd b w = ((r, e), w') \<Longrightarrow>
    r \<le> int (length b) \<and> cont w' = cont w @ take (nat r) b \<and> signals w' \<le> signals w \<and>
    (r < 0 \<and> e = 4 \<longrightarrow> signals w' < signals w)"
  unfolding appends_def by blast

lemma appends_Drain:
  "appends D cont signals \<Longrightarrow> Drain D s w = (s', w') \<Longrightarrow>
    cont w' = cont w \<and> signals w' \<le> signals w \<and> s' = s\<lparr>sf_synced := sf_off s\<rparr>"
  unfolding appends_def Drain_def Let_def by (auto intro: order_trans [of _ "signals (dk_fdatasync D (sf_fd s) w)"])

lemma spill_loop_step [simp]:
  "spill_loop D k [] s w = (Inr True, s, w)"
  "spill_loop D (Suc k) (x # b) s w =
    (case dk_write D (sf_fd s) (x # b) w of ((r, e), w) \<Rightarrow>
       if r < 0 then if e = 4 then spill_loop D k (x # b) s w else (Inr False, s, w)
       else if r = 0 then (Inr False, s, w)
       else spill_loop D k (drop (nat r) (x # b)) (s\<lparr>sf_off := u64 (sf_off s + nat r)\<rparr>) w)"
  by (simp_all add: spill_loop.simps [of D k "[]"] spill_loop.simps [of D "Suc k" "x # b"])

lemma spill_loop_spec:
  assumes "appends D cont signals" and "sf_off s + length b < W64" and "signals w + length b \<le> k"
    and "spill_loop D k b s w = (r, s', w')"
  shows "(\<exists>ok. r = Inr ok) \<and> sf_synced s' = sf_synced s \<and> sf_fd s' = sf_fd s \<and> signals w' \<le> signals w \<and>
    (r = Inr True \<longrightarrow> cont w' = cont w @ b \<and> sf_off s' = sf_off s + length b)"
  using assms(2-)
proof (induction k arbitrary: b s w)
  case 0
  then show ?case by (auto simp: spill_loop.simps [of D 0])
next
  case (Suc k)
  show ?case
  proof (cases "b = []")
    case True
    then show ?thesis using Suc.prems(3) by (auto simp: spill_loop.simps [of D "Suc k"])
  next
    case False
    obtain n e w1 where c: "dk_write D (sf_fd s) b w = ((n, e), w1)" by (metis surj_pair)
    note a = appends_write [OF assms(1) c]
    consider (retry) "n < 0" "e = 4" | (fail) "n < 0" "e \<noteq> 4" | (none) "n = 0" | (some) "0 < n" by linarith
    then show ?thesis
    proof cases
      case retry
      then have l: "spill_loop D k b s w1 = (r, s', w')" using Suc.prems(3) False c by (simp add: spill_loop.simps [of D "Suc k"])
      have "cont w1 = cont w" "signals w1 < signals w" using a retry by simp_all
      then show ?thesis using Suc.IH [OF Suc.prems(1) _ l] Suc.prems(2) by auto
    next
      case some
      let ?s = "s\<lparr>sf_off := sf_off s + nat n\<rparr>"
      have n: "nat n \<le> length b" "0 < nat n" using a some by auto
      then have l: "spill_loop D k (drop (nat n) b) ?s w1 = (r, s', w')"
        using Suc.prems(1,3) False c some by (simp add: spill_loop.simps [of D "Suc k"])
      have "sf_off ?s + length (drop (nat n) b) < W64" "signals w1 + length (drop (nat n) b) \<le> k"
        using n a Suc.prems(1,2) by auto
      from Suc.IH [OF this l] show ?thesis using a n(1) by auto
    qed (use Suc.prems(3) False c a in \<open>auto simp: spill_loop.simps [of D "Suc k"]\<close>)
  qed
qed

lemma Spill_Write_spec:
  assumes "appends D cont signals" and "sf_off s + length b < W64" and "signals w + length b \<le> k"
    and "sf_synced s \<le> sf_off s" and "Spill_Write D k b s w = (r, s', w')"
  shows "(\<exists>ok. r = Inr ok) \<and> signals w' \<le> signals w \<and>
    (r = Inr True \<longrightarrow> cont w' = cont w @ b \<and> sf_off s' = sf_off s + length b \<and> sf_synced s' \<le> sf_off s' \<and>
      sf_off s' - sf_synced s' < FLUSH_EVERY)"
proof -
  obtain r1 s1 w1 where l: "spill_loop D k b s w = (r1, s1, w1)" by (metis surj_pair)
  note p = spill_loop_spec [OF assms(1-3) l]
  show ?thesis
  proof (cases "r1 = Inr True")
    case False
    then have "(r, s', w') = (r1, s1, w1)" using assms(5) l p by (auto simp: Spill_Write_def split: bool.splits)
    then show ?thesis using p False by auto
  next
    case True
    then have o: "sf_off s1 = sf_off s + length b" "sf_synced s1 = sf_synced s" "cont w1 = cont w @ b" using p by simp_all
    show ?thesis
    proof (cases "FLUSH_EVERY \<le> sf_off s1 - sf_synced s1")
      case d: True
      then have "r = Inr True" "Drain D s1 w1 = (s', w')"
        using assms(2,4,5) l True o by (auto simp: Spill_Write_def)
      then show ?thesis using appends_Drain [OF assms(1)] o p by (fastforce simp: FLUSH_EVERY_def)
    next
      case d: False
      then have "r = Inr True" "s' = s1" "w' = w1" using assms(2,4,5) l True o by (auto simp: Spill_Write_def)
      then show ?thesis using d o p assms(4) by auto
    qed
  qed
qed

section \<open>Properties\<close>

text \<open>Writes one after the other, until one fails.\<close>

fun spill_writes :: "'w disk \<Rightarrow> nat \<Rightarrow> bytes list \<Rightarrow> spill_file \<Rightarrow> 'w \<Rightarrow> bool res \<times> spill_file \<times> 'w" where
  "spill_writes D k [] s w = (Inr True, s, w)"
| "spill_writes D k (b # bs) s w =
     (case Spill_Write D k b s w of
        (Inr True, s, w) \<Rightarrow> spill_writes D k bs s w
      | other \<Rightarrow> other)"

text \<open>
  C38: the scratch writer loses nothing and lets no more than a window pile up. On a file system
  that appends what it counts, through short and interrupted writes, a run of writes returns, and
  when it reports success the file holds its old content and then every byte given, in order, the
  size is right and fewer than 64 MiB of it are unsynced.
\<close>

theorem spilled_bytes_are_kept:
  assumes "appends D cont signals" and "sf_off s + length (concat bs) < W64"
    and "signals w + length (concat bs) \<le> k"
    and "sf_synced s \<le> sf_off s" and "sf_off s - sf_synced s < FLUSH_EVERY"
    and "spill_writes D k bs s w = (r, s', w')"
  shows "(\<exists>ok. r = Inr ok) \<and>
    (r = Inr True \<longrightarrow> cont w' = cont w @ concat bs \<and> Spill_Size s' = Spill_Size s + length (concat bs) \<and>
      sf_off s' - sf_synced s' < FLUSH_EVERY)"
  using assms(2-)
proof (induction bs arbitrary: s w)
  case (Cons b bs)
  obtain r1 s1 w1 where o: "Spill_Write D k b s w = (r1, s1, w1)" by (metis surj_pair)
  have "sf_off s + length b < W64" "signals w + length b \<le> k" using Cons.prems(1,2) by simp_all
  note p = Spill_Write_spec [OF assms(1) this Cons.prems(3) o]
  show ?case
  proof (cases "r1 = Inr True")
    case True
    then have l: "spill_writes D k bs s1 w1 = (r, s', w')" using Cons.prems(5) o by simp
    have "sf_off s1 + length (concat bs) < W64" "signals w1 + length (concat bs) \<le> k" "sf_synced s1 \<le> sf_off s1"
      "sf_off s1 - sf_synced s1 < FLUSH_EVERY"
      using p True Cons.prems(1,2) by auto
    from Cons.IH [OF this l] show ?thesis using p True by (auto simp: Spill_Size_def)
  next
    case False
    then have "(r, s', w') = (r1, s1, w1)" using Cons.prems(5) o p by (auto split: bool.splits)
    then show ?thesis using p False by auto
  qed
qed (auto simp: Spill_Size_def)

text \<open>A disk that writes one byte at a time, and is interrupted before each of the first two.\<close>

definition demo_disk :: "(bytes \<times> nat) disk" where
  "demo_disk = \<lparr>dk_open = (\<lambda>p w. (5, w)),
     dk_write = (\<lambda>fd b w. if snd w > 0 then ((- 1, 4), (fst w, snd w - 1)) else
       (if b = [] then ((0, 0), w) else ((1, 0), (fst w @ take 1 b, snd w)))),
     dk_fdatasync = (\<lambda>fd w. w), dk_fadvise = (\<lambda>fd n w. w), dk_close = (\<lambda>fd w. (0, w))\<rparr>"

theorem spilled_bytes_are_kept_witness:
  "\<exists>s w. spill_writes demo_disk 5 [[1, 2], [3]] spill_new ([], 2) = (Inr True, s, w) \<and> fst w = [1, 2, 3] \<and> Spill_Size s = 3"
proof -
  have d: "appends demo_disk fst snd" by (auto simp: appends_def demo_disk_def Suc_le_eq split: if_splits)
  obtain r s w where r: "spill_writes demo_disk 5 [[1, 2], [3]] spill_new ([], 2) = (r, s, w)" by (metis surj_pair)
  have "fst (spill_writes demo_disk 5 [[1, 2], [3]] spill_new ([], 2)) = Inr True"
  proof -
    have five: "(5 :: nat) = Suc (Suc (Suc (Suc (Suc 0))))" by simp
    show ?thesis unfolding five
      by (simp add: Spill_Write_def demo_disk_def spill_new_def FLUSH_EVERY_def W64_def)
  qed
  then show ?thesis
    using spilled_bytes_are_kept [OF d _ _ _ _ r] r by (simp add: spill_new_def FLUSH_EVERY_def W64_def Spill_Size_def)
qed

end
