(* ===== verification/ZipSource.thy ===== *)
theory ZipSource
  imports DeltaCorrect
begin

text \<open>
  \<^verbatim>\<open>ZipSrcCb\<close> of \<^verbatim>\<open>ziplayer.cpp\<close>: the source object through which libzip reads an archive whose
  bytes are a byte source. libzip sends commands; the object keeps a position and an error. The
  computation of a seek's offset and the layout of the records it fills are libzip's and
  parameters.
\<close>

section \<open>The callback\<close>

text \<open>The two codes of a \<^verbatim>\<open>zip_error_t\<close>.\<close>

record zip_src_ud =
  ud_pos :: nat
  ud_err :: "nat \<times> nat"

datatype zip_cmd =
    SOURCE_OPEN
  | SOURCE_CLOSE
  | SOURCE_READ nat
  | SOURCE_SEEK bytes
  | SOURCE_TELL
  | SOURCE_STAT nat
  | SOURCE_ERROR
  | SOURCE_SUPPORTS
  | SOURCE_FREE
  | SOURCE_OTHER nat

text \<open>
  What the callback returns and writes to the data buffer: a number, the bytes read, the statistics
  (the size twice, stored uncompressed), the error codes, the list of supported commands.
\<close>

datatype zip_reply =
    Number int
  | ReadBytes bytes
  | StatReply nat nat
  | ErrorReply "nat \<times> nat"
  | Supports "zip_cmd list"
  | Freed

record zip_lib =
  seek_compute_offset :: "nat \<Rightarrow> nat \<Rightarrow> bytes \<Rightarrow> nat \<times> nat + nat"
  sizeof_zip_stat :: nat

definition ZIP_ER_READ :: nat where "ZIP_ER_READ = 5"
definition ZIP_ER_OPNOTSUPP :: nat where "ZIP_ER_OPNOTSUPP = 28"

fun ZipSrcCb :: "zip_lib \<Rightarrow> zstd \<Rightarrow> source \<Rightarrow> zip_src_ud \<Rightarrow> zip_cmd \<Rightarrow> zip_reply res \<times> zip_src_ud" where
  "ZipSrcCb L Z src ud SOURCE_OPEN = (Inr (Number 0), ud\<lparr>ud_pos := 0\<rparr>)"
| "ZipSrcCb L Z src ud SOURCE_CLOSE = (Inr (Number 0), ud)"
| "ZipSrcCb L Z src ud (SOURCE_READ len) =
     (case pread Z src len (ud_pos ud) of
        Inl NoReturn \<Rightarrow> (Inl NoReturn, ud)
      | Inl (Errno _) \<Rightarrow> (Inr (Number (- 1)), ud\<lparr>ud_err := (ZIP_ER_READ, 5)\<rparr>)
      | Inr b \<Rightarrow> (Inr (ReadBytes b), ud\<lparr>ud_pos := u64 (ud_pos ud + length b)\<rparr>))"
| "ZipSrcCb L Z src ud (SOURCE_SEEK args) =
     (case seek_compute_offset L (ud_pos ud) (src_size src) args of
        Inl e \<Rightarrow> (Inr (Number (- 1)), ud\<lparr>ud_err := e\<rparr>)
      | Inr off \<Rightarrow> (Inr (Number 0), ud\<lparr>ud_pos := off\<rparr>))"
| "ZipSrcCb L Z src ud SOURCE_TELL = (Inr (Number (int (ud_pos ud))), ud)"
| "ZipSrcCb L Z src ud (SOURCE_STAT len) =
     (Inr (if len < sizeof_zip_stat L then Number (- 1) else StatReply (src_size src) (src_size src)), ud)"
| "ZipSrcCb L Z src ud SOURCE_ERROR = (Inr (ErrorReply (ud_err ud)), ud)"
| "ZipSrcCb L Z src ud SOURCE_SUPPORTS =
     (Inr (Supports [SOURCE_OPEN, SOURCE_READ 0, SOURCE_CLOSE, SOURCE_STAT 0, SOURCE_SEEK [], SOURCE_TELL,
        SOURCE_SUPPORTS, SOURCE_ERROR, SOURCE_FREE]), ud)"
| "ZipSrcCb L Z src ud SOURCE_FREE = (Inr Freed, ud)"
| "ZipSrcCb L Z src ud (SOURCE_OTHER c) = (Inr (Number (- 1)), ud\<lparr>ud_err := (ZIP_ER_OPNOTSUPP, 0)\<rparr>)"

text \<open>A list of commands, answered one after the other.\<close>

fun zip_session :: "zip_lib \<Rightarrow> zstd \<Rightarrow> source \<Rightarrow> zip_src_ud \<Rightarrow> zip_cmd list \<Rightarrow> zip_reply res list \<times> zip_src_ud" where
  "zip_session L Z src ud [] = ([], ud)"
| "zip_session L Z src ud (c # cs) =
     (case ZipSrcCb L Z src ud c of (r, ud) \<Rightarrow>
        (case zip_session L Z src ud cs of (rs, ud) \<Rightarrow> (r # rs, ud)))"

section \<open>The abstract stream\<close>

text \<open>
  What libzip may rely on: a seekable stream over the content \<open>c\<close>. \<open>stream_step\<close> says which
  replies and next positions a command has there; a seek is good when the library's computation
  gives an offset, and then goes to it.
\<close>

fun stream_step :: "zip_lib \<Rightarrow> bytes \<Rightarrow> nat \<Rightarrow> zip_cmd \<Rightarrow> zip_reply res \<Rightarrow> nat \<Rightarrow> bool" where
  "stream_step L c pos SOURCE_OPEN r pos' \<longleftrightarrow> r = Inr (Number 0) \<and> pos' = 0"
| "stream_step L c pos (SOURCE_READ n) r pos' \<longleftrightarrow>
     (\<exists>k \<le> n. r = Inr (ReadBytes (clip c k pos)) \<and> pos' = pos + length (clip c k pos) \<and>
       (0 < n \<and> pos < length c \<longrightarrow> pos < pos'))"
| "stream_step L c pos (SOURCE_SEEK a) r pos' \<longleftrightarrow>
     (case seek_compute_offset L pos (length c) a of
        Inl e \<Rightarrow> r = Inr (Number (- 1)) \<and> pos' = pos
      | Inr off \<Rightarrow> r = Inr (Number 0) \<and> pos' = off)"
| "stream_step L c pos SOURCE_TELL r pos' \<longleftrightarrow> r = Inr (Number (int pos)) \<and> pos' = pos"
| "stream_step L c pos (SOURCE_STAT n) r pos' \<longleftrightarrow>
     r = Inr (if n < sizeof_zip_stat L then Number (- 1) else StatReply (length c) (length c)) \<and> pos' = pos"
| "stream_step L c pos cmd r pos' \<longleftrightarrow> pos' = pos \<and> r \<noteq> Inl NoReturn"

fun stream_steps :: "zip_lib \<Rightarrow> bytes \<Rightarrow> nat \<Rightarrow> zip_cmd list \<Rightarrow> zip_reply res list \<Rightarrow> bool" where
  "stream_steps L c pos [] rs \<longleftrightarrow> rs = []"
| "stream_steps L c pos (cmd # cmds) rs \<longleftrightarrow>
     (\<exists>r rs' pos'. rs = r # rs' \<and> stream_step L c pos cmd r pos' \<and> stream_steps L c pos' cmds rs')"

lemma clip_length_le: "off \<le> length c \<Longrightarrow> off + length (clip c k off) \<le> length c"
  by (simp add: clip_def)

lemma clip_beyond: "length c \<le> off \<Longrightarrow> clip c k off = []"
  by (simp add: clip_def)

lemma ZipSrcCb_step:
  assumes "holds Z src c" and "ud_pos ud \<le> length c"
    and "\<And>pos a off. seek_compute_offset L pos (length c) a = Inr off \<Longrightarrow> off \<le> length c"
    and "ZipSrcCb L Z src ud cmd = (r, ud')"
  shows "stream_step L c (ud_pos ud) cmd r (ud_pos ud') \<and> ud_pos ud' \<le> length c"
proof (cases cmd)
  case (SOURCE_READ n)
  have b: "byte_source (pread Z src) c" using holds_correct(1) [OF assms(1)] by simp
  then have s: "length c < W64" by (rule byte_source.bounded)
  obtain k where k: "k \<le> n" "pread Z src n (ud_pos ud) = Inr (clip c k (ud_pos ud))"
    "0 < n \<longrightarrow> ud_pos ud < length c \<longrightarrow> 0 < k"
    using byte_source.prefix_read [OF b, of "ud_pos ud" n] assms(2) s by auto
  have l: "ud_pos ud + length (clip c k (ud_pos ud)) \<le> length c" by (rule clip_length_le [OF assms(2)])
  then have "r = Inr (ReadBytes (clip c k (ud_pos ud)))" "ud_pos ud' = ud_pos ud + length (clip c k (ud_pos ud))"
    using assms(4) SOURCE_READ k(2) s by auto
  moreover have "0 < length (clip c k (ud_pos ud))" if "0 < n" "ud_pos ud < length c"
    using that k(3) by (simp add: clip_def)
  ultimately show ?thesis using l k(1) SOURCE_READ by auto
next
  case (SOURCE_SEEK a)
  have "src_size src = length c" using holds_correct(1) [OF assms(1)] by simp
  then show ?thesis using assms(2-4) SOURCE_SEEK by (auto split: sum.splits)
next
  case (SOURCE_STAT n)
  have "src_size src = length c" using holds_correct(1) [OF assms(1)] by simp
  then show ?thesis using assms(2,4) SOURCE_STAT by auto
qed (use assms(2,4) in auto)

section \<open>Properties\<close>

text \<open>
  C37: libzip sees the byte source as one seekable stream. Over any well-formed source, whatever
  commands libzip sends, the callback answers as the abstract stream over the source's content: a
  read gives a piece of the content at the position, non-empty before the end, and moves past it,
  a seek goes where the library computed, the statistics give the size, and every call returns.
\<close>

theorem zip_callback_is_a_stream:
  assumes "holds Z src c" and "ud_pos ud \<le> length c"
    and "\<And>pos a off. seek_compute_offset L pos (length c) a = Inr off \<Longrightarrow> off \<le> length c"
  shows "stream_steps L c (ud_pos ud) cmds (fst (zip_session L Z src ud cmds))"
  using assms(2)
proof (induction cmds arbitrary: ud)
  case (Cons cmd cmds)
  obtain r ud' where r: "ZipSrcCb L Z src ud cmd = (r, ud')" by fastforce
  have "stream_step L c (ud_pos ud) cmd r (ud_pos ud') \<and> ud_pos ud' \<le> length c"
    by (rule ZipSrcCb_step [OF assms(1) Cons.prems _ r]) (rule assms(3))
  then show ?case using Cons.IH [of ud'] r by (auto split: prod.split)
qed simp

text \<open>Seeks to the offset in the first argument byte, when it is inside.\<close>

definition demo_lib :: zip_lib where
  "demo_lib = \<lparr>seek_compute_offset = (\<lambda>pos n a. if a = [] \<or> unat (hd a) > n then Inl (18, 0) else Inr (unat (hd a))),
     sizeof_zip_stat = 64\<rparr>"

theorem zip_callback_is_a_stream_witness:
  "stream_steps demo_lib [7, 8, 9] 0 [SOURCE_OPEN, SOURCE_SEEK [1], SOURCE_READ 5]
    [Inr (Number 0), Inr (Number 0), Inr (ReadBytes [8, 9])]"
proof -
  have h: "holds frame_zstd (MemSource [7, 8, 9]) [7, 8, 9]" by (rule holds_mem) (simp add: W64_def)
  have "fst (zip_session demo_lib frame_zstd (MemSource [7, 8, 9]) \<lparr>ud_pos = 0, ud_err = (0, 0)\<rparr>
      [SOURCE_OPEN, SOURCE_SEEK [1], SOURCE_READ 5]) = [Inr (Number 0), Inr (Number 0), Inr (ReadBytes [8, 9])]"
    by (simp add: demo_lib_def mem_pread_def Let_def)
  moreover have "stream_steps demo_lib [7, 8, 9] (ud_pos \<lparr>ud_pos = 0, ud_err = (0, 0)\<rparr>) [SOURCE_OPEN, SOURCE_SEEK [1], SOURCE_READ 5]
      (fst (zip_session demo_lib frame_zstd (MemSource [7, 8, 9]) \<lparr>ud_pos = 0, ud_err = (0, 0)\<rparr>
      [SOURCE_OPEN, SOURCE_SEEK [1], SOURCE_READ 5]))"
    by (rule zip_callback_is_a_stream [OF h]) (auto simp: demo_lib_def split: if_splits)
  ultimately show ?thesis by simp
qed

end
