(* ===== verification/Locks.thy ===== *)
theory Locks
  imports Prelude "HOL-Library.Multiset"
begin

text \<open>
  The two locks of \<^verbatim>\<open>overlay.cpp\<close>, with the steps of several threads interleaved:
  \<^verbatim>\<open>maskWriteMtx\<close>, under which \<^verbatim>\<open>MutateMask\<close> clones, edits and swaps a mask, and the
  per-path lock of \<^verbatim>\<open>CopyUp\<close>. Everywhere else in the development a handler runs alone; here is
  what the locks add when handlers do not.
\<close>

section \<open>Updates of a mask\<close>

text \<open>
  \<^verbatim>\<open>CreateWhiteout\<close> inserts a name and \<^verbatim>\<open>RemoveWhiteout\<close> erases one, first on disk and then in the
  mask. A thread makes one call; its progress is the point it has reached.
\<close>

datatype mask_op =
    Hide string
  | Show string

fun on_mask :: "mask_op \<Rightarrow> string set \<Rightarrow> string set" where
  "on_mask (Hide v) m = insert v m"
| "on_mask (Show v) m = m - {v}"

datatype mask_at =
    OnDisk mask_op
  | Waiting mask_op
  | Inside mask_op
  | Cloned mask_op "string set"
  | Stored mask_op
  | Returned mask_op

record mask_state =
  ms_disk :: "string set"
  ms_mask :: "string set"
  ms_lock :: "nat option"
  ms_threads :: "mask_at list"
  ms_done :: "mask_op list"

text \<open>\<open>ms_done\<close> records the updates in the order of their stores.\<close>

definition mask_start :: "string set \<Rightarrow> mask_op list \<Rightarrow> mask_state" where
  "mask_start m ps = \<lparr>ms_disk = m, ms_mask = m, ms_lock = None, ms_threads = map OnDisk ps, ms_done = []\<rparr>"

definition at_thread :: "nat \<Rightarrow> mask_at \<Rightarrow> mask_state \<Rightarrow> mask_state" where
  "at_thread t a s = s\<lparr>ms_threads := (ms_threads s)[t := a]\<rparr>"

inductive mask_step :: "mask_state \<Rightarrow> mask_state \<Rightarrow> bool" where
  disk: "t < length (ms_threads s) \<Longrightarrow> ms_threads s ! t = OnDisk p \<Longrightarrow>
    mask_step s (at_thread t (Waiting p) (s\<lparr>ms_disk := on_mask p (ms_disk s)\<rparr>))"
| lock: "t < length (ms_threads s) \<Longrightarrow> ms_threads s ! t = Waiting p \<Longrightarrow> ms_lock s = None \<Longrightarrow>
    mask_step s (at_thread t (Inside p) (s\<lparr>ms_lock := Some t\<rparr>))"
| clone: "t < length (ms_threads s) \<Longrightarrow> ms_threads s ! t = Inside p \<Longrightarrow>
    mask_step s (at_thread t (Cloned p (on_mask p (ms_mask s))) s)"
| store: "t < length (ms_threads s) \<Longrightarrow> ms_threads s ! t = Cloned p m \<Longrightarrow>
    mask_step s (at_thread t (Stored p) (s\<lparr>ms_mask := m, ms_done := ms_done s @ [p]\<rparr>))"
| unlock: "t < length (ms_threads s) \<Longrightarrow> ms_threads s ! t = Stored p \<Longrightarrow>
    mask_step s (at_thread t (Returned p) (s\<lparr>ms_lock := None\<rparr>))"

fun critical :: "mask_at \<Rightarrow> bool" where
  "critical (Inside p) \<longleftrightarrow> True"
| "critical (Cloned p m) \<longleftrightarrow> True"
| "critical (Stored p) \<longleftrightarrow> True"
| "critical _ \<longleftrightarrow> False"

fun op_at :: "mask_at \<Rightarrow> mask_op" where
  "op_at (OnDisk p) = p"
| "op_at (Waiting p) = p"
| "op_at (Inside p) = p"
| "op_at (Cloned p m) = p"
| "op_at (Stored p) = p"
| "op_at (Returned p) = p"

fun stored :: "mask_at \<Rightarrow> bool" where
  "stored (Stored p) \<longleftrightarrow> True"
| "stored (Returned p) \<longleftrightarrow> True"
| "stored _ \<longleftrightarrow> False"

definition stored_ops :: "mask_at list \<Rightarrow> mask_op multiset" where
  "stored_ops ts = mset (map op_at (filter stored ts))"

definition mask_inv :: "string set \<Rightarrow> mask_op list \<Rightarrow> mask_state \<Rightarrow> bool" where
  "mask_inv m0 ps s \<longleftrightarrow>
     map op_at (ms_threads s) = ps \<and>
     ms_mask s = fold on_mask (ms_done s) m0 \<and>
     mset (ms_done s) = stored_ops (ms_threads s) \<and>
     (\<forall>t < length (ms_threads s). critical (ms_threads s ! t) \<longleftrightarrow> ms_lock s = Some t) \<and>
     (\<forall>t < length (ms_threads s). \<forall>p m. ms_threads s ! t = Cloned p m \<longrightarrow> m = on_mask p (ms_mask s))"

lemma mask_invD:
  assumes "mask_inv m0 ps s"
  shows "map op_at (ms_threads s) = ps" "ms_mask s = fold on_mask (ms_done s) m0"
    "mset (ms_done s) = stored_ops (ms_threads s)"
    "t < length (ms_threads s) \<Longrightarrow> critical (ms_threads s ! t) \<longleftrightarrow> ms_lock s = Some t"
    "t < length (ms_threads s) \<Longrightarrow> ms_threads s ! t = Cloned p m \<Longrightarrow> m = on_mask p (ms_mask s)"
  using assms unfolding mask_inv_def by blast+

lemma stored_ops_update:
  assumes "t < length xs" "op_at a = op_at (xs ! t)" "stored (xs ! t) \<longrightarrow> stored a"
  shows "stored_ops (xs[t := a]) =
    (if stored a \<and> \<not> stored (xs ! t) then add_mset (op_at a) (stored_ops xs) else stored_ops xs)"
proof -
  have "stored_ops (xs[t := a]) = stored_ops (take t xs @ a # drop (Suc t) xs)"
    using assms(1) by (simp only: upd_conv_take_nth_drop)
  moreover have "stored_ops xs = stored_ops (take t xs @ xs ! t # drop (Suc t) xs)"
    using assms(1) by (simp only: id_take_nth_drop [symmetric])
  ultimately show ?thesis using assms(2,3) by (simp add: stored_ops_def)
qed

lemma map_op_update: "t < length xs \<Longrightarrow> op_at a = op_at (xs ! t) \<Longrightarrow> map op_at (xs[t := a]) = map op_at xs"
  by (simp add: map_update list_update_same_conv)

lemma at_thread_simps [simp]:
  "ms_threads (at_thread t a s) = (ms_threads s)[t := a]" "ms_mask (at_thread t a s) = ms_mask s"
  "ms_done (at_thread t a s) = ms_done s" "ms_lock (at_thread t a s) = ms_lock s" "ms_disk (at_thread t a s) = ms_disk s"
  by (simp_all add: at_thread_def)

lemma mask_step_inv: "mask_step s s' \<Longrightarrow> mask_inv m0 ps s \<Longrightarrow> mask_inv m0 ps s'"
proof (induction rule: mask_step.induct)
  case (disk t s p)
  then show ?case
    by (auto simp: mask_inv_def map_op_update stored_ops_update nth_list_update split: if_splits)
next
  case (lock t s p)
  then show ?case
    by (auto simp: mask_inv_def map_op_update stored_ops_update nth_list_update split: if_splits)
next
  case (clone t s p)
  then show ?case
    by (auto simp: mask_inv_def map_op_update stored_ops_update nth_list_update split: if_splits)
next
  case (store t s p m)
  have l: "ms_lock s = Some t" and m: "m = on_mask p (ms_mask s)"
    using mask_invD(4,5) [OF store.prems, of t] store.hyps by auto
  have o: "u < length (ms_threads s) \<Longrightarrow> u \<noteq> t \<Longrightarrow> \<not> critical (ms_threads s ! u)" for u
    using mask_invD(4) [OF store.prems, of u] l by simp
  have f: "ms_mask s = fold on_mask (ms_done s) m0" "mset (ms_done s) = stored_ops (ms_threads s)"
    "map op_at (ms_threads s) = ps" using mask_invD [OF store.prems] by blast+
  let ?s = "at_thread t (Stored p) (s\<lparr>ms_mask := m, ms_done := ms_done s @ [p]\<rparr>)"
  show ?case unfolding mask_inv_def
  proof (intro conjI allI impI)
    fix u assume "u < length (ms_threads ?s)"
    then show "critical (ms_threads ?s ! u) =
        (ms_lock ?s = Some u)"
      using o [of u] l by (cases "u = t") auto
  next
    fix u q m' assume "u < length (ms_threads ?s)"
      "ms_threads ?s ! u = Cloned q m'"
    then show "m' = on_mask q (ms_mask ?s)"
      using o [of u] store.hyps by (cases "u = t") auto
  qed (use f m store.hyps in \<open>simp_all add: map_op_update stored_ops_update\<close>)
next
  case (unlock t s p)
  then show ?case
    by (auto simp: mask_inv_def map_op_update stored_ops_update nth_list_update split: if_splits)
qed

abbreviation mask_steps :: "mask_state \<Rightarrow> mask_state \<Rightarrow> bool" where
  "mask_steps \<equiv> mask_step\<^sup>*\<^sup>*"

lemma mask_then: "mask_steps a b \<Longrightarrow> mask_step b c \<Longrightarrow> mask_steps a c"
  by simp

lemma mask_steps_inv: "mask_steps s s' \<Longrightarrow> mask_inv m0 ps s \<Longrightarrow> mask_inv m0 ps s'"
  by (induction rule: rtranclp_induct) (auto intro: mask_step_inv)

lemma mask_start_inv: "mask_inv m ps (mask_start m ps)"
  by (auto simp: mask_inv_def mask_start_def comp_def stored_ops_def)

text \<open>One thread's whole critical section, and two threads that have both changed the disk.\<close>

lemma mask_call:
  assumes "t < length (ms_threads s)" "ms_threads s ! t = Waiting p" "ms_lock s = None"
  shows "mask_steps s (at_thread t (Returned p) (s\<lparr>ms_mask := on_mask p (ms_mask s), ms_done := ms_done s @ [p], ms_lock := None\<rparr>))"
proof -
  let ?a = "at_thread t (Inside p) (s\<lparr>ms_lock := Some t\<rparr>)"
  let ?b = "at_thread t (Cloned p (on_mask p (ms_mask ?a))) ?a"
  let ?c = "at_thread t (Stored p) (?b\<lparr>ms_mask := on_mask p (ms_mask ?a), ms_done := ms_done ?b @ [p]\<rparr>)"
  have st1: "mask_step s ?a" by (rule mask_step.lock [OF assms])
  have st2: "mask_step ?a ?b" by (rule mask_step.clone) (simp_all add: assms)
  have st3: "mask_step ?b ?c" by (rule mask_step.store) (simp_all add: assms)
  have st4: "mask_step ?c (at_thread t (Returned p) (?c\<lparr>ms_lock := None\<rparr>))"
    by (rule mask_step.unlock) (simp_all add: assms)
  have "mask_steps s (at_thread t (Returned p) (?c\<lparr>ms_lock := None\<rparr>))"
    by (intro mask_then [OF _ st4] mask_then [OF _ st3] mask_then [OF _ st2] mask_then [OF _ st1] rtranclp.rtrancl_refl)
  then show ?thesis by (simp add: at_thread_def)
qed

definition both_on_disk :: "string set \<Rightarrow> mask_op \<Rightarrow> mask_op \<Rightarrow> mask_state" where
  "both_on_disk m p q = \<lparr>ms_disk = on_mask q (on_mask p m), ms_mask = m, ms_lock = None,
     ms_threads = [Waiting p, Waiting q], ms_done = []\<rparr>"

lemma mask_both: "mask_steps (mask_start m [p, q]) (both_on_disk m p q)"
proof -
  have 1: "mask_step (mask_start m [p, q]) (at_thread 0 (Waiting p) ((mask_start m [p, q])\<lparr>ms_disk := on_mask p m\<rparr>))"
    using mask_step.disk [of 0 "mask_start m [p, q]" p] by (simp add: mask_start_def)
  have 2: "mask_step (at_thread 0 (Waiting p) ((mask_start m [p, q])\<lparr>ms_disk := on_mask p m\<rparr>)) (both_on_disk m p q)"
    using mask_step.disk [of 1 "at_thread 0 (Waiting p) ((mask_start m [p, q])\<lparr>ms_disk := on_mask p m\<rparr>)" q]
    by (simp add: mask_start_def both_on_disk_def at_thread_def)
  show ?thesis by (intro mask_then [OF _ 2] mask_then [OF _ 1] rtranclp.rtrancl_refl)
qed


section \<open>Copy-up\<close>

text \<open>
  Threads open one lower file for writing (\<^verbatim>\<open>VfsOpen\<close>): each resolves the path, copies the file up
  under the path's lock unless the writelayer has it, opens the copy by its path and then writes to or
  truncates what it opened. The host calls are the steps, and each may fail: the creation of the parent or the
  copy, a read or write of the copy, the removal of a copy that failed, and the open; a read gives at
  most a block. \<open>cs_file\<close> is the file at the path in the writelayer, a number for every file made, which
  an opener keeps when the path is unlinked; \<open>cs_created\<close> and \<open>cs_removed\<close> count the files made and
  unlinked, \<open>cs_log\<close> has the writes and truncations that returned, in order. \<open>cs_early\<close> says that some
  thread found the copy there, and so took no lock, before it was whole, \<open>cs_torn\<close> that a failed copy
  could not be removed.
\<close>

datatype opener =
    Resolving
  | ToLock
  | Holding
  | Copying nat nat
  | Removed
  | ToOpen
  | Opened nat
  | Failed

datatype file_op =
    Pwrite_at nat bytes
  | Cut nat

record copy_state =
  cs_file :: "nat option"
  cs_data :: "nat \<Rightarrow> bytes"
  cs_lock :: "nat option"
  cs_at :: "nat \<Rightarrow> opener"
  cs_created :: nat
  cs_removed :: nat
  cs_log :: "(nat \<times> file_op) list"
  cs_early :: bool
  cs_torn :: bool

definition copy_start :: copy_state where
  "copy_start = \<lparr>cs_file = None, cs_data = (\<lambda>i. []), cs_lock = None, cs_at = (\<lambda>t. Resolving), cs_created = 0,
     cs_removed = 0, cs_log = [], cs_early = False, cs_torn = False\<rparr>"

definition write_at :: "bytes \<Rightarrow> nat \<Rightarrow> bytes \<Rightarrow> bytes" where
  "write_at d off b = take off (d @ replicate (off - length d) 0) @ b @ drop (off + length b) d"

fun on_file :: "file_op \<Rightarrow> bytes \<Rightarrow> bytes" where
  "on_file (Pwrite_at off b) d = write_at d off b"
| "on_file (Cut n) d = take n (d @ replicate (n - length d) 0)"

definition goes_to :: "nat \<Rightarrow> opener \<Rightarrow> copy_state \<Rightarrow> copy_state" where
  "goes_to t a s = s\<lparr>cs_at := (cs_at s)(t := a)\<rparr>"

definition on_data :: "nat \<Rightarrow> (bytes \<Rightarrow> bytes) \<Rightarrow> copy_state \<Rightarrow> copy_state" where
  "on_data i f s = s\<lparr>cs_data := (cs_data s)(i := f (cs_data s i))\<rparr>"

text \<open>An operation on an open file that returned.\<close>

definition did :: "nat \<Rightarrow> nat \<Rightarrow> file_op \<Rightarrow> copy_state \<Rightarrow> copy_state" where
  "did t i f s = (on_data i (on_file f) s)\<lparr>cs_log := cs_log s @ [(t, f)]\<rparr>"

fun copying :: "opener \<Rightarrow> bool" where
  "copying (Copying i n) \<longleftrightarrow> True"
| "copying _ \<longleftrightarrow> False"

inductive copy_step :: "nat \<Rightarrow> bytes \<Rightarrow> copy_state \<Rightarrow> copy_state \<Rightarrow> bool" for blk src where
  lower: "cs_at s t = Resolving \<Longrightarrow> cs_file s = None \<Longrightarrow> copy_step blk src s (goes_to t ToLock s)"
| upper: "cs_at s t = Resolving \<Longrightarrow> cs_file s \<noteq> None \<Longrightarrow> e = (cs_early s \<or> (\<exists>u. copying (cs_at s u))) \<Longrightarrow>
    copy_step blk src s (goes_to t ToOpen (s\<lparr>cs_early := e\<rparr>))"
| lock: "cs_at s t = ToLock \<Longrightarrow> cs_lock s = None \<Longrightarrow>
    copy_step blk src s (goes_to t Holding (s\<lparr>cs_lock := Some t\<rparr>))"
| already: "cs_at s t = Holding \<Longrightarrow> cs_file s \<noteq> None \<Longrightarrow>
    copy_step blk src s (goes_to t ToOpen (s\<lparr>cs_lock := None\<rparr>))"
| uncreated: "cs_at s t = Holding \<Longrightarrow> cs_file s = None \<Longrightarrow>
    copy_step blk src s (goes_to t Failed (s\<lparr>cs_lock := None\<rparr>))"
| create: "cs_at s t = Holding \<Longrightarrow> cs_file s = None \<Longrightarrow> i = cs_created s \<Longrightarrow>
    copy_step blk src s (goes_to t (Copying i 0) (on_data i (\<lambda>d. []) (s\<lparr>cs_file := Some i, cs_created := i + 1\<rparr>)))"
| copy: "cs_at s t = Copying i n \<Longrightarrow> 0 < k \<Longrightarrow> k \<le> blk \<Longrightarrow> n + k \<le> length src \<Longrightarrow>
    copy_step blk src s (goes_to t (Copying i (n + k)) (on_data i (\<lambda>d. write_at d n (take k (drop n src))) s))"
| finish: "cs_at s t = Copying i (length src) \<Longrightarrow>
    copy_step blk src s (goes_to t ToOpen (s\<lparr>cs_lock := None\<rparr>))"
| remove: "cs_at s t = Copying i n \<Longrightarrow>
    copy_step blk src s (goes_to t Removed (s\<lparr>cs_file := None, cs_removed := cs_removed s + 1\<rparr>))"
| unremoved: "cs_at s t = Copying i n \<Longrightarrow> copy_step blk src s (goes_to t Removed (s\<lparr>cs_torn := True\<rparr>))"
| unlock: "cs_at s t = Removed \<Longrightarrow> copy_step blk src s (goes_to t Failed (s\<lparr>cs_lock := None\<rparr>))"
| open_file: "cs_at s t = ToOpen \<Longrightarrow> cs_file s = Some i \<Longrightarrow> copy_step blk src s (goes_to t (Opened i) s)"
| open_trunc: "cs_at s t = ToOpen \<Longrightarrow> cs_file s = Some i \<Longrightarrow> copy_step blk src s (goes_to t (Opened i) (did t i (Cut 0) s))"
| unopened: "cs_at s t = ToOpen \<Longrightarrow> copy_step blk src s (goes_to t Failed s)"
| change: "cs_at s t = Opened i \<Longrightarrow> copy_step blk src s (did t i f s)"

definition apply_ops :: "file_op list \<Rightarrow> bytes \<Rightarrow> bytes" where
  "apply_ops fs d = fold on_file fs d"

text \<open>Which points lie under the lock, and which past it with a copy to open or opened.\<close>

fun holds_lock :: "opener \<Rightarrow> bool" where
  "holds_lock Holding \<longleftrightarrow> True"
| "holds_lock (Copying i n) \<longleftrightarrow> True"
| "holds_lock Removed \<longleftrightarrow> True"
| "holds_lock _ \<longleftrightarrow> False"

fun past :: "opener \<Rightarrow> bool" where
  "past ToOpen \<longleftrightarrow> True"
| "past (Opened i) \<longleftrightarrow> True"
| "past _ \<longleftrightarrow> False"

definition clean :: "bytes \<Rightarrow> copy_state \<Rightarrow> bool" where
  "clean src s \<longleftrightarrow>
     (\<forall>t i n. cs_at s t = Copying i n \<longrightarrow> cs_data s i = take n src \<and> cs_log s = [] \<and> (\<forall>u. \<not> past (cs_at s u))) \<and>
     (cs_file s = None \<longrightarrow> cs_log s = [] \<and> (\<forall>u. \<not> past (cs_at s u))) \<and>
     (\<forall>i. cs_file s = Some i \<and> (\<forall>t. \<not> copying (cs_at s t)) \<longrightarrow>
        cs_data s i = apply_ops (map snd (cs_log s)) src \<and> (\<forall>u j. cs_at s u = Opened j \<longrightarrow> j = i))"

definition copy_inv :: "bytes \<Rightarrow> copy_state \<Rightarrow> bool" where
  "copy_inv src s \<longleftrightarrow>
     (\<forall>t. holds_lock (cs_at s t) \<longleftrightarrow> cs_lock s = Some t) \<and>
     cs_created s = cs_removed s + (if cs_file s = None then 0 else 1) \<and>
     (\<forall>t i n. cs_at s t = Copying i n \<longrightarrow> cs_file s = Some i \<and> n \<le> length src) \<and>
     (\<not> cs_early s \<and> \<not> cs_torn s \<longrightarrow> clean src s)"

lemma goes_to_simps [simp]:
  "cs_at (goes_to t a s) = (cs_at s)(t := a)" "cs_file (goes_to t a s) = cs_file s" "cs_data (goes_to t a s) = cs_data s"
  "cs_lock (goes_to t a s) = cs_lock s" "cs_created (goes_to t a s) = cs_created s" "cs_removed (goes_to t a s) = cs_removed s"
  "cs_log (goes_to t a s) = cs_log s" "cs_early (goes_to t a s) = cs_early s" "cs_torn (goes_to t a s) = cs_torn s"
  by (simp_all add: goes_to_def)

lemma on_data_simps [simp]:
  "cs_at (on_data i g s) = cs_at s" "cs_file (on_data i g s) = cs_file s"
  "cs_data (on_data i g s) = (cs_data s)(i := g (cs_data s i))" "cs_lock (on_data i g s) = cs_lock s"
  "cs_created (on_data i g s) = cs_created s" "cs_removed (on_data i g s) = cs_removed s" "cs_log (on_data i g s) = cs_log s"
  "cs_early (on_data i g s) = cs_early s" "cs_torn (on_data i g s) = cs_torn s"
  by (simp_all add: on_data_def)

lemma did_simps [simp]:
  "cs_at (did t i f s) = cs_at s" "cs_file (did t i f s) = cs_file s"
  "cs_data (did t i f s) = (cs_data s)(i := on_file f (cs_data s i))" "cs_lock (did t i f s) = cs_lock s"
  "cs_created (did t i f s) = cs_created s" "cs_removed (did t i f s) = cs_removed s" "cs_log (did t i f s) = cs_log s @ [(t, f)]"
  "cs_early (did t i f s) = cs_early s" "cs_torn (did t i f s) = cs_torn s"
  by (simp_all add: did_def)

lemma write_at_next: "n + k \<le> length src \<Longrightarrow> write_at (take n src) n (take k (drop n src)) = take (n + k) src"
  by (simp add: write_at_def take_add)

lemma apply_ops_simps [simp]: "apply_ops [] d = d" "apply_ops (fs @ [f]) d = on_file f (apply_ops fs d)"
  by (simp_all add: apply_ops_def)

lemma copy_start_inv: "copy_inv src copy_start"
  by (simp add: copy_inv_def clean_def copy_start_def)

lemma copying_iff: "copying a \<longleftrightarrow> (\<exists>i n. a = Copying i n)"
  by (cases a) simp_all

lemma copying_holds: "copying a \<Longrightarrow> holds_lock a"
  by (cases a) simp_all

lemma copy_invD:
  assumes "copy_inv src s"
  shows "holds_lock (cs_at s t) \<longleftrightarrow> cs_lock s = Some t" "cs_created s = cs_removed s + (if cs_file s = None then 0 else 1)"
    "cs_at s t = Copying i n \<Longrightarrow> cs_file s = Some i \<and> n \<le> length src" "\<not> cs_early s \<Longrightarrow> \<not> cs_torn s \<Longrightarrow> clean src s"
  using assms unfolding copy_inv_def by blast+

lemma cleanD:
  assumes "clean src s"
  shows "cs_at s t = Copying i n \<Longrightarrow> cs_data s i = take n src \<and> cs_log s = []"
    "cs_at s t = Copying i n \<Longrightarrow> \<not> past (cs_at s u)" "cs_file s = None \<Longrightarrow> cs_log s = []"
    "cs_file s = None \<Longrightarrow> \<not> past (cs_at s u)"
    "cs_file s = Some i \<Longrightarrow> (\<And>t. \<not> copying (cs_at s t)) \<Longrightarrow> cs_data s i = apply_ops (map snd (cs_log s)) src"
    "cs_file s = Some i \<Longrightarrow> (\<And>t. \<not> copying (cs_at s t)) \<Longrightarrow> cs_at s u = Opened j \<Longrightarrow> j = i"
  using assms unfolding clean_def by blast+

text \<open>The owner of the lock is the only thread under it.\<close>

lemma sole_owner:
  assumes "copy_inv src s" "holds_lock (cs_at s t)" "u \<noteq> t"
  shows "\<not> holds_lock (cs_at s u)" "\<not> copying (cs_at s u)"
proof -
  show h: "\<not> holds_lock (cs_at s u)" using copy_invD(1) [OF assms(1)] assms(2,3) by (metis option.inject)
  then show "\<not> copying (cs_at s u)" using copying_holds by blast
qed

text \<open>Whoever is under the lock owns it.\<close>

definition owns :: "(nat \<Rightarrow> opener) \<Rightarrow> nat option \<Rightarrow> bool" where
  "owns f l \<longleftrightarrow> (\<forall>v. holds_lock (f v) \<longleftrightarrow> l = Some v)"

lemma owns_kept: "owns f l \<Longrightarrow> holds_lock (f t) = holds_lock a \<Longrightarrow> owns (f(t := a)) l"
  by (simp add: owns_def)

lemma owns_lock: "owns f l \<Longrightarrow> holds_lock (f t) \<Longrightarrow> l = Some t"
  by (simp add: owns_def)

lemma step_lock: "copy_step blk src s s' \<Longrightarrow> owns (cs_at s) (cs_lock s) \<Longrightarrow> owns (cs_at s') (cs_lock s')"
proof (induction rule: copy_step.induct)
  case (lock s t)
  then show ?case by (auto simp: owns_def)
next
  case (already s t)
  then show ?case using owns_lock [of "cs_at s" "cs_lock s" t] by (auto simp: owns_def)
next
  case (uncreated s t)
  then show ?case using owns_lock [of "cs_at s" "cs_lock s" t] by (auto simp: owns_def)
next
  case (finish s t i)
  then show ?case using owns_lock [of "cs_at s" "cs_lock s" t] by (auto simp: owns_def)
next
  case (unlock s t)
  then show ?case using owns_lock [of "cs_at s" "cs_lock s" t] by (auto simp: owns_def)
qed (simp_all add: owns_kept)

lemma step_count: "copy_step blk src s s' \<Longrightarrow> copy_inv src s \<Longrightarrow>
    cs_created s' = cs_removed s' + (if cs_file s' = None then 0 else 1)"
proof (induction rule: copy_step.induct)
  case (remove s t i n)
  then show ?case using copy_invD(2) [OF remove.prems] copy_invD(3) [OF remove.prems remove.hyps] by simp
next
  case (create s t i)
  then show ?case using copy_invD(2) [OF create.prems] by simp
qed (use copy_invD(2) in \<open>auto simp: copy_invD(2)\<close>)

lemma step_copying:
  "copy_step blk src s s' \<Longrightarrow> copy_inv src s \<Longrightarrow> cs_at s' u = Copying j m \<Longrightarrow> cs_file s' = Some j \<and> m \<le> length src"
proof (induction rule: copy_step.induct)
  case (create s t i)
  have h: "holds_lock (cs_at s t)" using create.hyps by simp
  have "u = t" using create.prems sole_owner(2) [OF create.prems(1) h, of u] by (cases "u = t") auto
  then show ?case using create.prems by simp
next
  case (remove s t i n)
  have h: "holds_lock (cs_at s t)" using remove.hyps by simp
  show ?case using remove.prems sole_owner(2) [OF remove.prems(1) h, of u] by (cases "u = t") auto
next
  case (copy s t i n k)
  then show ?case using copy_invD(3) [OF copy.prems(1), of u j m] copy_invD(3) [OF copy.prems(1) copy.hyps(1)]
    by (cases "u = t") auto
qed (auto dest: copy_invD(3) split: if_splits)


text \<open>A step that is no part of a copy, and the fields that do not matter.\<close>

lemma clean_fields [simp]:
  "clean src (s\<lparr>cs_early := e\<rparr>) = clean src s" "clean src (s\<lparr>cs_lock := l\<rparr>) = clean src s"
  by (simp_all add: clean_def)

lemma clean_goes:
  assumes c: "clean src s" and n: "\<not> copying (cs_at s t)" "\<not> copying a"
    and p: "past a \<Longrightarrow> past (cs_at s t) \<or> (cs_file s \<noteq> None \<and> (\<forall>v. \<not> copying (cs_at s v)))"
    and o: "\<And>j. a = Opened j \<Longrightarrow> cs_file s = Some j"
  shows "clean src (goes_to t a s)"
proof -
  have at: "cs_at (goes_to t a s) u = Copying i m \<longleftrightarrow> cs_at s u = Copying i m" for u i m
    using n by (auto simp: copying_iff)
  have nc: "(\<forall>v. \<not> copying (cs_at (goes_to t a s) v)) \<longleftrightarrow> (\<forall>v. \<not> copying (cs_at s v))"
    unfolding copying_iff at ..
  have np: "\<not> past (cs_at (goes_to t a s) u)" if "\<And>v. \<not> past (cs_at s v)" "cs_file s = None \<or> (\<exists>v. copying (cs_at s v))" for u
    using that p by auto
  show ?thesis unfolding clean_def nc
  proof (intro conjI allI impI)
    fix u i m assume "cs_at (goes_to t a s) u = Copying i m"
    then have u: "cs_at s u = Copying i m" using at by blast
    show "cs_data (goes_to t a s) i = take m src" "cs_log (goes_to t a s) = []" using cleanD(1) [OF c u] by simp_all
    show "\<not> past (cs_at (goes_to t a s) v)" for v
      by (rule np) (use cleanD(2) [OF c u] u copying.simps(1) in metis)+
  next
    assume "cs_file (goes_to t a s) = None"
    then have f: "cs_file s = None" by simp
    then show "cs_log (goes_to t a s) = []" using cleanD(3) [OF c] by simp
    show "\<not> past (cs_at (goes_to t a s) v)" for v by (rule np) (use cleanD(4) [OF c] f in auto)
  next
    fix i assume "cs_file (goes_to t a s) = Some i \<and> (\<forall>v. \<not> copying (cs_at s v))"
    then have f: "cs_file s = Some i" "\<And>v. \<not> copying (cs_at s v)" by simp_all
    show "cs_data (goes_to t a s) i = apply_ops (map snd (cs_log (goes_to t a s))) src" using cleanD(5) [OF c f] by simp
    show "j = i" if "cs_at (goes_to t a s) u = Opened j" for u j
      using that o [of j] f(1) cleanD(6) [OF c f, of u j] by (cases "u = t") auto
  qed
qed

text \<open>The three ways a state is clean: one copy under way, no file, a file at rest.\<close>

lemma clean_copying:
  assumes "cs_at s t = Copying i m" "cs_file s = Some i" "cs_data s i = take m src" "cs_log s = []"
    and "\<And>u. u \<noteq> t \<Longrightarrow> \<not> copying (cs_at s u)" "\<And>u. \<not> past (cs_at s u)"
  shows "clean src s"
proof -
  have "u = t \<and> j = i \<and> k = m" if "cs_at s u = Copying j k" for u j k
    using that assms(1) assms(5) [of u] by (cases "u = t") auto
  moreover have "copying (cs_at s t)" using assms(1) by simp
  ultimately show ?thesis using assms(2-4,6) unfolding clean_def by auto
qed

lemma clean_none:
  assumes "cs_file s = None" "cs_log s = []" "\<And>u. \<not> copying (cs_at s u)" "\<And>u. \<not> past (cs_at s u)"
  shows "clean src s"
  using assms unfolding clean_def copying_iff by simp

lemma clean_rest:
  assumes "cs_file s = Some i" "cs_data s i = apply_ops (map snd (cs_log s)) src" "\<And>u. \<not> copying (cs_at s u)"
    and "\<And>u j. cs_at s u = Opened j \<Longrightarrow> j = i"
  shows "clean src s"
  using assms unfolding clean_def copying_iff by simp

lemma at_rest:
  assumes "clean src s" "past (cs_at s t)"
  shows "\<not> copying (cs_at s u)" "cs_file s \<noteq> None"
  using cleanD(2,4) [OF assms(1)] assms(2) unfolding copying_iff by blast+

lemma step_clean:
  assumes "copy_step blk src s s'" "copy_inv src s" "\<not> cs_early s'" "\<not> cs_torn s'"
  shows "clean src s'"
  using assms
proof (induction rule: copy_step.induct)
  case (lower s t)
  then show ?case by (intro clean_goes) (simp_all add: copy_invD(4))
next
  case (upper s t e)
  then show ?case by (intro clean_goes) (auto simp: copy_invD(4))
next
  case (lock s t)
  then show ?case by (intro clean_goes) (simp_all add: copy_invD(4))
next
  case (already s t)
  have "\<forall>v. \<not> copying (cs_at s v)" using sole_owner(2) [OF already.prems(1), of t] already.hyps by (metis holds_lock.simps(1) copying.simps(4))
  then show ?case using already by (intro clean_goes) (simp_all add: copy_invD(4))
next
  case (uncreated s t)
  then show ?case by (intro clean_goes) (simp_all add: copy_invD(4))
next
  case (create s t i)
  let ?s = "goes_to t (Copying i 0) (on_data i (\<lambda>d. []) (s\<lparr>cs_file := Some i, cs_created := i + 1\<rparr>))"
  have c: "clean src s" using copy_invD(4) [OF create.prems(1)] create.prems by simp
  have h: "holds_lock (cs_at s t)" using create.hyps by simp
  show ?case
  proof (rule clean_copying [of ?s t i 0])
    show "\<not> copying (cs_at ?s u)" if "u \<noteq> t" for u using sole_owner(2) [OF create.prems(1) h that] that by simp
    show "\<not> past (cs_at ?s u)" for u using cleanD(4) [OF c create.hyps(2), of u] by simp
  qed (use cleanD(3) [OF c create.hyps(2)] in simp_all)
next
  case (copy s t i n k)
  let ?s = "goes_to t (Copying i (n + k)) (on_data i (\<lambda>d. write_at d n (take k (drop n src))) s)"
  have c: "clean src s" using copy_invD(4) [OF copy.prems(1)] copy.prems by simp
  have h: "holds_lock (cs_at s t)" using copy.hyps by simp
  show ?case
  proof (rule clean_copying [of ?s t i "n + k"])
    show "\<not> copying (cs_at ?s u)" if "u \<noteq> t" for u using sole_owner(2) [OF copy.prems(1) h that] that by simp
    show "\<not> past (cs_at ?s u)" for u using cleanD(2) [OF c copy.hyps(1), of u] by simp
  qed (use cleanD(1) [OF c copy.hyps(1)] copy_invD(3) [OF copy.prems(1) copy.hyps(1)] copy.hyps(4) in \<open>simp_all add: write_at_next\<close>)
next
  case (finish s t i)
  let ?s = "goes_to t ToOpen (s\<lparr>cs_lock := None\<rparr>)"
  have c: "clean src s" using copy_invD(4) [OF finish.prems(1)] finish.prems by simp
  have h: "holds_lock (cs_at s t)" using finish.hyps by simp
  show ?case
  proof (rule clean_rest [of ?s i])
    show "\<not> copying (cs_at ?s u)" for u using sole_owner(2) [OF finish.prems(1) h, of u] by simp
    show "j = i" if "cs_at ?s u = Opened j" for u j
      using that cleanD(2) [OF c finish.hyps, of u] by (simp split: if_splits)
  qed (use cleanD(1) [OF c finish.hyps] copy_invD(3) [OF finish.prems(1) finish.hyps] in simp_all)
next
  case (remove s t i n)
  let ?s = "goes_to t Removed (s\<lparr>cs_file := None, cs_removed := cs_removed s + 1\<rparr>)"
  have c: "clean src s" using copy_invD(4) [OF remove.prems(1)] remove.prems by simp
  have h: "holds_lock (cs_at s t)" using remove.hyps by simp
  show ?case
  proof (rule clean_none [of ?s])
    show "\<not> copying (cs_at ?s u)" for u using sole_owner(2) [OF remove.prems(1) h, of u] by simp
    show "\<not> past (cs_at ?s u)" for u using cleanD(2) [OF c remove.hyps, of u] by simp
  qed (use cleanD(1) [OF c remove.hyps] in simp_all)
next
  case (unremoved s t i n)
  then show ?case by simp
next
  case (unlock s t)
  then show ?case by (intro clean_goes) (simp_all add: copy_invD(4))
next
  case (open_file s t i)
  then show ?case by (intro clean_goes) (simp_all add: copy_invD(4))
next
  case (open_trunc s t i)
  let ?s = "goes_to t (Opened i) (did t i (Cut 0) s)"
  have c: "clean src s" using copy_invD(4) [OF open_trunc.prems(1)] open_trunc.prems by simp
  have n: "\<And>u. \<not> copying (cs_at s u)" using at_rest(1) [OF c, of t] open_trunc.hyps(1) by simp
  show ?case
  proof (rule clean_rest [of ?s i])
    show "j = i" if "cs_at ?s u = Opened j" for u j
      using that cleanD(6) [OF c open_trunc.hyps(2) n, of u j] by (simp split: if_splits)
  qed (use n cleanD(5) [OF c open_trunc.hyps(2) n] open_trunc.hyps(2) in simp_all)
next
  case (unopened s t)
  then show ?case by (intro clean_goes) (simp_all add: copy_invD(4))
next
  case (change s t i f)
  have c: "clean src s" using copy_invD(4) [OF change.prems(1)] change.prems by simp
  have n: "\<And>u. \<not> copying (cs_at s u)" using at_rest(1) [OF c, of t] change.hyps by simp
  obtain j where j: "cs_file s = Some j" using at_rest(2) [OF c, of t] change.hyps by auto
  have i: "i = j" using cleanD(6) [OF c j n change.hyps] .
  show ?case
  proof (rule clean_rest [of _ i])
    show "k = i" if "cs_at (did t i f s) u = Opened k" for u k using that cleanD(6) [OF c j n, of u k] i by simp
  qed (use n cleanD(5) [OF c j n] j i in simp_all)
qed


lemma copy_step_inv: "copy_step blk src s s' \<Longrightarrow> copy_inv src s \<Longrightarrow> copy_inv src s'"
  using step_lock [of blk src s s'] step_count [of blk src s s'] step_copying [of blk src s s'] step_clean [of blk src s s']
  unfolding copy_inv_def [of src s'] by (simp add: owns_def copy_invD(1))

abbreviation copy_steps :: "nat \<Rightarrow> bytes \<Rightarrow> copy_state \<Rightarrow> copy_state \<Rightarrow> bool" where
  "copy_steps blk src \<equiv> (copy_step blk src)\<^sup>*\<^sup>*"

lemma copy_then: "copy_steps blk src a b \<Longrightarrow> copy_step blk src b c \<Longrightarrow> copy_steps blk src a c"
  by simp

lemma copy_steps_inv: "copy_steps blk src s s' \<Longrightarrow> copy_inv src s \<Longrightarrow> copy_inv src s'"
  by (induction rule: rtranclp_induct) (auto intro: copy_step_inv)

text \<open>A whole copy stays: nothing removes it or makes it again.\<close>

lemma rest_step:
  "copy_step blk src s s' \<Longrightarrow> cs_file s = Some i \<Longrightarrow> \<forall>v. \<not> copying (cs_at s v) \<Longrightarrow>
   cs_file s' = Some i \<and> cs_created s' = cs_created s \<and> (\<forall>v. \<not> copying (cs_at s' v))"
proof (induction rule: copy_step.induct)
  case (copy s t i n k)
  then show ?case by (metis copying.simps(1))
next
  case (remove s t i n)
  then show ?case by (metis copying.simps(1))
next
  case (unremoved s t i n)
  then show ?case by (metis copying.simps(1))
next
  case (finish s t i)
  then show ?case by (metis copying.simps(1))
qed simp_all

lemma rest_steps:
  "copy_steps blk src s s' \<Longrightarrow> cs_file s = Some i \<Longrightarrow> \<forall>v. \<not> copying (cs_at s v) \<Longrightarrow>
   cs_file s' = Some i \<and> cs_created s' = cs_created s \<and> (\<forall>v. \<not> copying (cs_at s' v))"
proof (induction rule: rtranclp_induct)
  case (step a b)
  then show ?case using rest_step [OF step.hyps(2), of i] by simp
qed simp

section \<open>Properties\<close>

text \<open>
  C40: no update of a mask is lost. Whatever the interleaving of calls that hide and show names, at
  any time: the updates stored so far are, each exactly once, those of the calls that have stored
  or returned; the mask is what they make of the old one, one after the other; and at most one
  thread is between the lock's acquisition and its release. So when all calls have returned each has
  been stored exactly once.
\<close>

theorem mask_updates_are_never_lost:
  assumes "mask_steps (mask_start m ps) s"
  shows "map op_at (ms_threads s) = ps \<and> mset (ms_done s) = mset (map op_at (filter stored (ms_threads s))) \<and>
    ms_mask s = fold on_mask (ms_done s) m \<and>
    (\<forall>t u. t < length ps \<and> u < length ps \<and> critical (ms_threads s ! t) \<and> critical (ms_threads s ! u) \<longrightarrow> t = u) \<and>
    (list_all stored (ms_threads s) \<longrightarrow> mset (ms_done s) = mset ps)"
proof -
  have i: "mask_inv m ps s" by (rule mask_steps_inv [OF assms mask_start_inv])
  have l: "length (ms_threads s) = length ps" using mask_invD(1) [OF i] by (metis length_map)
  have d: "mset (ms_done s) = mset (map op_at (filter stored (ms_threads s)))"
    using mask_invD(3) [OF i] by (simp only: stored_ops_def)
  have "list_all stored (ms_threads s) \<longrightarrow> mset (ms_done s) = mset ps"
  proof
    assume "list_all stored (ms_threads s)"
    then have "filter stored (ms_threads s) = ms_threads s" by (simp add: filter_id_conv list_all_iff)
    then show "mset (ms_done s) = mset ps" using mask_invD(1) [OF i] d by (simp only:)
  qed
  moreover have "t = u" if "t < length ps" "u < length ps" "critical (ms_threads s ! t)" "critical (ms_threads s ! u)" for t u
    using mask_invD(4) [OF i, of t] mask_invD(4) [OF i, of u] that l by simp
  ultimately show ?thesis using mask_invD(1,2) [OF i] d by blast
qed

text \<open>Two calls, the second overtaking the first after both have changed the disk.\<close>

lemma mask_run:
  "mask_steps (mask_start {} [Hide ''a'', Hide ''b''])
     \<lparr>ms_disk = {''a'', ''b''}, ms_mask = {''b''}, ms_lock = None,
      ms_threads = [Waiting (Hide ''a''), Returned (Hide ''b'')], ms_done = [Hide ''b'']\<rparr>"
  using mask_call [of 1 "both_on_disk {} (Hide ''a'') (Hide ''b'')" "Hide ''b''"] mask_both [of "{}" "Hide ''a''" "Hide ''b''"]
  by (simp add: both_on_disk_def at_thread_def insert_commute)

text \<open>
  The lock orders the masks but not the disk: when a name is hidden and shown at once, the marker on
  disk and the mask can end differently, and the next mount seeds its mask from the disk.
\<close>

lemma disk_and_mask_can_disagree:
  "\<exists>s. mask_steps (mask_start {} [Hide v, Show v]) s \<and> list_all stored (ms_threads s) \<and>
     v \<in> ms_mask s \<and> v \<notin> ms_disk s"
proof -
  let ?s = "both_on_disk {} (Hide v) (Show v)"
  let ?m = "?s\<lparr>ms_threads := [Waiting (Hide v), Returned (Show v)], ms_done := [Show v]\<rparr>"
  let ?e = "?s\<lparr>ms_threads := [Returned (Hide v), Returned (Show v)], ms_mask := {v}, ms_done := [Show v, Hide v]\<rparr>"
  have st1: "mask_steps ?s ?m"
    using mask_call [of 1 ?s "Show v"] by (simp add: both_on_disk_def at_thread_def)
  have st2: "mask_steps ?m ?e"
    using mask_call [of 0 ?m "Hide v"] by (simp add: both_on_disk_def at_thread_def)
  have "mask_steps (mask_start {} [Hide v, Show v]) ?e"
    by (rule rtranclp_trans [OF rtranclp_trans [OF mask_both st1] st2])
  then show ?thesis by (intro exI [of _ ?e]) (simp add: both_on_disk_def)
qed

theorem mask_updates_are_never_lost_witness:
  "\<exists>s. mask_steps (mask_start {} [Hide ''a'', Hide ''b'']) s \<and>
    ms_threads s = [Waiting (Hide ''a''), Returned (Hide ''b'')] \<and>
    mset (ms_done s) = {#Hide ''b''#} \<and> ms_mask s = fold on_mask (ms_done s) {}"
proof -
  obtain s where s: "mask_steps (mask_start {} [Hide ''a'', Hide ''b'']) s"
    "ms_threads s = [Waiting (Hide ''a''), Returned (Hide ''b'')]"
    using that [OF mask_run] by simp
  then have "mset (ms_done s) = {#Hide ''b''#}" "ms_mask s = fold on_mask (ms_done s) {}"
    using mask_updates_are_never_lost [OF s(1)] by simp_all
  then show ?thesis using s by blast
qed


text \<open>The start of a copy by thread 0.\<close>

definition begun :: copy_state where
  "begun = goes_to 0 (Copying 0 0) (on_data 0 (\<lambda>d. [])
     ((goes_to 0 Holding ((goes_to 0 ToLock copy_start)\<lparr>cs_lock := Some 0\<rparr>))\<lparr>cs_file := Some 0, cs_created := 0 + 1\<rparr>))"

lemma copy_begun: "copy_steps 2 [1, 2] copy_start begun"
proof -
  let ?a = "goes_to 0 ToLock copy_start"
  let ?b = "goes_to 0 Holding (?a\<lparr>cs_lock := Some 0\<rparr>)"
  have st1: "copy_step 2 [1, 2] copy_start ?a" by (rule copy_step.lower) (simp_all add: copy_start_def)
  have st2: "copy_step 2 [1, 2] ?a ?b" by (rule copy_step.lock) (simp_all add: copy_start_def)
  have st3: "copy_step 2 [1, 2] ?b begun"
    unfolding begun_def by (rule copy_step.create) (simp_all add: copy_start_def)
  show ?thesis
    by (intro copy_then [OF _ st3] copy_then [OF _ st2] copy_then [OF _ st1] rtranclp.rtrancl_refl)
qed

text \<open>
  Its first copy fails, thread 1, which waited for the lock, makes the file again, opens it and
  writes to it.
\<close>

definition made_again :: copy_state where
  "made_again = goes_to 1 (Copying 1 0) (on_data 1 (\<lambda>d. []) ((goes_to 1 Holding ((goes_to 0 Failed
     ((goes_to 0 Removed ((goes_to 1 ToLock (goes_to 0 ToLock copy_start))
       \<lparr>cs_lock := Some 0, cs_file := None, cs_created := 1, cs_removed := 1\<rparr>))\<lparr>cs_lock := None\<rparr>))
     \<lparr>cs_lock := Some 1\<rparr>))\<lparr>cs_file := Some 1, cs_created := 1 + 1\<rparr>))"

lemma copy_made_again: "copy_steps 2 [1, 2] copy_start made_again"
proof -
  define a where "a = goes_to 1 ToLock (goes_to 0 ToLock copy_start)"
  define b where "b = goes_to 0 Holding (a\<lparr>cs_lock := Some 0\<rparr>)"
  define c where "c = goes_to 0 (Copying 0 0) (on_data 0 (\<lambda>d. []) (b\<lparr>cs_file := Some 0, cs_created := 0 + 1\<rparr>))"
  define d where "d = goes_to 0 Removed (c\<lparr>cs_file := None, cs_removed := cs_removed c + 1\<rparr>)"
  define e where "e = goes_to 0 Failed (d\<lparr>cs_lock := None\<rparr>)"
  define f where "f = goes_to 1 Holding (e\<lparr>cs_lock := Some 1\<rparr>)"
  note ds = a_def b_def c_def d_def e_def f_def copy_start_def
  have 0: "copy_step 2 [1, 2] copy_start (goes_to 0 ToLock copy_start)" by (rule copy_step.lower) (simp_all add: copy_start_def)
  have 1: "copy_step 2 [1, 2] (goes_to 0 ToLock copy_start) a" unfolding a_def by (rule copy_step.lower) (simp_all add: copy_start_def)
  have 2: "copy_step 2 [1, 2] a b" unfolding b_def by (rule copy_step.lock) (simp_all add: ds)
  have 3: "copy_step 2 [1, 2] b c" unfolding c_def by (rule copy_step.create) (simp_all add: ds)
  have 4: "copy_step 2 [1, 2] c d" unfolding d_def by (rule copy_step.remove [of _ _ 0 0]) (simp add: ds)
  have 5: "copy_step 2 [1, 2] d e" unfolding e_def by (rule copy_step.unlock) (simp add: ds)
  have 6: "copy_step 2 [1, 2] e f" unfolding f_def by (rule copy_step.lock) (simp_all add: ds)
  have 7: "copy_step 2 [1, 2] f (goes_to 1 (Copying 1 0) (on_data 1 (\<lambda>d. []) (f\<lparr>cs_file := Some 1, cs_created := 1 + 1\<rparr>)))"
    by (rule copy_step.create) (simp_all add: ds)
  have "made_again = goes_to 1 (Copying 1 0) (on_data 1 (\<lambda>d. []) (f\<lparr>cs_file := Some 1, cs_created := 1 + 1\<rparr>))"
    by (simp add: made_again_def ds goes_to_def on_data_def fun_eq_iff)
  then have 7: "copy_step 2 [1, 2] f made_again" using 7 by simp
  show ?thesis
    by (intro copy_then [OF _ 7] copy_then [OF _ 6] copy_then [OF _ 5] copy_then [OF _ 4] copy_then [OF _ 3]
        copy_then [OF _ 2] copy_then [OF _ 1] copy_then [OF _ 0] rtranclp.rtrancl_refl)
qed


text \<open>
  The lock does not cover the open that finds the copy already there: thread 1 opens the copy before
  the first block is in it, its write returns, and the copier then overwrites it.
\<close>

lemma write_during_copy_up_is_lost:
  "\<exists>s. copy_steps 2 [1, 2] copy_start s \<and> cs_log s = [(1, Pwrite_at 0 [9])] \<and> cs_lock s = None \<and>
    (\<forall>t. \<not> copying (cs_at s t)) \<and> cs_file s = Some 0 \<and> cs_data s 0 = [1, 2]"
proof -
  define s1 where "s1 = goes_to 1 ToOpen (begun\<lparr>cs_early := True\<rparr>)"
  define s2 where "s2 = goes_to 1 (Opened 0) s1"
  define s3 where "s3 = did 1 0 (Pwrite_at 0 [9]) s2"
  define s4 where "s4 = goes_to 0 (Copying 0 (0 + 2)) (on_data 0 (\<lambda>d. write_at d 0 (take 2 (drop 0 [1, 2]))) s3)"
  define s5 where "s5 = goes_to 0 ToOpen (s4\<lparr>cs_lock := None\<rparr>)"
  note d = s1_def s2_def s3_def s4_def s5_def begun_def copy_start_def write_at_def
  have st1: "copy_step 2 [1, 2] begun s1" unfolding s1_def
    by (rule copy_step.upper) (auto simp: begun_def copy_start_def intro: exI [of _ 0])
  have st2: "copy_step 2 [1, 2] s1 s2" unfolding s2_def by (rule copy_step.open_file) (simp_all add: d)
  have st3: "copy_step 2 [1, 2] s2 s3" unfolding s3_def by (rule copy_step.change) (simp add: d)
  have st4: "copy_step 2 [1, 2] s3 s4" unfolding s4_def by (rule copy_step.copy) (simp_all add: d)
  have st5: "copy_step 2 [1, 2] s4 s5" unfolding s5_def by (rule copy_step.finish [of _ _ 0]) (simp add: d)
  have "copy_steps 2 [1, 2] copy_start s5"
    by (intro copy_then [OF _ st5] copy_then [OF _ st4] copy_then [OF _ st3] copy_then [OF _ st2] copy_then [OF _ st1] copy_begun)
  then show ?thesis by (intro exI [of _ s5]) (simp add: d)
qed

end
