(* ===== verification/InitDelta.thy ===== *)
theory InitDelta
  imports InitProps DeltaProps
begin

text \<open>
  Delta layers at mount time: the byte view that \<^verbatim>\<open>VfsState::Init\<close> gives a delta layer is the
  archive the delta was made for, over one base or the concatenation of several, themselves
  possibly the views of delta layers below.
\<close>

definition base_targets :: "layer_spec \<Rightarrow> string list" where
  "base_targets l = (if ls_baseTargets l = [] then [ls_target l] else ls_baseTargets l)"

lemma collect_bases_all:
  "(\<And>t. t \<in> set ts \<Longrightarrow> baseByTarget I t = Some (view t)) \<Longrightarrow>
    \<exists>layers. collect_bases I ts bs behind = Some (bs @ map view ts, layers)"
proof (induction ts arbitrary: bs behind)
  case (Cons t ts)
  have "\<exists>layers. collect_bases I ts (bs @ [view t]) behind' = Some ((bs @ [view t]) @ map view ts, layers)" for behind'
    by (rule Cons.IH) (simp add: Cons.prems)
  then show ?case using Cons.prems [of t] by simp
qed simp

lemma holds_unique:
  assumes "holds Z s c" "holds Z s d"
  shows "c = d"
proof -
  note h = holds_correct(1) [OF assms(1)] holds_correct(1) [OF assms(2)]
  have b: "byte_source (pread Z s) c" "byte_source (pread Z s) d" "length c = length d" using h by simp_all
  have "preadAll (pread Z s) (length c) 0 = Inr (Some (clip c (length c) 0))"
    by (rule byte_source.preadAll_ok [OF b(1)]) simp
  moreover have "preadAll (pread Z s) (length c) 0 = Inr (Some (clip d (length c) 0))"
    by (rule byte_source.preadAll_ok [OF b(2)]) (simp add: b(3))
  ultimately show ?thesis using b(3) by (simp add: clip_def)
qed

lemma concat_parts_size:
  "(\<And>x. Some x \<in> set xs \<Longrightarrow> f x = g x) \<Longrightarrow> concat_parts f n xs = concat_parts g n xs"
  by (induction xs arbitrary: n) (auto simp: Let_def split: option.splits prod.splits)

lemma holds_mk_concat:
  assumes "\<And>x. Some x \<in> set xs \<Longrightarrow> holds Z x (cont x)" "length (concat_bytes cont xs) < W64"
  shows "holds Z (mk_concat xs) (concat_bytes cont xs)"
proof -
  obtain ps t where p: "concat_parts src_size 0 xs = (ps, t)" by fastforce
  have "src_size x = length (cont x)" if "Some x \<in> set xs" for x
    using holds_correct(1) [OF assms(1) [OF that]] by (rule conjunct2)
  then have "concat_parts (\<lambda>x. length (cont x)) 0 xs = concat_parts src_size 0 xs"
    by (intro concat_parts_size) simp
  then show ?thesis using holds_concat [OF assms] p by (simp add: mk_concat_def)
qed

text \<open>The base a delta layer is given: the one view it names, or the concatenation of them.\<close>

definition base_of :: "(string \<Rightarrow> source) \<Rightarrow> string list \<Rightarrow> source" where
  "base_of view ts = (if length ts = 1 then map view ts ! 0 else mk_concat (map (Some \<circ> view) ts))"

lemma base_of_holds:
  assumes "\<And>t. t \<in> set ts \<Longrightarrow> holds Z (view t) (cont t)" "length (concat (map cont ts)) < W64"
  shows "holds Z (base_of view ts) (concat (map cont ts))"
proof (cases "length ts = 1")
  case True
  then obtain t where "ts = [t]" by (auto simp: length_Suc_conv)
  then show ?thesis using assms(1) by (simp add: base_of_def)
next
  case False
  define C where "C x = (SOME c. holds Z x c)" for x
  have C: "C (view t) = cont t" if "t \<in> set ts" for t
    using assms(1) [OF that] holds_unique unfolding C_def by (blast intro: some_equality)
  have "concat_bytes C (map (Some \<circ> view) us) = concat (map cont us)" if "set us \<subseteq> set ts" for us
    using that by (induction us) (simp_all add: part_bytes_def C)
  then have c: "concat_bytes C (map (Some \<circ> view) ts) = concat (map cont ts)" by blast
  have "holds Z (mk_concat (map (Some \<circ> view) ts)) (concat_bytes C (map (Some \<circ> view) ts))"
    by (rule holds_mk_concat) (use assms C c in auto)
  then show ?thesis using False c by (simp add: base_of_def)
qed

lemma byte_view_created:
  assumes "ls_type l = Delta" "collect_bases I (base_targets l) [] [gi] = Some (map view (base_targets l), behind)"
    and "Create (zs E) src (Some (base_of view (base_targets l))) False = Inr s"
  shows "byte_view E I gi l src = Inr (Some (s, behind))"
proof -
  have "byte_view E I gi l src = (case collect_bases I (base_targets l) [] [gi] of None \<Rightarrow> Inr None
      | Some (bs, behind) \<Rightarrow>
          (case Create (zs E) src (Some (if length bs = 1 then bs ! 0 else mk_concat (map Some bs))) False of
             Inl Stuck \<Rightarrow> Inl NoReturn | Inl (Err _) \<Rightarrow> Inr None | Inr ds \<Rightarrow> Inr (Some (ds, behind))))"
    unfolding byte_view_def base_targets_def Let_def assms(1) by (simp only: refl if_True)
  then show ?thesis using assms(2,3) by (cases "length (base_targets l) = 1") (simp_all add: base_of_def)
qed

text \<open>
  A delta layer's view. When every base it names is mounted below with a well-formed view, and its
  file is what \<^verbatim>\<open>GenerateDelta\<close> returned for the concatenation of their contents, the view is well
  formed and holds exactly the target's bytes, so deltas over it compose the same way.
\<close>

definition made_for :: "zstd \<Rightarrow> bytes \<Rightarrow> bytes \<Rightarrow> bytes \<Rightarrow> bool" where
  "made_for Z D base target \<longleftrightarrow> D \<noteq> [] \<and>
     (\<exists>G n progress. within_format (block_size n) base target \<and> D = GenerateDelta Z G base target n progress)"

lemma delta_view_holds:
  assumes "zstd_ok (zs E)" and "ls_type l = Delta"
    and bases: "\<And>t. t \<in> set (base_targets l) \<Longrightarrow> \<exists>s. baseByTarget I t = Some s \<and> holds (zs E) s (cont t)"
    and made: "made_for (zs E) D (concat (map cont (base_targets l))) target" and src: "holds (zs E) src D"
  shows "\<exists>s behind. byte_view E I gi l src = Inr (Some (s, behind)) \<and> holds (zs E) s target"
proof -
  define view where "view t = the (baseByTarget I t)" for t
  have v: "baseByTarget I t = Some (view t)" "holds (zs E) (view t) (cont t)" if "t \<in> set (base_targets l)" for t
    using bases [OF that] by (auto simp: view_def)
  obtain bl where c: "collect_bases I (base_targets l) [] [gi] = Some (map view (base_targets l), bl)"
    using collect_bases_all [of "base_targets l" I view "[]" "[gi]"] v(1) by auto
  obtain G n progress where m: "D \<noteq> []" "within_format (block_size n) (concat (map cont (base_targets l))) target"
    "D = GenerateDelta (zs E) G (concat (map cont (base_targets l))) target n progress"
    using made by (auto simp: made_for_def)
  have b: "holds (zs E) (base_of view (base_targets l)) (concat (map cont (base_targets l)))"
    by (rule base_of_holds [OF v(2) within_sizes(5) [OF m(2)]])
  obtain ss lit bls rg where "describes (zs E) (block_size n) (concat (map cont (base_targets l))) target D ss lit bls rg"
    using GenerateDelta_describes [OF assms(1) within_sizes(2) [OF m(2)] m(3) [symmetric] m(1)] by blast
  then obtain s where "Create (zs E) src (Some (base_of view (base_targets l))) False = Inr s" "holds (zs E) s target"
    using compose_described [OF _ m(2) assms(1) src b] by blast
  then show ?thesis using byte_view_created [OF assms(2) c] by blast
qed

end
