(* ===== verification/ServeProps.thy ===== *)
theory ServeProps
  imports ZipProps MountProps
begin

text \<open>
  Reads through the mount: what a program that opens a file of an archive layer is given.
\<close>

lemma sint_offset: "off < 2 ^ 63 \<Longrightarrow> sint (of_nat off :: 64 word) = int off"
  by (simp add: sint_uint uint_nat unsigned_of_nat take_bit_nat_eq_self signed_take_bit_int_eq_self_iff)

text \<open>
  Whatever requests are served first, reads through the handle give the bytes \<open>b\<close>: a piece at the
  offset, never more than asked and at least one byte before the end.
\<close>

definition reads_as :: "'h env \<Rightarrow> 'h vfs \<Rightarrow> open_file \<Rightarrow> bytes \<Rightarrow> bool" where
  "reads_as E S f b \<longleftrightarrow> (\<forall>qs n off. off < 2 ^ 63 \<longrightarrow> (\<exists>k. k \<le> n \<and> (n = 0 \<or> length b \<le> off \<or> 0 < k) \<and>
     fst (run_state (serve E (ReadReq (Some f) n off)) (snd (serve_all E qs S))) = Data (Inr (clip b k off))))"

definition only_reads :: "flags \<Rightarrow> bool" where
  "only_reads fl \<longleftrightarrow> and fl (or O_WRONLY O_RDWR) = 0 \<and> and fl O_TRUNC = 0"

text \<open>A file that resolves to a stored entry opens without any change and reads as the entry's bytes.\<close>

lemma serve_zip_file:
  assumes "Resolve E S (NormalizeVPath p) = rr" "r_kind rr = ZipHit" "r_zipEntry rr = Some e" "r_layer rr = Some L"
    and "l_zip L = Some I" "ze_stored e" "\<not> ze_isDir e" "holds (zs E) (z_src I) c" "ze_dataOffset e + ze_size e \<le> length c"
    and "only_reads fl"
  shows "\<exists>f. run_state (serve E (OpenReq p fl)) S = (Handle (Inr (Some f)), S) \<and>
    reads_as E S f (clip c (ze_size e) (ze_dataOffset e))"
proof -
  have o: "OpenZipEntry I e = Inr \<lparr>zr_stored = True, zr_src = Some (z_src I), zr_dataOffset = ze_dataOffset e, zr_size = ze_size e\<rparr>"
    using assms(6) by (simp add: OpenZipEntry_def)
  let ?r = "\<lparr>zr_stored = True, zr_src = Some (z_src I), zr_dataOffset = ze_dataOffset e, zr_size = ze_size e\<rparr>"
  let ?f = "\<lparr>of_fd = None, of_zip = Some ?r\<rparr>"
  have fl: "and fl (or O_WRONLY O_RDWR) = 0" "and fl O_TRUNC = 0" using assms(10) by (simp_all only: only_reads_def)
  have "run_state (serve E (OpenReq p fl)) S = (Handle (Inr (Some ?f)), S)"
    using assms(1-5,7) fl o by (simp add: VfsOpen_def virtual_dir_def Let_def)
  moreover have "\<exists>k. k \<le> n \<and> (n = 0 \<or> ze_size e \<le> off \<or> 0 < k) \<and>
      fst (run_state (serve E (ReadReq (Some ?f) n off)) (snd (serve_all E qs S))) =
        Data (Inr (clip (clip c (ze_size e) (ze_dataOffset e)) k off))" if "off < 2 ^ 63" for qs n off
    using stored_read [OF assms(8,9) o, of n off] sint_offset [OF that] by (auto simp: VfsRead_def reading_def)
  ultimately show ?thesis using assms(9) by (auto simp: reads_as_def)
qed

end
