(* ===== verification/MountRead.thy ===== *)
theory MountRead
  imports InitDelta ServeProps
begin

text \<open>
  From the specification to the bytes a program reads: every archive layer of a mount shows the
  archive it stands for, a plain one its file and a delta the target it was generated for, and the
  files in it are served as that archive's bytes.
\<close>

section \<open>What the layers stand for\<close>

text \<open>
  \<open>files\<close> gives the bytes of the host's files, \<open>cont i\<close> the archive that layer \<open>i\<close> stands for.
  \<open>stands_for\<close> runs over the layers with \<open>T\<close>, the archive a delta at each target is over next, and
  the targets whose chain is under way; a layer of a chain hands its archive on, any other does so
  until a chain has been there.
\<close>

fun stands_for :: "zstd \<Rightarrow> (string \<Rightarrow> bytes) \<Rightarrow> (nat \<Rightarrow> bytes) \<Rightarrow> (nat \<rightharpoonup> nat) \<Rightarrow> nat \<Rightarrow> layer_spec list \<Rightarrow>
    (string \<rightharpoonup> bytes) \<Rightarrow> string set \<Rightarrow> bool" where
  "stands_for Z files cont tops gi [] T seen = True"
| "stands_for Z files cont tops gi (l # ls) T seen =
     (if zip_like l then
        (if ls_type l = Delta
         then (\<forall>t \<in> set (base_targets l). T t \<noteq> None) \<and>
           made_for Z (files (ls_source l)) (concat (map (the \<circ> T) (base_targets l))) (cont gi)
         else cont gi = files (ls_source l)) \<and>
        stands_for Z files cont tops (gi + 1) ls
          (if tops gi \<noteq> None \<or> ls_target l \<notin> seen then T(ls_target l \<mapsto> cont gi) else T)
          (if tops gi \<noteq> None then Set.insert (ls_target l) seen else seen)
      else stands_for Z files cont tops (gi + 1) ls T seen)"

text \<open>While \<open>P\<close> holds of the host, the archives named by the layers open and read as their files.\<close>

definition archives_open :: "'h env \<Rightarrow> (string \<Rightarrow> bytes) \<Rightarrow> layer_spec list \<Rightarrow> ('h \<Rightarrow> bool) \<Rightarrow> bool" where
  "archives_open E files ls P \<longleftrightarrow> (\<forall>l h. l \<in> set ls \<and> zip_like l \<and> P h \<longrightarrow>
     (\<exists>fd h' st. Open (io E) (ls_source l) O_RDONLY 0 h = (Inr fd, h') \<and> Fstat (io E) h' fd = Inr st \<and> P h' \<and>
        holds (zs E) (FdSource (Pread (io E) h' fd) (st_size st)) (files (ls_source l))))"

text \<open>What a layer of the mount keeps for good: its source and its archive.\<close>

definition skel :: "layer \<Rightarrow> string \<times> zip_index option" where
  "skel L = (l_source L, l_zip L)"

definition shown_by :: "zstd \<Rightarrow> layer_spec list \<Rightarrow> (nat \<Rightarrow> bytes) \<Rightarrow> nat \<Rightarrow> string \<times> zip_index option \<Rightarrow> bool" where
  "shown_by Z ls cont gi k \<longleftrightarrow> fst k = ls_source (ls ! gi) \<and>
     (if zip_like (ls ! gi) then \<exists>zi. snd k = Some zi \<and> holds Z (z_src zi) (cont gi) else snd k = None)"

text \<open>Layers that surface by themselves and whose archive libzip can open.\<close>

definition surfaces :: "libzip \<Rightarrow> layer_spec list \<Rightarrow> (nat \<Rightarrow> bytes) \<Rightarrow> nat \<Rightarrow> bool" where
  "surfaces lib ls cont gi \<longleftrightarrow> zip_like (ls ! gi) \<and> (chainTop ls gi = None \<or> chainTop ls gi = Some gi) \<and>
     (\<forall>rd. byte_source rd (cont gi) \<longrightarrow> lib rd (length (cont gi)) \<noteq> None)"

definition all_shown :: "zstd \<Rightarrow> libzip \<Rightarrow> layer_spec list \<Rightarrow> (nat \<Rightarrow> bytes) \<Rightarrow> nat \<Rightarrow> (string \<times> zip_index option) list \<Rightarrow> bool" where
  "all_shown Z lib ls cont n ks \<longleftrightarrow>
     (\<forall>k \<in> set ks. \<exists>gi < n. shown_by Z ls cont gi k) \<and>
     (\<forall>gi < n. surfaces lib ls cont gi \<longrightarrow> (\<exists>k \<in> set ks. shown_by Z ls cont gi k))"

definition views_ok :: "zstd \<Rightarrow> 'h init \<Rightarrow> (string \<rightharpoonup> bytes) \<Rightarrow> string set \<Rightarrow> bool" where
  "views_ok Z I T seen \<longleftrightarrow> chainSeen I = seen \<and>
     (\<forall>t c. T t = Some c \<longrightarrow> (\<exists>s. baseByTarget I t = Some s \<and> holds Z s c))"


section \<open>The layer loop\<close>

lemma RegisterParents_src: "z_src (RegisterParents I cur) = z_src I"
proof (induction I cur rule: RegisterParents.induct)
  case (1 I cur)
  have a: "z_src (add_child p c I) = z_src I" for p c by (simp add: add_child_def)
  then show ?case using 1 by (subst RegisterParents.simps) (auto simp: Let_def split: option.split)
qed

lemma index_entry_src: "index_entry rd lh i st I = Inr J \<Longrightarrow> z_src J = z_src I"
  by (auto simp: index_entry_def Let_def RegisterParents_src split: option.splits if_splits sum.splits)

lemma index_entries_src: "index_entries rd lh i sts I = Inr J \<Longrightarrow> z_src J = z_src I"
  by (induction sts arbitrary: i I) (auto simp: bindE_Inr dest: index_entry_src)

lemma map_sum_Some: "map_sum id Some r = Inr y \<longleftrightarrow> (\<exists>x. r = Inr x \<and> y = Some x)"
  by (cases r) auto

lemma BuildZipIndex_src: "BuildZipIndex Z lib src name = Inr (Some zi) \<Longrightarrow> z_src zi = src"
  by (auto simp: BuildZipIndex_def Let_def bindE_Inr map_sum_Some dest!: index_entries_src split: option.splits)

lemma BuildZipIndex_None:
  "BuildZipIndex Z lib src name = Inr None \<Longrightarrow> lib (pread Z src) (src_size src) = None"
  by (auto simp: BuildZipIndex_def Let_def bindE_Inr map_sum_Some split: option.splits)

lemma skel_mask [simp]: "skel (mask_layer t L) = skel L"
  by (simp add: skel_def mask_layer_def)

lemma map_skel_update: "map skel (Ls[i := mask_layer t (Ls ! i)]) = map skel Ls"
  by (cases "i < length Ls") (simp_all add: map_update list_update_same_conv list_update_beyond)

lemma hide_bases_fields [simp]:
  "map skel (in_layers (hide_bases gi bs I)) = map skel (in_layers I)" "in_host (hide_bases gi bs I) = in_host I"
  "baseByTarget (hide_bases gi bs I) = baseByTarget I" "chainSeen (hide_bases gi bs I) = chainSeen I"
  unfolding hide_bases_def
  by (simp_all, intro fold_keeps [where P = "\<lambda>Ls. map skel Ls = map skel (in_layers I)"]) (simp_all add: map_skel_update)

lemma add_mounts_fields [simp]:
  "map skel (in_layers (add_mounts gi l zi ms I)) = map skel (in_layers I) @ replicate (length ms) (ls_source l, zi)"
  "in_host (add_mounts gi l zi ms I) = in_host I"
  "baseByTarget (add_mounts gi l zi ms I) = baseByTarget I" "chainSeen (add_mounts gi l zi ms I) = chainSeen I"
  by (induction ms arbitrary: I) (simp_all add: skel_def new_layer_def Let_def)

lemma mount_layer_fields [simp]:
  "set (map skel (in_layers (mount_layer gi l zi behind I))) = Set.insert (ls_source l, zi) (set (map skel (in_layers I)))"
  "in_host (mount_layer gi l zi behind I) = in_host I"
  "baseByTarget (mount_layer gi l zi behind I) = baseByTarget I" "chainSeen (mount_layer gi l zi behind I) = chainSeen I"
proof -
  have "mounts_of l \<noteq> []" by (simp add: mounts_of_def)
  then have m: "set (map skel (in_layers (add_mounts gi l zi (mounts_of l) I))) = Set.insert (ls_source l, zi) (set (map skel (in_layers I)))"
    by (simp only: add_mounts_fields set_append set_replicate length_0_conv) auto
  then show "set (map skel (in_layers (mount_layer gi l zi behind I))) = Set.insert (ls_source l, zi) (set (map skel (in_layers I)))"
    by (cases "ls_type l = Delta") (simp_all only: mount_layer_def Let_def hide_bases_fields if_True if_False refl)
qed (simp_all add: mount_layer_def Let_def)

lemma all_shown_layer:
  assumes "all_shown Z lib ls cont n ks" "set ks' = Set.insert k (set ks)"
    and "shown_by Z ls cont n k"
  shows "all_shown Z lib ls cont (Suc n) ks'"
  using assms unfolding all_shown_def by (auto simp: less_Suc_eq)

lemma all_shown_skip:
  assumes "all_shown Z lib ls cont n ks" "\<not> surfaces lib ls cont n"
  shows "all_shown Z lib ls cont (Suc n) ks"
  using assms unfolding all_shown_def by (auto simp: less_Suc_eq)

text \<open>What the view of an archive layer leaves behind: the base of later deltas at its target.\<close>

definition hand_on :: "bool \<Rightarrow> string \<Rightarrow> source \<Rightarrow> nat list \<Rightarrow> 'h init \<Rightarrow> 'h init" where
  "hand_on inChain t s behind I =
     (let I = (if inChain then I\<lparr>chainSeen := Set.insert t (chainSeen I)\<rparr> else I)
      in if inChain \<or> t \<notin> chainSeen I
         then I\<lparr>baseByTarget := (baseByTarget I)(t \<mapsto> s), baseLayersByTarget := (baseLayersByTarget I)(t \<mapsto> behind)\<rparr>
         else I)"

lemma hand_on_fields [simp]: "in_layers (hand_on c t s b I) = in_layers I" "in_host (hand_on c t s b I) = in_host I"
  by (simp_all add: hand_on_def Let_def)

lemma hand_on_views:
  assumes "views_ok Z I T seen" "holds Z s c"
  shows "views_ok Z (hand_on inChain t s behind I) (if inChain \<or> t \<notin> seen then T(t \<mapsto> c) else T)
    (if inChain then Set.insert t seen else seen)"
  using assms by (auto simp: views_ok_def hand_on_def Let_def)

lemma step_layer_zip:
  assumes "zip_like l" "Open (io E) (ls_source l) O_RDONLY 0 (in_host I) = (Inr fd, h)" "Fstat (io E) h fd = Inr st"
    and "byte_view E (I\<lparr>in_host := h\<rparr>) gi l (FdSource (Pread (io E) h fd) (st_size st)) = Inr (Some (s, behind))"
  shows "step_layer E lib tops gi l I =
    (let I = hand_on (tops gi \<noteq> None) (ls_target l) s behind (I\<lparr>in_host := h\<rparr>)
     in if tops gi \<noteq> None \<and> tops gi \<noteq> Some gi then Inr I
        else (case BuildZipIndex (zs E) lib s (ls_source l) of
             Inl x \<Rightarrow> Inl x
           | Inr None \<Rightarrow> Inr I
           | Inr (Some zi) \<Rightarrow> Inr (mount_layer gi l (Some zi) behind I)))"
  using assms unfolding step_layer_def hand_on_def Let_def by simp

lemma archive_view:
  assumes Z: "zstd_ok (zs E)" and l: "zip_like l" and v: "views_ok (zs E) I T seen"
    and s: "stands_for (zs E) files cont tops gi (l # rest) T seen" and src: "holds (zs E) src (files (ls_source l))"
  shows "\<exists>s behind. byte_view E I gi l src = Inr (Some (s, behind)) \<and> holds (zs E) s (cont gi)"
proof (cases "ls_type l = Delta")
  case True
  then have d: "\<forall>t \<in> set (base_targets l). T t \<noteq> None"
    "made_for (zs E) (files (ls_source l)) (concat (map (the \<circ> T) (base_targets l))) (cont gi)"
    using s l by simp_all
  show ?thesis
  proof (rule delta_view_holds [OF Z True _ d(2) src])
    fix t assume "t \<in> set (base_targets l)"
    then obtain c where "T t = Some c" using d(1) by auto
    then show "\<exists>s. baseByTarget I t = Some s \<and> holds (zs E) s ((the \<circ> T) t)" using v by (simp add: views_ok_def)
  qed
next
  case False
  then have "cont gi = files (ls_source l)" using s l by simp
  then show ?thesis using False src by (simp add: byte_view_def)
qed

text \<open>The loop's invariant before layer \<open>n\<close>.\<close>

definition loop_ok :: "'h env \<Rightarrow> libzip \<Rightarrow> (string \<Rightarrow> bytes) \<Rightarrow> layer_spec list \<Rightarrow> (nat \<Rightarrow> bytes) \<Rightarrow> ('h \<Rightarrow> bool) \<Rightarrow> nat \<Rightarrow> 'h init \<Rightarrow> bool" where
  "loop_ok E lib files ls cont P n I \<longleftrightarrow> P (in_host I) \<and> all_shown (zs E) lib ls cont n (map skel (in_layers I)) \<and>
     (\<exists>T seen. views_ok (zs E) I T seen \<and> stands_for (zs E) files cont (chainTop ls) n (drop n ls) T seen)"

lemma loop_ok_mount:
  assumes "P (in_host I)" "all_shown (zs E) lib ls cont n (map skel (in_layers I))" "views_ok (zs E) I T seen"
    and "stands_for (zs E) files cont (chainTop ls) (Suc n) (drop (Suc n) ls) T seen"
    and "shown_by (zs E) ls cont n (ls_source l, zi)"
  shows "loop_ok E lib files ls cont P (Suc n) (mount_layer n l zi behind I)"
proof -
  have "all_shown (zs E) lib ls cont (Suc n) (map skel (in_layers (mount_layer n l zi behind I)))"
    by (rule all_shown_layer [OF assms(2) mount_layer_fields(1)]) (use assms(5) in simp)
  then show ?thesis using assms(1,3,4) by (auto simp: loop_ok_def views_ok_def)
qed

lemma archive_step:
  assumes Z: "zstd_ok (zs E)" and A: "archives_open E files ls P" and n: "n < length ls" "zip_like (ls ! n)"
    and ok: "loop_ok E lib files ls cont P n I"
  obtains s behind K T seen where
    "step_layer E lib (chainTop ls) n (ls ! n) I =
       (if chainTop ls n \<noteq> None \<and> chainTop ls n \<noteq> Some n then Inr K
        else (case BuildZipIndex (zs E) lib s (ls_source (ls ! n)) of Inl x \<Rightarrow> Inl x | Inr None \<Rightarrow> Inr K
           | Inr (Some zi) \<Rightarrow> Inr (mount_layer n (ls ! n) (Some zi) behind K)))"
    "holds (zs E) s (cont n)" "P (in_host K)" "all_shown (zs E) lib ls cont n (map skel (in_layers K))"
    "views_ok (zs E) K T seen" "stands_for (zs E) files cont (chainTop ls) (Suc n) (drop (Suc n) ls) T seen"
proof -
  let ?l = "ls ! n" and ?tops = "chainTop ls"
  obtain T seen where P: "P (in_host I)" and sh: "all_shown (zs E) lib ls cont n (map skel (in_layers I))"
    and v: "views_ok (zs E) I T seen" and st: "stands_for (zs E) files cont ?tops n (?l # drop (Suc n) ls) T seen"
    using ok n by (auto simp: loop_ok_def Cons_nth_drop_Suc)
  obtain fd h fs where o: "Open (io E) (ls_source ?l) O_RDONLY 0 (in_host I) = (Inr fd, h)" "Fstat (io E) h fd = Inr fs" "P h"
    "holds (zs E) (FdSource (Pread (io E) h fd) (st_size fs)) (files (ls_source ?l))"
    using A n(2) P nth_mem [OF n(1)] unfolding archives_open_def by blast
  have v': "views_ok (zs E) (I\<lparr>in_host := h\<rparr>) T seen" using v by (simp add: views_ok_def)
  obtain s behind where b: "byte_view E (I\<lparr>in_host := h\<rparr>) n ?l (FdSource (Pread (io E) h fd) (st_size fs)) = Inr (Some (s, behind))"
    and s: "holds (zs E) s (cont n)"
    using archive_view [OF Z n(2) v' st o(4)] by blast
  note step = step_layer_zip [OF n(2) o(1,2) b, of lib ?tops, unfolded Let_def]
  note views = hand_on_views [OF v' s, of "?tops n \<noteq> None" "ls_target ?l" behind]
  have stands: "stands_for (zs E) files cont ?tops (Suc n) (drop (Suc n) ls)
      (if ?tops n \<noteq> None \<or> ls_target ?l \<notin> seen then T(ls_target ?l \<mapsto> cont n) else T)
      (if ?tops n \<noteq> None then Set.insert (ls_target ?l) seen else seen)"
    using st n(2) by simp
  show ?thesis by (rule that [OF step s _ _ views stands]) (use o(3) sh in simp_all)
qed

lemma step_layer_ok:
  assumes Z: "zstd_ok (zs E)" and A: "archives_open E files ls P" and n: "n < length ls"
    and step: "step_layer E lib (chainTop ls) n (ls ! n) I = Inr J" and ok: "loop_ok E lib files ls cont P n I"
  shows "loop_ok E lib files ls cont P (Suc n) J"
proof (cases "zip_like (ls ! n)")
  case False
  then have "J = mount_layer n (ls ! n) None [n] I" using step by (simp add: step_layer_def)
  moreover obtain T seen where "P (in_host I)" "all_shown (zs E) lib ls cont n (map skel (in_layers I))"
    "views_ok (zs E) I T seen" "stands_for (zs E) files cont (chainTop ls) n (ls ! n # drop (Suc n) ls) T seen"
    using ok n by (auto simp: loop_ok_def Cons_nth_drop_Suc)
  ultimately show ?thesis using loop_ok_mount [where P = P] False by (simp add: shown_by_def)
next
  case True
  show ?thesis
  proof (rule archive_step [OF Z A n True ok])
    fix s behind K T seen
    assume st: "step_layer E lib (chainTop ls) n (ls ! n) I =
       (if chainTop ls n \<noteq> None \<and> chainTop ls n \<noteq> Some n then Inr K
        else (case BuildZipIndex (zs E) lib s (ls_source (ls ! n)) of Inl x \<Rightarrow> Inl x | Inr None \<Rightarrow> Inr K
           | Inr (Some zi) \<Rightarrow> Inr (mount_layer n (ls ! n) (Some zi) behind K)))"
      and s: "holds (zs E) s (cont n)"
      and k: "P (in_host K)" "all_shown (zs E) lib ls cont n (map skel (in_layers K))" "views_ok (zs E) K T seen"
        "stands_for (zs E) files cont (chainTop ls) (Suc n) (drop (Suc n) ls) T seen"
    have skip: "loop_ok E lib files ls cont P (Suc n) K" if "\<not> surfaces lib ls cont n"
      using k all_shown_skip [OF k(2) that] unfolding loop_ok_def by blast
    have bs: "byte_source (pread (zs E) s) (cont n)" "src_size s = length (cont n)" using holds_correct(1) [OF s] by simp_all
    show ?thesis
    proof (cases "chainTop ls n \<noteq> None \<and> chainTop ls n \<noteq> Some n")
      case True
      then show ?thesis using step st skip by (auto simp: surfaces_def)
    next
      case False
      then consider "BuildZipIndex (zs E) lib s (ls_source (ls ! n)) = Inr None" "J = K"
        | zi where "BuildZipIndex (zs E) lib s (ls_source (ls ! n)) = Inr (Some zi)" "J = mount_layer n (ls ! n) (Some zi) behind K"
        using step st by (auto split: sum.splits option.splits)
      then show ?thesis
      proof cases
        case 1
        then have "\<not> surfaces lib ls cont n" using BuildZipIndex_None [of "zs E" lib s] bs by (auto simp: surfaces_def)
        then show ?thesis using 1 skip by simp
      next
        case 2
        then have "shown_by (zs E) ls cont n (ls_source (ls ! n), Some zi)"
          using s True BuildZipIndex_src [OF 2(1)] \<open>zip_like (ls ! n)\<close> by (simp add: shown_by_def)
        then show ?thesis using 2 loop_ok_mount [where P = P, OF k] by simp
      qed
    qed
  qed
qed

text \<open>The loop returns when reading the index of no archive hangs.\<close>

definition indexes_return :: "'h env \<Rightarrow> libzip \<Rightarrow> layer_spec list \<Rightarrow> (nat \<Rightarrow> bytes) \<Rightarrow> bool" where
  "indexes_return E lib ls cont \<longleftrightarrow> (\<forall>n < length ls. \<forall>s name x. holds (zs E) s (cont n) \<longrightarrow> BuildZipIndex (zs E) lib s name \<noteq> Inl x)"

lemma step_layer_returns:
  assumes "zstd_ok (zs E)" "archives_open E files ls P" "n < length ls" "loop_ok E lib files ls cont P n I"
    and "indexes_return E lib ls cont"
  shows "\<exists>J. step_layer E lib (chainTop ls) n (ls ! n) I = Inr J"
proof (cases "zip_like (ls ! n)")
  case True
  show ?thesis
    by (rule archive_step [OF assms(1-3) True assms(4)])
      (use assms(3,5) in \<open>auto simp: indexes_return_def split: sum.split option.split\<close>)
qed (simp add: step_layer_def)

lemma init_loop_ok:
  assumes "zstd_ok (zs E)" "archives_open E files ls P" "n \<le> length ls"
    and "init_loop E lib (chainTop ls) n (drop n ls) I = Inr J" "loop_ok E lib files ls cont P n I"
  shows "loop_ok E lib files ls cont P (length ls) J"
  using assms(3-5)
proof (induction "length ls - n" arbitrary: n I)
  case (Suc k)
  then have n: "n < length ls" by simp
  then obtain K where K: "step_layer E lib (chainTop ls) n (ls ! n) I = Inr K"
    "init_loop E lib (chainTop ls) (Suc n) (drop (Suc n) ls) K = Inr J"
    using Suc.prems(2) by (auto simp: Cons_nth_drop_Suc [symmetric] bindE_Inr)
  have "loop_ok E lib files ls cont P (Suc n) K" by (rule step_layer_ok [OF assms(1,2) n K(1) Suc.prems(3)])
  moreover have "k = length ls - Suc n" using Suc.hyps(2) by simp
  ultimately show ?case using Suc.hyps(1) K(2) n by simp
qed auto

lemma init_loop_returns:
  assumes "zstd_ok (zs E)" "archives_open E files ls P" "n \<le> length ls" "loop_ok E lib files ls cont P n I"
    and "indexes_return E lib ls cont"
  shows "\<exists>J. init_loop E lib (chainTop ls) n (drop n ls) I = Inr J"
  using assms(3,4)
proof (induction "length ls - n" arbitrary: n I)
  case (Suc k)
  then have n: "n < length ls" by simp
  obtain K where K: "step_layer E lib (chainTop ls) n (ls ! n) I = Inr K"
    using step_layer_returns [OF assms(1,2) n Suc.prems(2) assms(5)] by blast
  have "loop_ok E lib files ls cont P (Suc n) K" by (rule step_layer_ok [OF assms(1,2) n K Suc.prems(2)])
  moreover have "k = length ls - Suc n" using Suc.hyps(2) by simp
  ultimately have "\<exists>J. init_loop E lib (chainTop ls) (Suc n) (drop (Suc n) ls) K = Inr J" using Suc.hyps(1) n by simp
  then show ?case using K n by (simp add: Cons_nth_drop_Suc [symmetric])
qed simp


section \<open>The mount\<close>

lemma skel_skeleton: "map skel Ls = map skel (skeleton Ls)"
  by (simp add: skeleton_def skel_def)

lemma Init_shown:
  assumes "zstd_ok (zs E)" "archives_open E files (sp_layers Sp) P"
    and P: "P h" "P (snd (create_directories (io E) (sp_writelayer Sp) h))"
    and "stands_for (zs E) files cont (chainTop (sp_layers Sp)) 0 (sp_layers Sp) Map.empty {}"
    and "Init E lib names flatten Sp h = Inr S0"
  shows "all_shown (zs E) lib (sp_layers Sp) cont (length (sp_layers Sp)) (map skel (layers S0))"
proof -
  let ?h = "if sp_writelayer Sp \<noteq> [] then snd (create_directories (io E) (sp_writelayer Sp) h) else h"
  obtain T I Ls where i: "SeedMasksFromWritelayer E (vfs_start Sp flatten ?h) = Inr T"
    "init_loop E lib (chainTop (sp_layers Sp)) 0 (sp_layers Sp) (loop_start (host_state T)) = Inr I"
    "seed_layers E (in_host I) (in_layers I) = Inr Ls" "S0 = vfs_final names Sp I Ls T"
    using assms(6) unfolding Init_steps bindE_Inr by auto
  have "host_state T = ?h" by (subst SeedMasks_fields [OF i(1)]) (simp add: vfs_start_def)
  then have "loop_ok E lib files (sp_layers Sp) cont P 0 (loop_start (host_state T))"
    using P assms(5) by (auto simp: loop_ok_def loop_start_def all_shown_def views_ok_def)
  then have "loop_ok E lib files (sp_layers Sp) cont P (length (sp_layers Sp)) I"
    using init_loop_ok [OF assms(1,2), of 0] i(2) by simp
  moreover have "counted I" by (rule init_loop_counted [OF i(2)]) (simp add: counted_def stack_ok_def loop_start_def)
  then have "skeleton Ls = skeleton (in_layers I)"
    using seed_layers_ok [OF i(3)] by (simp add: counted_def skeleton_def)
  then have "map skel Ls = map skel (in_layers I)" using skel_skeleton by metis
  ultimately show ?thesis by (simp add: loop_ok_def i(4) vfs_final_def)
qed

lemma shown_session: "map skel (layers (snd (serve_all E qs S))) = map skel (layers S)"
  using shape.serve_all_keeps [OF shape_refl [of S]] skel_skeleton by (metis same_shape_def)

lemma shown_hit:
  assumes "all_shown Z lib ls cont n (map skel (layers S))" "Resolve E S v = rr" "r_kind rr = ZipHit"
  shows "\<exists>L I gi. r_layer rr = Some L \<and> l_zip L = Some I \<and> gi < n \<and> l_source L = ls_source (ls ! gi) \<and> holds Z (z_src I) (cont gi)"
proof -
  obtain L I where L: "r_layer rr = Some L" "L \<in> set (layers S)" "l_zip L = Some I" using zip_hit_index [OF assms(2,3)] by blast
  then have "skel L \<in> set (map skel (layers S))" by simp
  then obtain gi where "gi < n" "shown_by Z ls cont gi (skel L)"
    using assms(1) L(3) unfolding all_shown_def by blast
  then show ?thesis using L by (auto simp: shown_by_def skel_def split: if_splits)
qed


section \<open>Properties\<close>

text \<open>
  C3: archives are mounted and read as what they stand for. When the archives the specification
  names open and each delta among them was generated over what is below it for some target, then
  after mounting and any session every archive layer has a view with exactly the bytes of its
  archive or target, every layer that surfaces and that libzip can open is there, and opening a
  stored file of an archive layer and reading it, whatever is served in between, gives the bytes at
  the entry's place in the archive that the layer stands for.
\<close>

theorem mounted_archives_read_as_their_targets:
  assumes "zstd_ok (zs E)" "archives_open E files (sp_layers Sp) P" "P h" "P (snd (create_directories (io E) (sp_writelayer Sp) h))"
    and "stands_for (zs E) files cont (chainTop (sp_layers Sp)) 0 (sp_layers Sp) Map.empty {}"
    and "Init E lib names flatten Sp h = Inr S0" "snd (serve_all E qs S0) = S"
  shows "all_shown (zs E) lib (sp_layers Sp) cont (length (sp_layers Sp)) (map skel (layers S)) \<and>
    (\<forall>p fl e. r_kind (Resolve E S (NormalizeVPath p)) = ZipHit \<and> r_zipEntry (Resolve E S (NormalizeVPath p)) = Some e \<and>
       ze_stored e \<and> \<not> ze_isDir e \<and> only_reads fl \<longrightarrow>
     (\<exists>L gi. r_layer (Resolve E S (NormalizeVPath p)) = Some L \<and> gi < length (sp_layers Sp) \<and>
       l_source L = ls_source (sp_layers Sp ! gi) \<and>
       (ze_dataOffset e + ze_size e \<le> length (cont gi) \<longrightarrow>
         (\<exists>f. run_state (serve E (OpenReq p fl)) S = (Handle (Inr (Some f)), S) \<and>
            reads_as E S f (clip (cont gi) (ze_size e) (ze_dataOffset e))))))"
proof -
  have s: "all_shown (zs E) lib (sp_layers Sp) cont (length (sp_layers Sp)) (map skel (layers S))"
    using Init_shown [OF assms(1-6)] shown_session [of E qs S0] assms(7) by simp
  then show ?thesis using shown_hit [OF s refl] serve_zip_file [OF refl, of E S] by (intro conjI allI impI) (assumption, metis)
qed

text \<open>Two archives and a delta over both, on a host in memory, with a libzip that lists no entries.\<close>

definition delta_file :: bytes where
  "delta_file = GenerateDelta frame_zstd sound_env [1, 2] [3, 4, 5] 0 None"

definition three_layers :: "layer_spec list" where
  "three_layers =
    [\<lparr>ls_type = Zip, ls_source = ''/a'', ls_target = ''a'', ls_baseTargets = [], ls_submounts = [], ls_rw = False\<rparr>,
     \<lparr>ls_type = Zip, ls_source = ''/b'', ls_target = ''b'', ls_baseTargets = [], ls_submounts = [], ls_rw = False\<rparr>,
     \<lparr>ls_type = Delta, ls_source = ''/d'', ls_target = ''t'', ls_baseTargets = [''a'', ''b''], ls_submounts = [], ls_rw = False\<rparr>]"

definition three_spec :: spec where
  "three_spec = \<lparr>sp_mountpoint = ''/m'', sp_uid = 0, sp_gid = 0, sp_readOnly = True, sp_writelayer = [],
     sp_layers = three_layers, sp_caseInsensitive = False\<rparr>"

definition three_files :: "string \<Rightarrow> bytes" where
  "three_files p = (if p = ''/a'' then [1] else if p = ''/b'' then [2] else delta_file)"

definition three_cont :: "nat \<Rightarrow> bytes" where
  "three_cont n = [[1], [2], [3, 4, 5]] ! n"

definition has_three :: "mem \<Rightarrow> bool" where
  "has_three h \<longleftrightarrow> (\<forall>p \<in> {''/a'', ''/b'', ''/d''}. node_at h p = Some (FileNode 0x1A4 (three_files p)))"

definition zstd_env :: "mem env" where
  "zstd_env = mem_env\<lparr>zs := frame_zstd\<rparr>"

lemma zstd_env_fields [simp]: "zs zstd_env = frame_zstd" "io zstd_env = mem_host"
  by (simp_all add: zstd_env_def)

lemma mem_file_holds:
  assumes "node_at h p = Some (FileNode m b)" "length b < W64"
  shows "\<exists>fd h' st. mem_open p O_RDONLY 0 h = (Inr fd, h') \<and> Fstat mem_host h' fd = Inr st \<and> nodes h' = nodes h \<and>
    holds Z (FdSource (Pread mem_host h' fd) (st_size st)) b"
proof -
  let ?h = "h\<lparr>fds := fds h @ [(p, 0)]\<rparr>"
  have n: "node_at ?h p = Some (FileNode m b)" using assms(1) by (simp add: node_at_def)
  then have r: "Pread mem_host ?h (length (fds h)) = (\<lambda>n off. Inr (clip b n off))"
    by (auto simp: mem_host_def content_of_def)
  have "byte_source (\<lambda>n off. Inr (clip b n off)) b" by unfold_locales (use assms(2) in auto)
  then have "holds Z (FdSource (Pread mem_host ?h (length (fds h))) (length b)) b" unfolding r by (rule holds_fd)
  moreover have "Fstat mem_host ?h (length (fds h)) = Inr (mem_stat (FileNode m b))"
    using n by (simp add: mem_host_def mem_lstat_def)
  moreover have "mem_open p O_RDONLY 0 h = (Inr (length (fds h)), ?h)"
    using assms(1) by (simp add: mem_open_def open_flags Let_def)
  moreover have "st_size (mem_stat (FileNode m b)) = length b" by (simp add: mem_stat_def FromStat_def)
  ultimately show ?thesis
    by (intro exI [of _ "length (fds h)"] exI [of _ ?h] exI [of _ "mem_stat (FileNode m b)"]) simp
qed

lemma delta_file_made: "made_for frame_zstd delta_file [1, 2] [3, 4, 5]" "length delta_file < W64"
proof -
  have w: "within_format (block_size 0) [1, 2] [3, 4, 5]"
    by (simp add: within_format_def block_size_def DEFAULT_BLOCK_def)
  have "delta_file \<noteq> []" unfolding delta_file_def
    by (simp add: generate_total [OF sound_env_ok] goes_on_def)
  then show "made_for frame_zstd delta_file [1, 2] [3, 4, 5]" using w unfolding made_for_def delta_file_def by blast
  show "length delta_file < W64" unfolding delta_file_def by (rule generated_small [OF frame_zstd_ok w])
qed

lemma three_open: "archives_open zstd_env three_files three_layers has_three"
proof -
  have "length (three_files p) < W64" for p using delta_file_made(2) by (simp add: three_files_def W64_def)
  then show ?thesis unfolding archives_open_def
    using mem_file_holds [where Z = frame_zstd] by (fastforce simp: three_layers_def has_three_def node_at_def)
qed

lemma three_chain: "chainTop three_layers = [2 \<mapsto> 2]"
  by (simp add: chainTop_def three_layers_def zip_like_def extends_chain_def BuiltOverOwnTarget_def upt_rec numeral_2_eq_2)

lemma three_stands: "stands_for frame_zstd three_files three_cont (chainTop three_layers) 0 three_layers Map.empty {}"
  using delta_file_made(1)
  by (simp add: three_chain, simp add: three_layers_def zip_like_def three_files_def three_cont_def base_targets_def)

definition three_host :: mem where
  "three_host = \<lparr>nodes = map (\<lambda>p. (p, FileNode 0x1A4 (three_files p))) [''/a'', ''/b'', ''/d''], fds = []\<rparr>"

lemma no_entries_index:
  assumes "holds Z s c" "length c < 22"
  shows "BuildZipIndex Z (\<lambda>_ _. Some []) s name \<noteq> Inl x"
proof -
  have "src_size s < 22" using holds_correct(1) [OF assms(1)] assms(2) by simp
  then show ?thesis by (simp add: BuildZipIndex_def CentralDirOffsets_def WalkCentralDir_def central_dir_def Let_def)
qed

lemma three_returns: "indexes_return zstd_env (\<lambda>_ _. Some []) three_layers three_cont"
proof -
  have "length (three_cont n) < 22" if "n < 3" for n
  proof -
    have "n = 0 \<or> n = 1 \<or> n = 2" using that by linarith
    then show ?thesis by (auto simp: three_cont_def)
  qed
  then show ?thesis using no_entries_index by (simp add: indexes_return_def three_layers_def)
qed

lemma three_host_ok: "has_three three_host" "has_three (snd (create_directories mem_host [] three_host))"
proof -
  show "has_three three_host" by (simp add: has_three_def three_host_def node_at_def)
  then show "has_three (snd (create_directories mem_host [] three_host))" by (simp add: mem_dirs_def Let_def)
qed

lemma three_nth: "length three_layers = 3" "gi < 3 \<Longrightarrow> zip_like (three_layers ! gi)" "ls_source (three_layers ! 2) = ''/d''"
proof -
  show "length three_layers = 3" "ls_source (three_layers ! 2) = ''/d''" by (simp_all add: three_layers_def)
  assume "gi < 3"
  then have "gi = 0 \<or> gi = 1 \<or> gi = 2" by linarith
  then show "zip_like (three_layers ! gi)" by (auto simp: three_layers_def zip_like_def)
qed

lemma three_Init: "\<exists>S0. Init zstd_env (\<lambda>_ _. Some []) (\<lambda>_. []) True three_spec three_host = Inr S0"
proof -
  let ?S = "vfs_start three_spec True three_host"
  have seed: "SeedMasksFromWritelayer zstd_env ?S = Inr ?S"
    by (simp add: SeedMasksFromWritelayer_def vfs_start_def three_spec_def)
  have start: "loop_ok zstd_env (\<lambda>_ _. Some []) three_files three_layers three_cont has_three 0 (loop_start three_host)"
    using three_host_ok(1) three_stands by (auto simp: loop_ok_def loop_start_def all_shown_def views_ok_def)
  obtain J where J: "init_loop zstd_env (\<lambda>_ _. Some []) (chainTop three_layers) 0 three_layers (loop_start three_host) = Inr J"
    using init_loop_returns [OF _ three_open _ start three_returns] frame_zstd_ok by auto
  have "loop_ok zstd_env (\<lambda>_ _. Some []) three_files three_layers three_cont has_three (length three_layers) J"
    using init_loop_ok [OF _ three_open _ _ start] J frame_zstd_ok by simp
  then have "\<forall>k \<in> set (map skel (in_layers J)). \<exists>gi < 3. shown_by frame_zstd three_layers three_cont gi k"
    by (simp add: loop_ok_def all_shown_def three_nth)
  then have "\<forall>k \<in> set (map skel (in_layers J)). snd k \<noteq> None" using three_nth(2) by (fastforce simp: shown_by_def)
  then have z: "\<forall>L \<in> set (in_layers J). l_zip L \<noteq> None" by (simp add: skel_def)
  have "counted J" by (rule init_loop_counted [OF J]) (simp add: counted_def stack_ok_def loop_start_def)
  then have "\<forall>L \<in> set (in_layers J). l_type L \<noteq> Dir"
    using z by (auto simp: counted_def stack_ok_def list_all_iff wf_layer_def)
  then have "seed_layers zstd_env h Ls = Inr Ls" if "set Ls \<subseteq> set (in_layers J)" for Ls h
    using that by (induction Ls) auto
  then have "seed_layers zstd_env (in_host J) (in_layers J) = Inr (in_layers J)" by blast
  moreover have "sp_writelayer three_spec = []" "sp_layers three_spec = three_layers" "host_state ?S = three_host"
    by (simp_all add: three_spec_def vfs_start_def)
  ultimately show ?thesis using seed J by (simp add: Init_steps)
qed

theorem mounted_archives_read_as_their_targets_witness:
  "\<exists>S L I. Init zstd_env (\<lambda>_ _. Some []) (\<lambda>_. []) True three_spec three_host = Inr S \<and>
     L \<in> set (layers (snd (serve_all zstd_env session S))) \<and> l_source L = ''/d'' \<and> l_zip L = Some I \<and>
     preadAll (pread frame_zstd (z_src I)) 2 1 = Inr (Some [4, 5])"
proof -
  obtain S where S: "Init zstd_env (\<lambda>_ _. Some []) (\<lambda>_. []) True three_spec three_host = Inr S" using three_Init by blast
  let ?T = "snd (serve_all zstd_env session S)"
  have sp: "sp_layers three_spec = three_layers" "sp_writelayer three_spec = []" by (simp_all add: three_spec_def)
  have "all_shown (zs zstd_env) (\<lambda>_ _. Some []) (sp_layers three_spec) three_cont (length (sp_layers three_spec)) (map skel (layers ?T))"
    by (rule conjunct1 [OF mounted_archives_read_as_their_targets
          [where files = three_files and P = has_three, OF _ _ three_host_ok(1) _ _ S refl]])
      (use frame_zstd_ok three_open three_host_ok(2) three_stands in \<open>simp_all add: sp\<close>)
  moreover have "surfaces (\<lambda>_ _. Some []) three_layers three_cont 2"
    by (simp add: surfaces_def three_chain) (simp add: three_layers_def zip_like_def)
  moreover have n2: "(2 :: nat) < 3" by simp
  ultimately obtain k where k: "k \<in> set (map skel (layers ?T))" "shown_by frame_zstd three_layers three_cont 2 k"
    unfolding all_shown_def sp three_nth(1) zstd_env_fields using n2 by blast
  then obtain L where "L \<in> set (layers ?T)" "k = skel L" by auto
  then obtain I where L: "L \<in> set (layers ?T)" "l_source L = ''/d''" "l_zip L = Some I" "holds frame_zstd (z_src I) [3, 4, 5]"
    using k(2) three_nth(2) [of 2] by (auto simp: shown_by_def skel_def three_nth(3) three_cont_def)
  have "preadAll (pread frame_zstd (z_src I)) 2 1 = Inr (Some (clip [3, 4, 5] 2 1))"
    by (rule byte_source.preadAll_ok) (use holds_correct(1) [OF L(4)] in simp_all)
  then show ?thesis using S L(1-3) by (auto simp: clip_def)
qed

end
