(* ===== verification/PosixProps.thy ===== *)
theory PosixProps
  imports ListProps CopyProps
begin

text \<open>
  \<^verbatim>\<open>hostio_posix.cpp\<close> keeps the contracts the core relies on: \<open>file_host\<close>, \<open>name_host\<close> and \<open>dir_host\<close>
  hold of the POSIX host over any kernel whose system calls do what POSIX says of them, in terms of
  their return values, \<^verbatim>\<open>errno\<close> and buffers.
\<close>

section \<open>What the kernel promises\<close>

text \<open>A call that returns \<open>r\<close> with \<^verbatim>\<open>errno\<close> \<open>e\<close>; descriptors and counts are not negative.\<close>

locale posix_files =
  fixes K :: "'h posix"
    and file_of :: "'h \<Rightarrow> string \<Rightarrow> 'f option"
    and data :: "'h \<Rightarrow> 'f \<Rightarrow> bytes"
    and cursor :: "'h \<Rightarrow> fd \<Rightarrow> ('f \<times> nat) option"
  assumes open_creates: "px_open K p (or O_CREAT (or O_WRONLY O_TRUNC)) m h = ((r, e), h') \<Longrightarrow> 0 \<le> r \<Longrightarrow>
      fst (fst (px_lstat K h p)) \<noteq> 0 \<Longrightarrow>
      \<exists>f. file_of h' p = Some f \<and> (\<forall>q. file_of h q \<noteq> Some f) \<and> data h' f = [] \<and> cursor h' (nat r) = Some (f, 0) \<and>
        (\<forall>q g. file_of h q = Some g \<longrightarrow> file_of h' q = Some g \<and> data h' g = data h g)"
    and open_reads: "px_open K p O_RDONLY m h = ((r, e), h') \<Longrightarrow> 0 \<le> r \<Longrightarrow> file_of h p = Some f \<Longrightarrow>
      cursor h (nat r) = None \<and> cursor h' = (cursor h)(nat r \<mapsto> (f, 0)) \<and> file_of h' = file_of h \<and> data h' = data h"
    and read_fills: "px_read K fd n h = (((r, e), buf), h') \<Longrightarrow> 0 \<le> r \<Longrightarrow> cursor h fd = Some (f, pos) \<Longrightarrow>
      nat r \<le> n \<and> nat r \<le> length buf \<and> take (nat r) buf = clip (data h f) (nat r) pos \<and>
      (r = 0 \<longrightarrow> n = 0 \<or> length (data h f) \<le> pos) \<and>
      cursor h' = (cursor h)(fd \<mapsto> (f, pos + nat r)) \<and> file_of h' = file_of h \<and> data h' = data h"
    and write_appends: "px_write K fd b h = ((r, e), h') \<Longrightarrow> 0 \<le> r \<Longrightarrow> cursor h fd = Some (f, length (data h f)) \<Longrightarrow>
      nat r \<le> length b \<and> data h' = (data h)(f := data h f @ take (nat r) b) \<and>
      cursor h' = (cursor h)(fd \<mapsto> (f, length (data h f) + nat r)) \<and> file_of h' = file_of h"
    and write_interrupted: "px_write K fd b h = ((r, 4), h') \<Longrightarrow> r < 0 \<Longrightarrow>
      cursor h' = cursor h \<and> file_of h' = file_of h \<and> data h' = data h"
    and close_keeps: "px_close K fd h = (c, h') \<Longrightarrow> file_of h' = file_of h \<and> data h' = data h"
    and fchmod_keeps: "px_fchmod K fd m h = (c, h') \<Longrightarrow> file_of h' = file_of h \<and> data h' = data h"
    and mkdirs_keep: "px_create_directories K p h = (d, h') \<Longrightarrow> file_of h q = Some f \<Longrightarrow>
      file_of h' q = Some f \<and> data h' f = data h f"
    and mkdirs_no_more: "px_create_directories K p h = (d, h') \<Longrightarrow> fst (fst (px_lstat K h (p @ ''/'' @ nm))) \<noteq> 0 \<Longrightarrow>
      nm \<noteq> [] \<Longrightarrow> CHR ''/'' \<notin> set nm \<Longrightarrow> fst (fst (px_lstat K h' (p @ ''/'' @ nm))) \<noteq> 0"
    and stat_regular: "file_of h p = Some f \<Longrightarrow> \<exists>e st. px_stat K h p = ((0, e), st) \<and> \<not> S_ISDIR (px_mode st)"

locale posix_names =
  fixes K :: "'h posix"
  assumes open_makes: "px_open K p fl m h = ((r, e), h') \<Longrightarrow> 0 \<le> r \<Longrightarrow> and fl O_CREAT \<noteq> 0 \<Longrightarrow>
      fst (fst (px_lstat K h' p)) = 0"
    and mkdir_makes: "px_mkdir K p m h = ((0, e), h') \<Longrightarrow> fst (fst (px_lstat K h' p)) = 0"
    and symlink_makes: "px_symlink K t p h = ((0, e), h') \<Longrightarrow> fst (fst (px_lstat K h' p)) = 0"
    and open_keeps: "px_open K q fl m h = (c, h') \<Longrightarrow> fst (fst (px_lstat K h p)) = 0 \<Longrightarrow> fst (fst (px_lstat K h' p)) = 0"
    and close_keeps: "px_close K fd h = (c, h') \<Longrightarrow> fst (fst (px_lstat K h p)) = 0 \<Longrightarrow> fst (fst (px_lstat K h' p)) = 0"
    and readdir_lists: "px_readdir K h p = Some ns \<Longrightarrow> fst (fst (px_lstat K h (p @ ''/'' @ n))) = 0 \<Longrightarrow> n \<noteq> [] \<Longrightarrow>
      CHR ''/'' \<notin> set n \<Longrightarrow> n \<noteq> ''.'' \<Longrightarrow> n \<noteq> ''..'' \<Longrightarrow> n \<in> set ns"

section \<open>What the host makes of it\<close>

lemma posix_host_fields:
  "Open (posix_host K) p fl m h = apfst count_rc (px_open K p fl m h)"
  "Close (posix_host K) fd h = apfst status_rc (px_close K fd h)"
  "Read (posix_host K) fd n h = apfst bytes_rc (px_read K fd n h)"
  "Write (posix_host K) fd b h = apfst count_rc (px_write K fd b h)"
  "Fchmod (posix_host K) fd m h = apfst status_rc (px_fchmod K fd m h)"
  "Lstat (posix_host K) h p = stat_rc (px_lstat K h p)" "StatFollow (posix_host K) h p = stat_rc (px_stat K h p)"
  "Mkdir (posix_host K) p m h = apfst status_rc (px_mkdir K p m h)"
  "Symlink (posix_host K) t p h = apfst status_rc (px_symlink K t p h)"
  "ReadDir (posix_host K) h p = posix_readdir (px_readdir K h p)"
  "create_directories (posix_host K) = px_create_directories K"
  by (simp_all add: posix_host_def)

lemma count_rc_Inr: "apfst count_rc c = (Inr n, h') \<longleftrightarrow> (\<exists>r e. c = ((r, e), h') \<and> 0 \<le> r \<and> n = nat r)"
  by (cases c) (auto simp: count_rc_def split: if_splits)

lemma count_rc_Inl: "apfst count_rc c = (Inl x, h') \<longleftrightarrow> (\<exists>r e. c = ((r, e), h') \<and> r < 0 \<and> x = Errno e)"
  by (cases c) (auto simp: count_rc_def split: if_splits)

lemma status_rc_Inr: "apfst status_rc c = (Inr u, h') \<longleftrightarrow> (\<exists>e. c = ((0, e), h'))"
  by (cases c) (auto simp: status_rc_def split: if_splits)

lemma bytes_rc_Inr:
  "apfst bytes_rc c = (Inr b, h') \<longleftrightarrow> (\<exists>r e buf. c = (((r, e), buf), h') \<and> 0 \<le> r \<and> b = take (nat r) buf)"
  by (cases c) (auto simp: bytes_rc_def count_rc_def split: if_splits)

lemma stat_rc_isl: "isl (stat_rc c) \<longleftrightarrow> fst (fst c) \<noteq> 0"
  by (simp add: stat_rc_def)

lemma apfst_state: "apfst f c = (r, h') \<Longrightarrow> \<exists>x. c = (x, h') \<and> r = f x"
  by (cases c) auto

lemmas posix_calls = posix_host_fields count_rc_Inr count_rc_Inl status_rc_Inr bytes_rc_Inr stat_rc_isl

sublocale posix_files \<subseteq> files: file_host "posix_host K" file_of data cursor
proof unfold_locales
  fix fd n h bs h' f pos
  assume "Read (posix_host K) fd n h = (Inr bs, h')" and c: "cursor h fd = Some (f, pos)"
  then obtain r e buf where r: "px_read K fd n h = (((r, e), buf), h')" "0 \<le> r" "bs = take (nat r) buf"
    by (auto simp: posix_calls)
  note l = read_fills [OF r(1,2) c]
  have l1: "nat r \<le> n" "nat r \<le> length buf" "take (nat r) buf = clip (data h f) (nat r) pos"
    "r = 0 \<longrightarrow> n = 0 \<or> length (data h f) \<le> pos" using l by blast+
  have l2: "cursor h' = (cursor h)(fd \<mapsto> (f, pos + nat r)) \<and> file_of h' = file_of h \<and> data h' = data h" using l by blast
  have len: "length bs = nat r" using l1(2) r(3) by simp
  have "\<exists>k \<le> n. bs = clip (data h f) k pos" using l1(1,3) r(3) by blast
  moreover have "bs = [] \<longrightarrow> n = 0 \<or> length (data h f) \<le> pos"
  proof
    assume "bs = []"
    then have "r = 0" using len r(2) by simp
    then show "n = 0 \<or> length (data h f) \<le> pos" using l1(4) by blast
  qed
  ultimately show "(\<exists>k \<le> n. bs = clip (data h f) k pos) \<and> (bs = [] \<longrightarrow> n = 0 \<or> length (data h f) \<le> pos) \<and>
      cursor h' = (cursor h)(fd \<mapsto> (f, pos + length bs)) \<and> file_of h' = file_of h \<and> data h' = data h"
    using l2 unfolding len by blast
next
  fix h p f
  assume "file_of h p = Some f"
  then show "\<exists>st. StatFollow (posix_host K) h p = Inr st \<and> \<not> st_isDir st"
    using stat_regular by (fastforce simp: posix_calls stat_rc_def FromStat_def)
qed (auto simp: posix_calls dest: open_creates open_reads write_appends write_interrupted close_keeps fchmod_keeps
      mkdirs_keep mkdirs_no_more dest!: apfst_state)

sublocale posix_names \<subseteq> names: name_host "posix_host K"
  by unfold_locales (auto simp: posix_calls dest: open_makes mkdir_makes symlink_makes open_keeps close_keeps dest!: apfst_state)

text \<open>A directory that \<^verbatim>\<open>opendir\<close> opens is listed in full.\<close>

sublocale posix_names \<subseteq> dirs: dir_host "posix_host K" "\<lambda>h p. px_readdir K h p \<noteq> None"
proof unfold_locales
  fix h p n st
  assume a: "px_readdir K h p \<noteq> None" "Lstat (posix_host K) h (p @ ''/'' @ n) = Inr st" "n \<noteq> []" "CHR ''/'' \<notin> set n"
    "n \<noteq> ''.''" "n \<noteq> ''..''"
  then have "fst (fst (px_lstat K h (p @ ''/'' @ n))) = 0" by (auto simp: posix_calls stat_rc_def split: if_splits)
  moreover obtain ns where ns: "px_readdir K h p = Some ns" using a(1) by blast
  ultimately have "n \<in> set ns" using readdir_lists a(3-6) by blast
  then show "n \<in> set (ReadDir (posix_host K) h p)" using a(5,6) ns by (simp add: posix_calls posix_readdir_def)
qed

context posix_files
begin

lemma keeps_files: "file_host (posix_host K) file_of data cursor"
  by unfold_locales

end

context posix_names
begin

lemma keeps_names: "name_host (posix_host K)" "dir_host (posix_host K) (\<lambda>h p. px_readdir K h p \<noteq> None)"
  by unfold_locales

end


section \<open>A kernel\<close>

text \<open>The host in memory, as system calls.\<close>

definition errno_of :: "fail \<Rightarrow> nat" where
  "errno_of e = (case e of Errno n \<Rightarrow> n | NoReturn \<Rightarrow> 0)"

definition sys_count :: "nat res \<times> 'h \<Rightarrow> (int \<times> nat) \<times> 'h" where
  "sys_count c = (case c of (Inl e, h) \<Rightarrow> ((-1, errno_of e), h) | (Inr n, h) \<Rightarrow> ((int n, 0), h))"

definition sys_status :: "unit res \<times> 'h \<Rightarrow> (int \<times> nat) \<times> 'h" where
  "sys_status c = (case c of (Inl e, h) \<Rightarrow> ((-1, errno_of e), h) | (Inr _, h) \<Rightarrow> ((0, 0), h))"

definition sys_bytes :: "'b list res \<times> 'h \<Rightarrow> ((int \<times> nat) \<times> 'b list) \<times> 'h" where
  "sys_bytes c = (case c of (Inl e, h) \<Rightarrow> (((-1, errno_of e), []), h) | (Inr b, h) \<Rightarrow> (((int (length b), 0), b), h))"

definition sys_stat :: "hstat res \<Rightarrow> (int \<times> nat) \<times> posix_stat" where
  "sys_stat r = (case r of
     Inl e \<Rightarrow> ((-1, errno_of e), \<lparr>px_mode = 0, px_size = 0, px_mtime = 0, px_nlink = 0\<rparr>)
   | Inr st \<Rightarrow> ((0, 0), \<lparr>px_mode = st_mode st, px_size = st_size st, px_mtime = st_mtime st, px_nlink = st_nlink st\<rparr>))"

definition kernel_of :: "'h host \<Rightarrow> 'h posix" where
  "kernel_of H = \<lparr>
     px_open = (\<lambda>p fl m h. sys_count (Open H p fl m h)),
     px_close = (\<lambda>fd h. sys_status (Close H fd h)),
     px_pread = (\<lambda>h fd n off. fst (sys_bytes (Pread H h fd n off, h))),
     px_pwrite = (\<lambda>fd b off h. sys_count (Pwrite H fd b off h)),
     px_read = (\<lambda>fd n h. sys_bytes (Read H fd n h)),
     px_write = (\<lambda>fd b h. sys_count (Write H fd b h)),
     px_fsync = (\<lambda>fd h. sys_status (Fsync H fd h)),
     px_ftruncate = (\<lambda>fd n h. sys_status (Ftruncate H fd n h)),
     px_fchmod = (\<lambda>fd m h. sys_status (Fchmod H fd m h)),
     px_fstat = (\<lambda>h fd. sys_stat (Fstat H h fd)),
     px_lstat = (\<lambda>h p. sys_stat (Lstat H h p)),
     px_stat = (\<lambda>h p. sys_stat (StatFollow H h p)),
     px_mkdir = (\<lambda>p m h. sys_status (Mkdir H p m h)),
     px_unlink = (\<lambda>p h. sys_status (Unlink H p h)),
     px_rmdir = (\<lambda>p h. sys_status (Rmdir H p h)),
     px_rename = (\<lambda>a b h. sys_status (Rename H a b h)),
     px_link = (\<lambda>a b h. sys_status (Link H a b h)),
     px_truncate = (\<lambda>p n h. sys_status (Truncate H p n h)),
     px_chmod = (\<lambda>p m h. sys_status (Chmod H p m h)),
     px_utimensat = (\<lambda>p a m nf h. sys_status (Utimens H p a m (\<not> nf) h)),
     px_readlink = (\<lambda>h p n. fst (sys_bytes (Readlink H h p, h))),
     px_symlink = (\<lambda>t p h. sys_status (Symlink H t p h)),
     px_statvfs = (\<lambda>h p. (case Statvfs H h p of Inl e \<Rightarrow> ((-1, errno_of e),
       \<lparr>sv_bsize = 0, sv_blocks = 0, sv_bfree = 0, sv_bavail = 0, sv_files = 0, sv_ffree = 0, sv_namemax = 0\<rparr>) | Inr sv \<Rightarrow> ((0, 0), sv))),
     px_readdir = (\<lambda>h p. Some (ReadDir H h p)),
     px_create_directories = create_directories H,
     px_weakly_canonical = weakly_canonical H\<rparr>"

lemma sys_count_Inr: "sys_count c = ((r, e), h') \<Longrightarrow> 0 \<le> r \<Longrightarrow> c = (Inr (nat r), h')"
  by (auto simp: sys_count_def split: prod.splits sum.splits)

lemma sys_status_Inr: "sys_status c = ((0, e), h') \<Longrightarrow> c = (Inr (), h')"
  by (auto simp: sys_status_def split: prod.splits sum.splits)

lemma sys_status_state: "sys_status c = (x, h') \<Longrightarrow> \<exists>r. c = (r, h')"
  by (auto simp: sys_status_def split: prod.splits sum.splits)

lemma sys_count_state: "sys_count c = (x, h') \<Longrightarrow> \<exists>r. c = (r, h')"
  by (auto simp: sys_count_def split: prod.splits sum.splits)

lemma sys_bytes_Inr: "sys_bytes c = (((r, e), b), h') \<Longrightarrow> 0 \<le> r \<Longrightarrow> c = (Inr b, h') \<and> r = int (length b)"
  by (auto simp: sys_bytes_def split: prod.splits sum.splits)

lemma sys_stat_there: "fst (fst (sys_stat r)) = 0 \<longleftrightarrow> \<not> isl r"
  by (cases r) (simp_all add: sys_stat_def)

lemma kernel_of_fields:
  "px_open (kernel_of H) p fl m h = sys_count (Open H p fl m h)" "px_close (kernel_of H) fd h = sys_status (Close H fd h)"
  "px_read (kernel_of H) fd n h = sys_bytes (Read H fd n h)" "px_write (kernel_of H) fd b h = sys_count (Write H fd b h)"
  "px_fchmod (kernel_of H) fd m h = sys_status (Fchmod H fd m h)" "px_lstat (kernel_of H) h p = sys_stat (Lstat H h p)"
  "px_stat (kernel_of H) h p = sys_stat (StatFollow H h p)" "px_mkdir (kernel_of H) p m h = sys_status (Mkdir H p m h)"
  "px_symlink (kernel_of H) t p h = sys_status (Symlink H t p h)" "px_readdir (kernel_of H) h p = Some (ReadDir H h p)"
  "px_create_directories (kernel_of H) = create_directories H"
  by (simp_all add: kernel_of_def)

lemma mem_write_writes: "mem_write fd b h = (Inl EINTR, h') \<Longrightarrow> False"
  by (simp add: mem_write_def split: if_splits)

interpretation mem_kernel: posix_names "kernel_of mem_host"
proof unfold_locales
  fix h p ns n
  assume a: "px_readdir (kernel_of mem_host) h p = Some ns" "fst (fst (px_lstat (kernel_of mem_host) h (p @ ''/'' @ n))) = 0"
    "n \<noteq> []" "CHR ''/'' \<notin> set n" "n \<noteq> ''.''" "n \<noteq> ''..''"
  then obtain st where "Lstat mem_host h (p @ ''/'' @ n) = Inr st" unfolding kernel_of_fields sys_stat_there by (cases "Lstat mem_host h (p @ ''/'' @ n)") simp_all
  then show "n \<in> set ns"
    using mem_dir.listed [OF TrueI] a(1,3-6) by (simp only: kernel_of_fields option.inject) blast
next
  fix p m h e h'
  assume "px_mkdir (kernel_of mem_host) p m h = ((0, e), h')"
  then show "fst (fst (px_lstat (kernel_of mem_host) h' p)) = 0"
    unfolding kernel_of_fields sys_stat_there by (rule mem_names.mkdir_makes [OF sys_status_Inr])
next
  fix t p h e h'
  assume "px_symlink (kernel_of mem_host) t p h = ((0, e), h')"
  then show "fst (fst (px_lstat (kernel_of mem_host) h' p)) = 0"
    unfolding kernel_of_fields sys_stat_there by (rule mem_names.symlink_makes [OF sys_status_Inr])
next
  fix p fl m h r e h'
  assume "px_open (kernel_of mem_host) p fl m h = ((r, e), h')" "0 \<le> r" "and fl O_CREAT \<noteq> 0"
  then show "fst (fst (px_lstat (kernel_of mem_host) h' p)) = 0"
    unfolding kernel_of_fields sys_stat_there by (intro mem_names.create_makes [OF sys_count_Inr])
qed (auto simp only: kernel_of_fields sys_stat_there dest!: sys_count_state sys_status_state
      dest: mem_names.open_keeps mem_names.close_keeps)

lemma mem_follow_stat: "mem_follow h p = Inr st \<Longrightarrow> \<exists>x. st = FromStat x"
  by (auto simp: mem_follow_def mem_lstat_def mem_stat_def split: option.splits node.splits if_splits)

interpretation mem_kernel_files: posix_files "kernel_of mem_host" mem_file mem_data mem_cursor
proof unfold_locales
  fix p m h r e h'
  assume "px_open (kernel_of mem_host) p (or O_CREAT (or O_WRONLY O_TRUNC)) m h = ((r, e), h')" "0 \<le> r"
    "fst (fst (px_lstat (kernel_of mem_host) h p)) \<noteq> 0"
  then show "\<exists>f. mem_file h' p = Some f \<and> (\<forall>q. mem_file h q \<noteq> Some f) \<and> mem_data h' f = [] \<and>
      mem_cursor h' (nat r) = Some (f, 0) \<and>
      (\<forall>q g. mem_file h q = Some g \<longrightarrow> mem_file h' q = Some g \<and> mem_data h' g = mem_data h g)"
    unfolding kernel_of_fields sys_stat_there by (intro mem.creates [OF sys_count_Inr]) simp_all
next
  fix p m h r e h' f
  assume "px_open (kernel_of mem_host) p O_RDONLY m h = ((r, e), h')" "0 \<le> r" "mem_file h p = Some f"
  then show "mem_cursor h (nat r) = None \<and> mem_cursor h' = (mem_cursor h)(nat r \<mapsto> (f, 0)) \<and>
      mem_file h' = mem_file h \<and> mem_data h' = mem_data h"
    unfolding kernel_of_fields by (intro mem.opens [OF sys_count_Inr])
next
  fix fd n h r e buf h' f pos
  assume "px_read (kernel_of mem_host) fd n h = (((r, e), buf), h')" "0 \<le> r" and c: "mem_cursor h fd = Some (f, pos)"
  then have rd: "Read mem_host fd n h = (Inr buf, h')" and r: "r = int (length buf)"
    unfolding kernel_of_fields using sys_bytes_Inr by metis+
  obtain m d where "fd < length (fds h)" "fds h ! fd = (f, pos)" "node_at h f = Some (FileNode m d)" "mem_data h f = d"
    using c by (auto simp: mem_files split: if_splits option.splits node.splits)
  then have buf: "buf = clip (mem_data h f) n pos" using rd by (simp add: mem_read_def content_of_def Let_def)
  then have len: "length buf \<le> n" by (simp add: clip_def)
  have "buf = clip (mem_data h f) (length buf) pos" using buf clip_self by metis
  moreover have "r = 0 \<longrightarrow> n = 0 \<or> length (mem_data h f) \<le> pos" using mem.reads [OF rd c] r by simp
  moreover have "nat r = length buf" using r by simp
  ultimately show "nat r \<le> n \<and> nat r \<le> length buf \<and> take (nat r) buf = clip (mem_data h f) (nat r) pos \<and>
      (r = 0 \<longrightarrow> n = 0 \<or> length (mem_data h f) \<le> pos) \<and> mem_cursor h' = (mem_cursor h)(fd \<mapsto> (f, pos + nat r)) \<and>
      mem_file h' = mem_file h \<and> mem_data h' = mem_data h"
    using mem.reads [OF rd c] len by simp
next
  fix fd b h r e h' f
  assume "px_write (kernel_of mem_host) fd b h = ((r, e), h')" "0 \<le> r" "mem_cursor h fd = Some (f, length (mem_data h f))"
  then show "nat r \<le> length b \<and> mem_data h' = (mem_data h)(f := mem_data h f @ take (nat r) b) \<and>
      mem_cursor h' = (mem_cursor h)(fd \<mapsto> (f, length (mem_data h f) + nat r)) \<and> mem_file h' = mem_file h"
    unfolding kernel_of_fields by (intro mem.writes [OF sys_count_Inr])
next
  fix fd b h r h'
  assume "px_write (kernel_of mem_host) fd b h = ((r, 4), h')" "r < 0"
  then show "mem_cursor h' = mem_cursor h \<and> mem_file h' = mem_file h \<and> mem_data h' = mem_data h"
    by (auto simp: kernel_of_fields sys_count_def mem_write_def errno_of_def split: if_splits)
next
  fix p h d h' nm
  assume "px_create_directories (kernel_of mem_host) p h = (d, h')"
    "fst (fst (px_lstat (kernel_of mem_host) h (p @ ''/'' @ nm))) \<noteq> 0" "nm \<noteq> []" "CHR ''/'' \<notin> set nm"
  then show "fst (fst (px_lstat (kernel_of mem_host) h' (p @ ''/'' @ nm))) \<noteq> 0"
    unfolding kernel_of_fields sys_stat_there using mem.mkdirs_inside by blast
next
  fix h p f
  assume "mem_file h p = Some f"
  then obtain st where "StatFollow mem_host h p = Inr st" "\<not> st_isDir st" using mem.regular by blast
  then show "\<exists>e st. px_stat (kernel_of mem_host) h p = ((0, e), st) \<and> \<not> S_ISDIR (px_mode st)"
    using mem_follow_stat [of h p st] by (auto simp: kernel_of_fields sys_stat_def FromStat_def)
qed (auto simp only: kernel_of_fields dest!: sys_status_state dest: mem.closes mem.chmods mem.mkdirs)

section \<open>The contracts\<close>

text \<open>
  Over any kernel whose calls return, set \<^verbatim>\<open>errno\<close> and fill their buffers as POSIX says, the operations
  of \<^verbatim>\<open>hostio_posix.cpp\<close> open, create, read and append files, make names and list directories that can
  be opened as \<open>file_host\<close>, \<open>name_host\<close> and \<open>dir_host\<close> ask.
\<close>

lemma posix_host_contracts:
  assumes "posix_files K file_of data cursor" "posix_names K"
  shows "file_host (posix_host K) file_of data cursor" "name_host (posix_host K)"
    "dir_host (posix_host K) (\<lambda>h p. px_readdir K h p \<noteq> None)"
  using posix_files.keeps_files [OF assms(1)] posix_names.keeps_names [OF assms(2)] by blast+

lemmas mem_kernel_contracts = posix_host_contracts [OF mem_kernel_files.posix_files_axioms mem_kernel.posix_names_axioms]

end
