(* ===== verification/Spec2Isabelle.thy ===== *)
theory Spec2Isabelle
  imports DeltaProps BlockCache ListProps SeedProps SourceProps WinHostProps WinFspProps SessionProps
    SpillProps ZipSource Locks MountRead PosixProps
begin

text \<open>
  VidyaGodFS is a copy-on-write overlay filesystem. It merges an ordered stack of layers
  (directories, zip archives whose stored entries are read in place, single files, and binary deltas
  of archives) under a mount point, and keeps every change in a writelayer above them, or in the
  folders the specification marks \<^verbatim>\<open>rw\<close>.

  \<^bold>\<open>The program and the theories.\<close> Bottom up, with the file under \<^verbatim>\<open>src/src/\<close> each part models:

  \<^item> \<^theory_text>\<open>Prelude\<close>: bytes, failures (\<open>Errno n\<close>, and \<open>NoReturn\<close> for a call that does not return),
    64-bit sums and differences on \<open>nat\<close> with the wrap-around written out, string searches.
  \<^item> \<^theory_text>\<open>Endian\<close>: the integer codecs of \<^verbatim>\<open>vgdelta.cpp\<close> and \<^verbatim>\<open>zipscan.cpp\<close>, FNV-1a.
  \<^item> \<^theory_text>\<open>ByteSource\<close> (\<^verbatim>\<open>bytesource.h\<close>): \<^verbatim>\<open>preadAll\<close> and the sources; the contract of a
    source is the locale \<open>byte_source\<close>, extended by \<open>exact_source\<close>. \<^theory_text>\<open>Spill\<close>: \<^verbatim>\<open>SpillFile\<close> of
    \<^verbatim>\<open>vgdelta.cpp\<close> and \<^verbatim>\<open>MmapByteSource::Map\<close>.
  \<^item> \<^theory_text>\<open>DeltaFormat\<close>, \<^theory_text>\<open>Delta\<close>, \<^theory_text>\<open>BlockCache\<close>, \<^theory_text>\<open>DeltaGen\<close>, \<^theory_text>\<open>DeltaVerify\<close>
    (\<^verbatim>\<open>vgdelta.cpp\<close>, \<^verbatim>\<open>vgdelta.h\<close>): the file format, the composition of a delta over a base into
    one flat segment map (\<^verbatim>\<open>Create\<close>) and its reads, the cache of decompressed blocks, the generator
    and the verifier.
  \<^item> \<^theory_text>\<open>ZipScan\<close> (\<^verbatim>\<open>zipscan.cpp\<close>), \<^theory_text>\<open>ZipLayer\<close> and \<^theory_text>\<open>ZipSource\<close> (\<^verbatim>\<open>ziplayer.cpp\<close>): the
    central directory, the index, reads of stored entries, links inside archives, and the callback
    through which libzip reads a byte source.
  \<^item> \<^theory_text>\<open>LayerSpec\<close> (\<^verbatim>\<open>layerspec.cpp\<close>): virtual paths and the specification.
  \<^item> \<^theory_text>\<open>HostIO\<close> (\<^verbatim>\<open>hostio.h\<close>, \<^verbatim>\<open>hostio_posix.cpp\<close>) and \<^theory_text>\<open>WinHost\<close> (\<^verbatim>\<open>hostio_win.cpp\<close>):
    the host interface as a record of operations over an abstract host state \<open>'h\<close>, and its two
    implementations over system calls; the Windows descriptor counter is a 32-bit word and overflows.
  \<^item> \<^theory_text>\<open>Overlay\<close>, \<^theory_text>\<open>OverlayOps\<close>, \<^theory_text>\<open>OverlayInit\<close> (\<^verbatim>\<open>overlay.cpp\<close>): the state of a mount
    (\<open>'h vfs\<close>), \<^verbatim>\<open>Resolve\<close>, deletion masks, copy-up, and \<^verbatim>\<open>VfsState::Init\<close>. \<^theory_text>\<open>Locks\<close>: its two
    locks, with the steps of several threads interleaved and the host calls of a copy-up that may fail.
  \<^item> \<^theory_text>\<open>VfsOps\<close> (\<^verbatim>\<open>vfsops.cpp\<close>): every filesystem operation as a whole handler, in the state monad
    over \<open>'h vfs\<close>.
  \<^item> \<^theory_text>\<open>FuseOps\<close> (\<^verbatim>\<open>fuseops.cpp\<close>, \<^verbatim>\<open>main.cpp\<close>), \<^theory_text>\<open>WinFsp\<close> (\<^verbatim>\<open>winfsp_backend.cpp\<close>) and
    \<^theory_text>\<open>Session\<close> (\<^verbatim>\<open>mountsession_fuse.cpp\<close>, \<^verbatim>\<open>mountsession_win.cpp\<close>): the requests and replies
    of the two backends (\<open>serve\<close>, \<open>serve_win\<close>), the command line, and the program down to
    \<^verbatim>\<open>fuse_main\<close> (\<open>vidyagodfs\<close>).

  A request enters through \<open>serve\<close>, which normalises its paths and calls the operation; the operation
  resolves the path over masks and layers, may copy a lower file up, and acts on the host through the
  record \<open>io E\<close>. An archive layer's bytes come through a byte source, which for a delta is itself a
  composition over the layers below.

  \<^bold>\<open>What is shown.\<close>

  \<^item> Deltas: a generated delta composes to exactly its target (\<^theory_text>\<open>DeltaRoundTrip\<close>, from the rolling
    hash in \<^theory_text>\<open>DeltaRoll\<close>), composing refines the abstract content \<open>flat_bytes\<close> (\<^theory_text>\<open>DeltaCorrect\<close>),
    the verifier answers true exactly when the view composes and reads as the target in its chunks of
    8 MiB, generated deltas parse, keep their bounds and verify, the format round-trips, the cache is
    transparent under concurrent readers (\<^theory_text>\<open>DeltaProps\<close>, \<^theory_text>\<open>BlockCache\<close>). The predicate
    \<open>holds Z s c\<close> (source \<open>s\<close> is well formed with content \<open>c\<close>) carries these through chains of deltas,
    to the view that mounting gives a delta layer (\<^theory_text>\<open>InitDelta\<close>) and to the bytes a program reads
    from a mounted stack of archives and deltas (\<^theory_text>\<open>MountRead\<close>).
  \<^item> Sources and archives: bounds and exactness of reads (\<^theory_text>\<open>SourceProps\<close>), the scan of an archive laid
    out as the format says, ZIP64 included (the format is specified in \<^theory_text>\<open>ZipArchive\<close>), stored
    entries, links (\<^theory_text>\<open>ZipProps\<close>), listings of an index (\<^theory_text>\<open>ZipTree\<close>),
    reads of archive files through the mount (\<^theory_text>\<open>ServeProps\<close>), the libzip stream, the scratch
    writer (\<^theory_text>\<open>SpillProps\<close>).
  \<^item> The mount: isolation and read-only mounts over any host (\<^theory_text>\<open>Guard\<close>, \<^theory_text>\<open>VfsGuard\<close>,
    \<^theory_text>\<open>Isolation\<close>, \<^theory_text>\<open>MountProps\<close>); what \<^verbatim>\<open>Resolve\<close> serves and hides (\<^theory_text>\<open>ResolveProps\<close>); what each
    operation leaves (\<^theory_text>\<open>Frame\<close>, \<^theory_text>\<open>RemovalProps\<close>, \<^theory_text>\<open>CreateProps\<close>, \<^theory_text>\<open>CopyProps\<close>, \<^theory_text>\<open>ListProps\<close>);
    that mounting establishes, and every session keeps, the well-formedness \<open>wf_vfs\<close> (\<^theory_text>\<open>InitProps\<close>,
    \<^theory_text>\<open>SpecProps\<close>); the masks read from disk (\<^theory_text>\<open>SeedProps\<close>).
  \<^item> The platforms: the WinFsp mount refines the FUSE mount (\<^theory_text>\<open>WinFspProps\<close>), the Win32 descriptor
    table and file times (\<^theory_text>\<open>WinHostProps\<close>), the watched session (\<^theory_text>\<open>SessionProps\<close>).

  The interfaces are locales: \<open>byte_source\<close> and \<open>exact_source\<close> (interpreted by every source), \<open>guarded\<close>
  (interpreted by the logged host), \<open>host_frame\<close> and \<open>mask_frame\<close> (interpreted by the invariants), and
  \<open>file_host\<close>, \<open>name_host\<close>, \<open>dir_host\<close>, what the core relies on a host for: the POSIX host keeps them over
  any kernel that keeps \<open>posix_files\<close> and \<open>posix_names\<close>, the last of them for the directories that can be
  opened (\<^theory_text>\<open>PosixProps\<close>). \<^theory_text>\<open>MemHost\<close> is an executable
  host in memory, the instance on which the concrete runs are evaluated.

  \<^bold>\<open>Parameters and bounds.\<close> System calls, zstd, libzip, the JSON library and the WinFsp and FUSE
  libraries are arguments. What a theorem needs of them is a hypothesis or a locale, and its witness
  shows an instance. A host call or a loop over host calls that need not return is followed for a
  bounded number of turns, \<open>turns E\<close> in the environment, and gives \<open>NoReturn\<close> beyond them, which no
  theorem takes for a result: a write loop takes at most one turn per byte and per interruption, a copy
  at most one per block; \<^verbatim>\<open>DeepCopyUp\<close> and the seeding walks take one per level of the tree. The chase
  of an archive link has the code's own limit of hops.

  \<^bold>\<open>Not modelled.\<close> Destructors and the lifetime of descriptors and handles; the \<^verbatim>\<open>int\<close> to which the
  backends cut the length of one read or write; files of the host changed behind the mount's back
  while it runs, archives among them; the locks other than in \<^theory_text>\<open>BlockCache\<close> and \<^theory_text>\<open>Locks\<close>
  (handlers are otherwise run one after the other); messages written to standard error; the tests and
  the build. An endless read inside the chase of an archive link is taken for a missing entry.
\<close>

end
